(* ===== verification/Sqlx_Prelude.thy ===== *)
theory Sqlx_Prelude
  imports Main "HOL-Library.Char_ord"
begin

text \<open>
  Shared vocabulary of the development: Go errors and results, the few functions of Go's
  \<open>strings\<close> and \<open>strconv\<close> packages the program calls, \<open>sync.Map\<close> with the contract the
  program's caches rely on, and the generic lemmas the component theories use.

  A Go \<open>string\<close> or \<open>[]byte\<close> is a \<^typ>\<open>string\<close> (a list of bytes); a \<open>(T, error)\<close> return is a
  \<open>result\<close>: \<open>Ok v\<close> for \<open>(v, nil)\<close>, \<open>Err v e\<close> for \<open>(v, e)\<close> with the value returned beside the
  error, \<open>Panic\<close> for a run-time panic.
\<close>

named_theorems go_eval \<open>definitions a concrete evaluation unfolds\<close>

subsection \<open>Errors and results\<close>

datatype sentinel =
    ErrBindMismatch
  | ErrNamedPropertyNotFound
  | ErrUnsupportedType
  | ErrSyntax
  | ErrColumnNotFound
  | ErrNoRows
  | ErrStopIter

text \<open>There are finitely many, so that two classes of errors can be compared by evaluation.\<close>

instantiation sentinel :: enum
begin

definition enum_sentinel :: "sentinel list" where
  "enum_sentinel =
     [ErrBindMismatch, ErrNamedPropertyNotFound, ErrUnsupportedType, ErrSyntax, ErrColumnNotFound, ErrNoRows, ErrStopIter]"

definition enum_all_sentinel :: "(sentinel \<Rightarrow> bool) \<Rightarrow> bool" where
  "enum_all_sentinel P \<longleftrightarrow> list_all P enum_class.enum"

definition enum_ex_sentinel :: "(sentinel \<Rightarrow> bool) \<Rightarrow> bool" where
  "enum_ex_sentinel P \<longleftrightarrow> list_ex P enum_class.enum"

instance
proof
  show all: "UNIV = set (enum_class.enum :: sentinel list)"
    by (auto simp: enum_sentinel_def intro: sentinel.exhaust)
  show "distinct (enum_class.enum :: sentinel list)" by (simp add: enum_sentinel_def)
  show "enum_class.enum_all P \<longleftrightarrow> Ball UNIV P" for P :: "sentinel \<Rightarrow> bool"
    by (simp add: enum_all_sentinel_def list_all_iff all)
  show "enum_class.enum_ex P \<longleftrightarrow> Bex UNIV P" for P :: "sentinel \<Rightarrow> bool"
    by (simp add: enum_ex_sentinel_def list_ex_iff all)
qed

end

text \<open>
  \<open>Errorf f as w\<close> is \<open>fmt.Errorf(f, as...)\<close> with \<open>w\<close> the error wrapped by \<open>%w\<close>, if any, and \<open>as\<close> what the other verbs
  print, an error printed by \<open>%v\<close> included; the format
  string is kept as it stands in the source.  \<open>Foreign\<close> is an error made outside this program
  (a driver, a user's \<open>Value\<close> method).
\<close>

datatype go_error =
    Sentinel sentinel
  | Foreign string
  | Errorf string "fmt_arg list" "go_error option"
and fmt_arg = FStr string | FInt int | FErr go_error

primrec errors_is :: "go_error \<Rightarrow> sentinel \<Rightarrow> bool" where
  "errors_is (Sentinel t) s = (t = s)"
| "errors_is (Foreign _) s = False"
| "errors_is (Errorf _ _ w) s = (case map_option (\<lambda>e. errors_is e s) w of None \<Rightarrow> False | Some b \<Rightarrow> b)"

datatype 'a result = Ok 'a | Err 'a go_error | Panic

text \<open>What a caller sees that looks at the value only without an error, and at an error through \<open>errors.Is\<close>.\<close>

datatype 'a result_view = Gives 'a | Fails "sentinel \<Rightarrow> bool" | Panics

fun result_class :: "'a result \<Rightarrow> 'a result_view" where
  "result_class (Ok x) = Gives x"
| "result_class (Err x e) = Fails (errors_is e)"
| "result_class Panic = Panics"

fun map_view :: "('a \<Rightarrow> 'b) \<Rightarrow> 'a result_view \<Rightarrow> 'b result_view" where
  "map_view f (Gives x) = Gives (f x)"
| "map_view f (Fails c) = Fails c"
| "map_view f Panics = Panics"

lemma errors_is_wrap [simp]: "errors_is (Errorf f as (Some e)) = errors_is e"
  by (simp add: fun_eq_iff)

fun_cases result_class_elims: "result_class r = Gives x" "result_class r = Fails c" "result_class r = Panics"

lemma result_class_Gives: "result_class r = Gives x \<longleftrightarrow> r = Ok x"
  by (cases r) auto

lemma map_view_Gives [simp]: "map_view f v = Gives y \<longleftrightarrow> (\<exists>x. v = Gives x \<and> y = f x)"
  by (cases v) auto

subsection \<open>Byte strings\<close>

text \<open>\<open>strings.IndexByte\<close>; \<^const>\<open>None\<close> is Go's \<open>-1\<close>.\<close>

fun index_byte :: "string \<Rightarrow> char \<Rightarrow> nat option" where
  "index_byte [] c = None"
| "index_byte (x # xs) c = (if x = c then Some 0 else map_option Suc (index_byte xs c))"

text \<open>\<open>strings.LastIndexByte\<close>.\<close>

fun last_index_byte :: "string \<Rightarrow> char \<Rightarrow> nat option" where
  "last_index_byte [] c = None"
| "last_index_byte (x # xs) c =
     (case last_index_byte xs c of
        Some i \<Rightarrow> Some (Suc i)
      | None \<Rightarrow> if x = c then Some 0 else None)"

text \<open>\<open>strings.Split\<close> with a one-byte separator.\<close>

fun split_on :: "char \<Rightarrow> string \<Rightarrow> string list" where
  "split_on c [] = [[]]"
| "split_on c (x # xs) =
     (if x = c then [] # split_on c xs
      else case split_on c xs of [] \<Rightarrow> [[x]] | p # ps \<Rightarrow> (x # p) # ps)"

text \<open>\<open>strings.Join\<close>.\<close>

fun join :: "string \<Rightarrow> string list \<Rightarrow> string" where
  "join sep [] = []"
| "join sep [p] = p"
| "join sep (p # ps) = p @ sep @ join sep ps"

text \<open>\<open>strconv.Itoa\<close> of a non-negative number.\<close>

definition digit :: "nat \<Rightarrow> char" where
  "digit d = char_of (48 + d)"

fun itoa :: "nat \<Rightarrow> string" where
  "itoa n = (if n < 10 then [digit n] else itoa (n div 10) @ [digit (n mod 10)])"

declare itoa.simps [simp del]

lemma index_byte_None_iff: "index_byte s c = None \<longleftrightarrow> c \<notin> set s"
  by (induction s) auto

lemma index_byte_notin [simp]: "c \<notin> set s \<Longrightarrow> index_byte s c = None"
  by (simp add: index_byte_None_iff)

lemma index_byte_Some:
  "index_byte s c = Some i \<Longrightarrow> i < length s \<and> s = take i s @ c # drop (Suc i) s \<and> c \<notin> set (take i s)"
  by (induction s arbitrary: i) (auto split: if_splits)

lemma index_byte_SomeD:
  assumes "index_byte s c = Some i"
  shows "i < length s" and "s = take i s @ c # drop (Suc i) s" and "c \<notin> set (take i s)"
  using index_byte_Some [OF assms] by auto

lemma index_byte_nth: "index_byte s c = Some i \<Longrightarrow> s ! i = c"
  by (induction s arbitrary: i) (auto split: if_splits)

lemma index_byte_append:
  "index_byte (xs @ ys) c =
     (case index_byte xs c of Some i \<Rightarrow> Some i | None \<Rightarrow> map_option ((+) (length xs)) (index_byte ys c))"
proof (induction xs)
  case (Cons x xs)
  then show ?case
    by (cases "index_byte xs c"; cases "index_byte ys c") simp_all
next
  case Nil
  show ?case by (cases "index_byte ys c") simp_all
qed

lemma index_byte_append_notin:
  "c \<notin> set xs \<Longrightarrow> index_byte (xs @ ys) c = map_option ((+) (length xs)) (index_byte ys c)"
  by (simp add: index_byte_append)

lemma last_index_byte_None_iff: "last_index_byte s c = None \<longleftrightarrow> c \<notin> set s"
  by (induction s) (auto split: option.splits)

lemma last_index_byte_notin [simp]: "c \<notin> set s \<Longrightarrow> last_index_byte s c = None"
  by (simp add: last_index_byte_None_iff)

lemma last_index_byte_Some:
  "last_index_byte s c = Some i \<Longrightarrow>
     i < length s \<and> s = take i s @ c # drop (Suc i) s \<and> c \<notin> set (drop (Suc i) s)"
proof (induction s arbitrary: i)
  case (Cons x s)
  then show ?case
    by (cases "last_index_byte s c") (auto simp: last_index_byte_None_iff split: if_splits)
qed simp

lemma last_index_byte_snoc_part:
  "c \<notin> set ys \<Longrightarrow> last_index_byte (xs @ c # ys) c = Some (length xs)"
  by (induction xs) simp_all

lemma split_on_nonempty [simp]: "split_on c s \<noteq> []"
  by (cases s) (auto split: list.splits)

lemma split_on_no_sep: "c \<notin> set s \<Longrightarrow> split_on c s = [s]"
  by (induction s) auto

lemma split_on_append_sep:
  "c \<notin> set xs \<Longrightarrow> split_on c (xs @ c # ys) = xs # split_on c ys"
  by (induction xs) auto

lemma length_split_on: "length (split_on c s) = Suc (count_list s c)"
  by (induction s) (auto split: list.splits)

lemma split_on_parts: "p \<in> set (split_on c s) \<Longrightarrow> c \<notin> set p"
  by (induction s arbitrary: p) (auto split: list.splits if_splits)

lemma join_split_on: "join [c] (split_on c s) = s"
proof (induction s)
  case (Cons x s)
  obtain p ps where ps: "split_on c s = p # ps"
    by (cases "split_on c s") auto
  with Cons.IH show ?case
    by (cases ps) auto
qed simp

subsection \<open>Decimal numbers\<close>

lemma itoa_small: "n < 10 \<Longrightarrow> itoa n = [digit n]"
  by (simp add: itoa.simps)

lemma itoa_nonempty [simp]: "itoa n \<noteq> []"
  by (subst itoa.simps) simp

lemma of_char_digit: "d < 10 \<Longrightarrow> of_char (digit d) = (48 + d :: nat)"
  by (simp add: digit_def)

lemma digit_inj: "d < 10 \<Longrightarrow> e < 10 \<Longrightarrow> digit d = digit e \<longleftrightarrow> d = e"
  by (metis of_char_digit add_left_cancel)

lemma set_itoa: "x \<in> set (itoa n) \<Longrightarrow> \<exists>d < 10. x = digit d"
proof (induction n rule: itoa.induct)
  case (1 n)
  show ?case
  proof (cases "n < 10")
    case True
    with "1.prems" show ?thesis by (auto simp: itoa_small)
  next
    case False
    with "1.prems" have "x \<in> set (itoa (n div 10)) \<or> x = digit (n mod 10)"
      by (subst (asm) itoa.simps) auto
    moreover have "n mod 10 < 10" by simp
    ultimately show ?thesis using "1.IH" False by blast
  qed
qed

lemma itoa_byte_range: "x \<in> set (itoa n) \<Longrightarrow> 48 \<le> (of_char x :: nat) \<and> (of_char x :: nat) < 58"
  using set_itoa [of x n] by (auto simp: of_char_digit)

lemma itoa_no_qmark [simp]: "CHR ''?'' \<notin> set (itoa n)"
  using itoa_byte_range [of "CHR ''?''" n] by auto

lemma itoa_no_colon [simp]: "CHR '':'' \<notin> set (itoa n)"
  using itoa_byte_range [of "CHR '':''" n] by auto

fun atoi :: "string \<Rightarrow> nat" where
  "atoi s = foldl (\<lambda>n c. 10 * n + (of_char c - 48)) 0 s"

lemma atoi_itoa: "atoi (itoa n) = n"
proof (induction n rule: itoa.induct)
  case (1 n)
  show ?case
  proof (cases "n < 10")
    case True
    then show ?thesis by (simp add: itoa_small of_char_digit)
  next
    case False
    then have "atoi (itoa n) = 10 * atoi (itoa (n div 10)) + n mod 10"
      by (subst itoa.simps) (simp add: of_char_digit)
    with "1.IH" False show ?thesis by simp
  qed
qed

lemma itoa_inj: "itoa m = itoa n \<longleftrightarrow> m = n"
  by (metis atoi_itoa)

subsection \<open>Lists\<close>

lemma count_list_notin: "c \<notin> set xs \<Longrightarrow> count_list xs c = 0"
  by (simp add: count_list_0_iff)

lemma count_list_concat_replicate:
  "count_list (concat (replicate n xs)) c = n * count_list xs c"
  by (induction n) simp_all

lemma count_list_join:
  "c \<notin> set sep \<Longrightarrow> count_list (join sep ps) c = sum_list (map (\<lambda>p. count_list p c) ps)"
  by (induction sep ps rule: join.induct) (auto simp: count_list_notin)

lemma take_Suc_conv_nth: "i < length xs \<Longrightarrow> take (Suc i) xs = take i xs @ [xs ! i]"
  by (rule take_Suc_conv_app_nth)

subsection \<open>\<open>sync.Map\<close>\<close>

text \<open>
  Every cache of the program is a \<open>sync.Map\<close>: \<open>Load\<close> and \<open>Store\<close> are atomic, so a run is a
  sequence of them on one map.
\<close>

type_synonym ('k, 'v) sync_map = "'k \<Rightarrow> 'v option"

definition sync_load :: "('k, 'v) sync_map \<Rightarrow> 'k \<Rightarrow> 'v option" where
  "sync_load m k = m k"

definition sync_store :: "('k, 'v) sync_map \<Rightarrow> 'k \<Rightarrow> 'v \<Rightarrow> ('k, 'v) sync_map" where
  "sync_store m k v = m(k \<mapsto> v)"

definition sync_empty :: "('k, 'v) sync_map" where
  "sync_empty = Map.empty"

text \<open>
  The contract a memoising client relies on. \<open>agrees c f\<close> says that whatever the cache answers
  is what \<open>f\<close> computes; a client that only stores \<open>f\<close>'s results keeps it, and then a hit and
  a miss give the same answer.
\<close>

locale memo_cache =
  fixes load :: "'c \<Rightarrow> 'k \<Rightarrow> 'v option"
    and store :: "'c \<Rightarrow> 'k \<Rightarrow> 'v \<Rightarrow> 'c"
    and empty :: 'c
  assumes load_store: "load (store c k v) k' = (if k' = k then Some v else load c k')"
    and load_empty: "load empty k = None"
begin

definition agrees :: "'c \<Rightarrow> ('k \<Rightarrow> 'v \<Rightarrow> bool) \<Rightarrow> bool" where
  "agrees c ok \<longleftrightarrow> (\<forall>k v. load c k = Some v \<longrightarrow> ok k v)"

lemma agrees_empty: "agrees empty ok"
  by (simp add: agrees_def load_empty)

lemma agrees_store: "agrees c ok \<Longrightarrow> ok k v \<Longrightarrow> agrees (store c k v) ok"
  by (simp add: agrees_def load_store)

lemma agrees_mono: "agrees c ok \<Longrightarrow> (\<And>k v. ok k v \<Longrightarrow> ok' k v) \<Longrightarrow> agrees c ok'"
  by (auto simp: agrees_def)

lemma agrees_hit: "agrees c ok \<Longrightarrow> load c k = Some v \<Longrightarrow> ok k v"
  by (simp add: agrees_def)

lemma load_store_same: "load (store c k v) k = Some v"
  by (simp add: load_store)

end

interpretation sync_memo: memo_cache sync_load sync_store sync_empty
  by unfold_locales (simp_all add: sync_load_def sync_store_def sync_empty_def)

end
