(* ===== verification/Go_Types.thy ===== *)
theory Go_Types
  imports Sqlx_Prelude
begin

text \<open>
  What the program uses of Go's \<open>reflect\<close>: types with their kind and element, struct types with
  the fields, offsets and tags the compiler gives them, values, and \<open>any\<close>.  A struct type is a
  name looked up in a type environment, so struct types may refer to themselves through
  pointers; every other type is spelled out, a defined type (\<open>type Status string\<close>) being
  \<open>TNamed\<close> over its underlying type, which is never a struct.
\<close>

subsection \<open>Types\<close>

datatype basic =
    BBool | BInt | BInt8 | BInt16 | BInt32 | BInt64
  | BUint | BUint8 | BUint16 | BUint32 | BUint64 | BUintptr
  | BFloat32 | BFloat64 | BComplex64 | BComplex128 | BString

datatype gtype =
    TBasic basic
  | TPtr gtype
  | TSlice gtype
  | TArray nat gtype
  | TMap gtype gtype
  | TStruct string
  | TIface string
  | TNamed string gtype
  | TOther string

datatype kind = KBasic basic | KPtr | KSlice | KArray | KMap | KStruct | KIface | KOther

fun kind_of :: "gtype \<Rightarrow> kind" where
  "kind_of (TBasic b) = KBasic b"
| "kind_of (TPtr _) = KPtr"
| "kind_of (TSlice _) = KSlice"
| "kind_of (TArray _ _) = KArray"
| "kind_of (TMap _ _) = KMap"
| "kind_of (TStruct _) = KStruct"
| "kind_of (TIface _) = KIface"
| "kind_of (TNamed _ u) = kind_of u"
| "kind_of (TOther _) = KOther"

text \<open>\<open>Type.Elem\<close> for the kind asked for, \<^const>\<open>None\<close> for any other kind.\<close>

fun ptr_elem :: "gtype \<Rightarrow> gtype option" where
  "ptr_elem (TPtr t) = Some t"
| "ptr_elem (TNamed _ u) = ptr_elem u"
| "ptr_elem _ = None"

fun slice_elem :: "gtype \<Rightarrow> gtype option" where
  "slice_elem (TSlice t) = Some t"
| "slice_elem (TNamed _ u) = slice_elem u"
| "slice_elem _ = None"

fun map_key :: "gtype \<Rightarrow> gtype option" where
  "map_key (TMap k v) = Some k"
| "map_key (TNamed _ u) = map_key u"
| "map_key _ = None"

fun map_value :: "gtype \<Rightarrow> gtype option" where
  "map_value (TMap k v) = Some v"
| "map_value (TNamed _ u) = map_value u"
| "map_value _ = None"

lemma ptr_elem_kind: "(\<exists>e. ptr_elem t = Some e) \<longleftrightarrow> kind_of t = KPtr"
  by (induction t) auto

text \<open>\<open>reflectx.Deref\<close>: one level.\<close>

definition Deref :: "gtype \<Rightarrow> gtype" where
  "Deref t = (case ptr_elem t of None \<Rightarrow> t | Some e \<Rightarrow> e)"

abbreviation any_type :: gtype where "any_type \<equiv> TIface ''interface {}''"

abbreviation byte_slice :: gtype where "byte_slice \<equiv> TSlice (TBasic BUint8)"

abbreviation string_map :: gtype where "string_map \<equiv> TMap (TBasic BString) any_type"

text \<open>The underlying type, and the type below all pointers.\<close>

fun underlying :: "gtype \<Rightarrow> gtype" where
  "underlying (TNamed _ u) = underlying u"
| "underlying t = t"

lemma ptr_elem_size: "ptr_elem t = Some e \<Longrightarrow> size e < size t"
  by (induction t) auto

function deref_all :: "gtype \<Rightarrow> gtype" where
  "deref_all t = (case ptr_elem t of None \<Rightarrow> t | Some e \<Rightarrow> deref_all e)"
  by pat_completeness auto
termination by (relation "measure size") (simp_all add: ptr_elem_size)

declare deref_all.simps [simp del]

subsection \<open>Struct types\<close>

text \<open>\<open>reflect.StructField\<close>; the tag as the key-value pairs \<open>StructTag.Get\<close> finds in it.\<close>

record gfield =
  fname :: string
  ftype :: gtype
  foffset :: nat
  ftag :: "(string \<times> string) list"
  fexported :: bool
  fanonymous :: bool

record struct_def =
  sname :: string
  sfields :: "gfield list"
  ssize :: nat

text \<open>
  The program's types: its struct types, which types implement \<open>Scan(any) error\<close>, and
  \<open>unicode.IsLetter(r) || unicode.IsDigit(r)\<close> for the code points beyond ASCII.
\<close>

record tenv =
  structs :: "(string \<times> struct_def) list"
  implements_scanner :: "gtype \<Rightarrow> bool"
  unicode_letter_digit :: "nat \<Rightarrow> bool"

definition struct_of :: "tenv \<Rightarrow> string \<Rightarrow> struct_def option" where
  "struct_of E t = map_of (structs E) t"

definition tag_get :: "gfield \<Rightarrow> string \<Rightarrow> string" where
  "tag_get f key = (case map_of (ftag f) key of None \<Rightarrow> [] | Some v \<Rightarrow> v)"

definition type_name :: "tenv \<Rightarrow> gtype \<Rightarrow> string" where
  "type_name E t =
     (case t of
        TStruct s \<Rightarrow> (case struct_of E s of None \<Rightarrow> [] | Some d \<Rightarrow> sname d)
      | TNamed n u \<Rightarrow> n
      | _ \<Rightarrow> [])"

text \<open>\<open>Type.String\<close>, also what \<open>%T\<close> prints; a struct's name in the environment is its qualified name.\<close>

fun basic_name :: "basic \<Rightarrow> string" where
  "basic_name BBool = ''bool''"
| "basic_name BInt = ''int''"
| "basic_name BInt8 = ''int8''"
| "basic_name BInt16 = ''int16''"
| "basic_name BInt32 = ''int32''"
| "basic_name BInt64 = ''int64''"
| "basic_name BUint = ''uint''"
| "basic_name BUint8 = ''uint8''"
| "basic_name BUint16 = ''uint16''"
| "basic_name BUint32 = ''uint32''"
| "basic_name BUint64 = ''uint64''"
| "basic_name BUintptr = ''uintptr''"
| "basic_name BFloat32 = ''float32''"
| "basic_name BFloat64 = ''float64''"
| "basic_name BComplex64 = ''complex64''"
| "basic_name BComplex128 = ''complex128''"
| "basic_name BString = ''string''"

fun type_string :: "gtype \<Rightarrow> string" where
  "type_string (TBasic b) = basic_name b"
| "type_string (TPtr t) = ''*'' @ type_string t"
| "type_string (TSlice t) = ''[]'' @ type_string t"
| "type_string (TArray n t) = ''['' @ itoa n @ '']'' @ type_string t"
| "type_string (TMap k v) = ''map['' @ type_string k @ '']'' @ type_string v"
| "type_string (TStruct s) = s"
| "type_string (TIface n) = n"
| "type_string (TNamed n u) = n"
| "type_string (TOther n) = n"

text \<open>\<open>Type.Size\<close> on a 64-bit machine.\<close>

fun basic_size :: "basic \<Rightarrow> nat" where
  "basic_size BBool = 1"
| "basic_size BInt8 = 1"
| "basic_size BUint8 = 1"
| "basic_size BInt16 = 2"
| "basic_size BUint16 = 2"
| "basic_size BInt32 = 4"
| "basic_size BUint32 = 4"
| "basic_size BFloat32 = 4"
| "basic_size BComplex128 = 16"
| "basic_size BString = 16"
| "basic_size _ = 8"

fun size_of :: "tenv \<Rightarrow> gtype \<Rightarrow> nat" where
  "size_of E (TBasic b) = basic_size b"
| "size_of E (TPtr _) = 8"
| "size_of E (TSlice _) = 24"
| "size_of E (TArray n t) = n * size_of E t"
| "size_of E (TMap _ _) = 8"
| "size_of E (TStruct s) = (case struct_of E s of None \<Rightarrow> 0 | Some d \<Rightarrow> ssize d)"
| "size_of E (TIface _) = 16"
| "size_of E (TNamed _ u) = size_of E u"
| "size_of E (TOther _) = 8"

text \<open>
  What the compiler promises of a layout: a field lies inside its struct, and the fields of one
  struct do not overlap.
\<close>

definition layout_ok :: "tenv \<Rightarrow> bool" where
  "layout_ok E \<longleftrightarrow>
     list_all (\<lambda>(s, d).
       list_all (\<lambda>f. foffset f + size_of E (ftype f) \<le> ssize d) (sfields d) \<and>
       sorted_wrt (\<lambda>f g. foffset f + size_of E (ftype f) \<le> foffset g) (sfields d)) (structs E)"

lemma layout_ok_field:
  assumes "layout_ok E" and "struct_of E s = Some d" and "i < length (sfields d)"
  shows "foffset (sfields d ! i) + size_of E (ftype (sfields d ! i)) \<le> ssize d"
proof -
  from assms(2) have "(s, d) \<in> set (structs E)"
    by (auto simp: struct_of_def dest: map_of_SomeD)
  with assms(1,3) show ?thesis
    by (force simp: layout_ok_def list_all_iff)
qed

subsection \<open>Values\<close>

text \<open>
  A value of static or dynamic type: \<open>VBasic\<close> carries a scalar as it prints, \<open>VPtr e v\<close> a pointer
  to \<open>e\<close> (nil when \<^const>\<open>None\<close>), \<open>VSeq t vs\<close> a slice or array of type \<open>t\<close>, \<open>VMap\<close> a map with string keys,
  \<open>VOther\<close> a value of any other kind.  \<open>VNil\<close> is the nil interface, which has no type.
\<close>

datatype gval =
    VNil
  | VBasic gtype string
  | VPtr gtype "gval option"
  | VStruct string "gval list"
  | VSeq gtype "gval list"
  | VMap gtype "(string \<times> gval) list"
  | VOther gtype string

text \<open>\<open>reflect.TypeOf\<close>; \<^const>\<open>None\<close> for the nil interface.\<close>

fun type_of :: "gval \<Rightarrow> gtype option" where
  "type_of VNil = None"
| "type_of (VBasic t _) = Some t"
| "type_of (VPtr e _) = Some (TPtr e)"
| "type_of (VStruct s _) = Some (TStruct s)"
| "type_of (VSeq t _) = Some t"
| "type_of (VMap t _) = Some t"
| "type_of (VOther t _) = Some t"

text \<open>What \<open>%T\<close> prints for an \<open>any\<close>.\<close>

definition fmt_T :: "gval \<Rightarrow> fmt_arg" where
  "fmt_T v = FStr (case type_of v of None \<Rightarrow> ''<nil>'' | Some t \<Rightarrow> type_string t)"

end
