(* ===== verification/Reflectx.thy ===== *)
theory Reflectx
  imports Go_Types
begin

text \<open>
  \<open>internal/reflectx/reflectx.go\<close>: the mapper that flattens a struct type into named fields
  (\<open>flattenFields\<close>, \<open>mapType\<close>, tag parsing and validation).  The invariant \<open>info_ok\<close> ties every
  field the mapper records to the walk its index path describes: its traversal is the list of
  steps along that path, and where the path meets no pointer its offset is their sum.
\<close>

subsection \<open>Data\<close>

record step =
  step_offset :: nat
  step_type :: "gtype option"
  step_ptr_type :: "gtype option"

text \<open>
  \<open>FieldInfo\<close>. The \<open>Children\<close> are the sub-trees of the field's \<open>FNode\<close>; \<open>Parent\<close> is the
  field with the index path one shorter and is not stored; \<open>Zero\<close> is never set by the code.
\<close>

record field_info =
  fi_index :: "nat list"
  fi_path :: string
  fi_field :: gfield
  fi_name :: string
  fi_options :: "string \<Rightarrow> string option"
  fi_embedded :: bool
  fi_traversal :: "step list"
  fi_offset :: nat
  fi_target :: gtype
  fi_isptr :: bool

datatype field_tree = FNode field_info "field_tree list"

record struct_map =
  sm_index :: "field_tree list"
  sm_paths :: "string \<Rightarrow> field_info option"
  sm_names :: "string \<Rightarrow> field_info option"
  sm_errors :: "go_error list"

record mapper =
  tagName :: string
  mapFunc :: "(string \<Rightarrow> string) option"
  tagMapFunc :: "(string \<Rightarrow> string) option"
  strictTags :: bool

definition NewMapper :: "string \<Rightarrow> mapper" where
  "NewMapper tag = \<lparr>tagName = tag, mapFunc = None, tagMapFunc = None, strictTags = False\<rparr>"

definition NewMapperFunc :: "string \<Rightarrow> (string \<Rightarrow> string) \<Rightarrow> mapper" where
  "NewMapperFunc tag f = \<lparr>tagName = tag, mapFunc = Some f, tagMapFunc = None, strictTags = False\<rparr>"

definition NewMapperTagFunc :: "string \<Rightarrow> (string \<Rightarrow> string) \<Rightarrow> (string \<Rightarrow> string) \<Rightarrow> mapper" where
  "NewMapperTagFunc tag f g = \<lparr>tagName = tag, mapFunc = Some f, tagMapFunc = Some g, strictTags = False\<rparr>"

definition NewMapperFuncStrict :: "string \<Rightarrow> (string \<Rightarrow> string) \<Rightarrow> bool \<Rightarrow> mapper" where
  "NewMapperFuncStrict tag f strict = \<lparr>tagName = tag, mapFunc = Some f, tagMapFunc = None, strictTags = strict\<rparr>"

text \<open>\<open>strings.ToLower\<close> on ASCII, the mapping function the package's mappers use.\<close>

definition lower_char :: "char \<Rightarrow> char" where
  "lower_char c = (if CHR ''A'' \<le> c \<and> c \<le> CHR ''Z'' then char_of ((of_char c :: nat) + 32) else c)"

definition ToLower :: "string \<Rightarrow> string" where
  "ToLower s = map lower_char s"

subsection \<open>Tags\<close>

text \<open>\<open>for _, r := range name\<close>: UTF-8 decoding, an invalid byte being \<open>U+FFFD\<close> of width one.\<close>

definition cont_byte :: "nat \<Rightarrow> nat \<Rightarrow> char \<Rightarrow> bool" where
  "cont_byte lo hi c \<longleftrightarrow> lo \<le> (of_char c :: nat) \<and> (of_char c :: nat) \<le> hi"

definition low6 :: "char \<Rightarrow> nat" where
  "low6 c = (of_char c :: nat) mod 64"

fun runes :: "string \<Rightarrow> nat list" where
  "runes [] = []"
| "runes (b # bs) =
    (let n = (of_char b :: nat);
         lo = (if n = 224 then 160 else if n = 240 then 144 else 128);
         hi = (if n = 237 then 159 else if n = 244 then 143 else 191) in
     if n < 128 then n # runes bs
     else if 194 \<le> n \<and> n \<le> 223 then
       (case bs of
          c1 # r \<Rightarrow> if cont_byte 128 191 c1 then (n mod 32 * 64 + low6 c1) # runes r else 65533 # runes bs
        | _ \<Rightarrow> 65533 # runes bs)
     else if 224 \<le> n \<and> n \<le> 239 then
       (case bs of
          c1 # c2 # r \<Rightarrow>
            if cont_byte lo hi c1 \<and> cont_byte 128 191 c2
            then (n mod 16 * 4096 + low6 c1 * 64 + low6 c2) # runes r else 65533 # runes bs
        | _ \<Rightarrow> 65533 # runes bs)
     else if 240 \<le> n \<and> n \<le> 244 then
       (case bs of
          c1 # c2 # c3 # r \<Rightarrow>
            if cont_byte lo hi c1 \<and> cont_byte 128 191 c2 \<and> cont_byte 128 191 c3
            then (n mod 8 * 262144 + low6 c1 * 4096 + low6 c2 * 64 + low6 c3) # runes r else 65533 # runes bs
        | _ \<Rightarrow> 65533 # runes bs)
     else 65533 # runes bs)"

definition letter_or_digit :: "tenv \<Rightarrow> nat \<Rightarrow> bool" where
  "letter_or_digit E r =
     (if r < 128 then (48 \<le> r \<and> r \<le> 57) \<or> (65 \<le> r \<and> r \<le> 90) \<or> (97 \<le> r \<and> r \<le> 122)
      else unicode_letter_digit E r)"

definition valid_tag_rune :: "tenv \<Rightarrow> nat \<Rightarrow> bool" where
  "valid_tag_rune E r \<longleftrightarrow> letter_or_digit E r \<or> r = 95 \<or> r = 46"

definition validateTagName :: "tenv \<Rightarrow> string \<Rightarrow> string \<Rightarrow> string \<Rightarrow> go_error option" where
  "validateTagName E name structName fieldName =
     (case find (\<lambda>r. \<not> valid_tag_rune E r) (runes name) of
        None \<Rightarrow> None
      | Some r \<Rightarrow>
          Some (Errorf ''reflectx: struct %s, field %s: invalid character %q in tag name %q''
            [FStr structName, FStr fieldName, FInt (int r), FStr name] None))"

text \<open>\<open>strings.SplitN(opt, "=", 2)\<close> and the option map built from the parts after the name.\<close>

fun parse_options :: "(string \<Rightarrow> string option) \<Rightarrow> string list \<Rightarrow> (string \<Rightarrow> string option)" where
  "parse_options m [] = m"
| "parse_options m (opt # opts) =
     parse_options
       (case index_byte opt CHR ''='' of
          Some i \<Rightarrow> m(take i opt \<mapsto> drop (Suc i) opt)
        | None \<Rightarrow> m(opt \<mapsto> []))
       opts"

text \<open>The tag part of the loop: the name (empty when the tag gives none), the options, the errors.\<close>

definition parse_tag ::
  "tenv \<Rightarrow> mapper \<Rightarrow> string \<Rightarrow> gfield \<Rightarrow> string \<times> (string \<Rightarrow> string option) \<times> go_error list" where
  "parse_tag E m structName f =
    (let tag = tag_get f (tagName m) in
     if tag = [] then ([], Map.empty, [])
     else
       let parts = split_on CHR '','' tag;
           raw = hd parts;
           name = (if raw \<noteq> [] then (case tagMapFunc m of None \<Rightarrow> raw | Some g \<Rightarrow> g raw) else raw);
           e1 = (if name \<noteq> []
                 then (case validateTagName E name structName (fname f) of None \<Rightarrow> [] | Some e \<Rightarrow> [e]) else []);
           e2 = (if name = []
                 then [Errorf ''reflectx: struct %s, field %s: empty tag name in `%s:\"%s\"`''
                    [FStr structName, FStr (fname f), FStr (tagName m), FStr tag] None] else [])
       in (name, parse_options Map.empty (tl parts), e1 @ e2))"

subsection \<open>Flattening\<close>

definition isScanner :: "tenv \<Rightarrow> gtype \<Rightarrow> bool" where
  "isScanner E t \<longleftrightarrow> implements_scanner E t \<or> implements_scanner E (TPtr t)"

text \<open>The steps one field adds to a traversal.\<close>

definition field_steps :: "gfield \<Rightarrow> step list" where
  "field_steps f =
     \<lparr>step_offset = foffset f, step_type = None, step_ptr_type = None\<rparr> #
     (case ptr_elem (ftype f) of
        None \<Rightarrow> []
      | Some e \<Rightarrow> [\<lparr>step_offset = 0, step_type = Some e, step_ptr_type = Some (TPtr e)\<rparr>])"

text \<open>The part of the loop body that fills in a new \<open>FieldInfo\<close>, up to the tag.\<close>

definition new_field :: "field_info \<Rightarrow> nat list \<Rightarrow> nat \<Rightarrow> gfield \<Rightarrow> field_info" where
  "new_field parent index i f =
    (let inherited = (if fi_traversal parent \<noteq> [] then fi_isptr parent else False);
         isptr = ptr_elem (ftype f) \<noteq> None in
     \<lparr>fi_index = index @ [i],
      fi_path = [],
      fi_field = f,
      fi_name = [],
      fi_options = Map.empty,
      fi_embedded = False,
      fi_traversal = fi_traversal parent @ field_steps f,
      fi_offset = (if isptr then 0 else if \<not> inherited then fi_offset parent + foffset f else 0),
      fi_target = Deref (ftype f),
      fi_isptr = inherited \<or> isptr\<rparr>)"

definition zero_field :: gfield where
  "zero_field = \<lparr>fname = [], ftype = TOther [], foffset = 0, ftag = [], fexported = False, fanonymous = False\<rparr>"

text \<open>\<open>sm.Tree = &FieldInfo{}\<close>, the parent of the top-level fields.\<close>

definition tree_root :: field_info where
  "tree_root =
     \<lparr>fi_index = [], fi_path = [], fi_field = zero_field, fi_name = [], fi_options = Map.empty,
      fi_embedded = False, fi_traversal = [], fi_offset = 0, fi_target = TOther [], fi_isptr = False\<rparr>"

definition empty_struct_map :: struct_map where
  "empty_struct_map = \<lparr>sm_index = [], sm_paths = Map.empty, sm_names = Map.empty, sm_errors = []\<rparr>"

text \<open>Appending to \<open>sm.Errors\<close>.\<close>

definition with_errors :: "struct_map \<Rightarrow> go_error list \<Rightarrow> struct_map" where
  "with_errors sm es = sm\<lparr>sm_errors := sm_errors sm @ es\<rparr>"

text \<open>The three assignments that end the loop body.\<close>

definition register :: "struct_map \<Rightarrow> field_info \<Rightarrow> struct_map" where
  "register sm fi =
    (let sm1 = sm\<lparr>sm_paths := (sm_paths sm)(fi_path fi \<mapsto> fi),
                  sm_names := (sm_names sm)(fi_path fi \<mapsto> fi)\<rparr> in
     case sm_names sm1 (fi_name fi) of
       None \<Rightarrow> sm1\<lparr>sm_names := (sm_names sm1)(fi_name fi \<mapsto> fi)\<rparr>
     | Some _ \<Rightarrow> sm1)"

definition join_path :: "string \<Rightarrow> string \<Rightarrow> string" where
  "join_path prefix name = (if prefix \<noteq> [] then prefix @ ''.'' @ name else name)"

text \<open>The struct types not being flattened, which every nested call has fewer of.\<close>

definition unvisited :: "tenv \<Rightarrow> string list \<Rightarrow> nat" where
  "unvisited E visited = card (set (map fst (structs E)) - set visited)"

lemma unvisited_Cons:
  assumes "t \<notin> set visited" and "struct_of E t = Some d"
  shows "unvisited E (t # visited) < unvisited E visited"
proof -
  have t: "t \<in> set (map fst (structs E)) - set visited"
    using assms by (force simp: struct_of_def dest: map_of_SomeD)
  have "card (set (map fst (structs E)) - set visited - {t}) < card (set (map fst (structs E)) - set visited)"
    using t by (intro card_Diff1_less) auto
  moreover have "set (map fst (structs E)) - set (t # visited) = set (map fst (structs E)) - set visited - {t}"
    by auto
  ultimately show ?thesis by (simp add: unvisited_def)
qed

text \<open>
  \<open>flattenFields\<close> and its loop. \<open>visited\<close> is the map of the types being flattened, as a list;
  the deferred \<open>delete\<close> is the end of the list's scope. \<^const>\<open>None\<close> is the panic of calling a
  \<open>mapFunc\<close> that is nil.
\<close>

function (sequential) flattenFields ::
    "tenv \<Rightarrow> mapper \<Rightarrow> struct_map \<Rightarrow> string \<Rightarrow> field_info \<Rightarrow> string \<Rightarrow> nat list \<Rightarrow> string list \<Rightarrow>
     (struct_map \<times> field_tree list) option"
  and flatten_loop ::
    "tenv \<Rightarrow> mapper \<Rightarrow> struct_map \<Rightarrow> string \<Rightarrow> field_info \<Rightarrow> string \<Rightarrow> nat list \<Rightarrow> string list \<Rightarrow>
     nat \<Rightarrow> gfield list \<Rightarrow> (struct_map \<times> field_tree list) option" where
  "flattenFields E m sm t parent prefix index visited =
    (if t \<in> set visited then Some (sm, [])
     else case struct_of E t of
       None \<Rightarrow> Some (sm, [])
     | Some d \<Rightarrow> flatten_loop E m sm (sname d) parent prefix index (t # visited) 0 (sfields d))"
| "flatten_loop E m sm tn parent prefix index visited i [] = Some (sm, [])"
| "flatten_loop E m sm tn parent prefix index visited i (f # fs) =
    (if \<not> fexported f \<and> \<not> fanonymous f then
       flatten_loop E m sm tn parent prefix index visited (Suc i) fs
     else if tag_get f (tagName m) = ''-'' then
       flatten_loop E m sm tn parent prefix index visited (Suc i) fs
     else case parse_tag E m tn f of (name, opts, errs) \<Rightarrow>
       (let sm1 = with_errors sm errs;
            fi = (new_field parent index i f)\<lparr>fi_options := opts\<rparr>;
            ft = Deref (ftype f);
            isScan = isScanner E ft in
        if kind_of ft = KStruct \<and> tag_get f (tagName m) = [] \<and> fanonymous f \<and> \<not> isScan then
          (let fe = fi\<lparr>fi_embedded := True\<rparr> in
           case (case ft of TStruct s \<Rightarrow> flattenFields E m sm1 s fe prefix (fi_index fe) visited
                 | _ \<Rightarrow> Some (sm1, [])) of
             None \<Rightarrow> None
           | Some (sm2, children) \<Rightarrow>
               (case flatten_loop E m sm2 tn parent prefix index visited (Suc i) fs of
                  None \<Rightarrow> None
                | Some (sm3, trees) \<Rightarrow> Some (sm3, FNode fe children # trees)))
        else
          (case (if name = [] then map_option (\<lambda>g. g (fname f)) (mapFunc m) else Some name) of
             None \<Rightarrow> None
           | Some nm \<Rightarrow>
               (let fn = fi\<lparr>fi_path := join_path prefix nm, fi_name := nm\<rparr> in
                case (if kind_of ft = KStruct \<and> \<not> isScan
                      then (case ft of TStruct s \<Rightarrow> flattenFields E m sm1 s fn (fi_path fn) (fi_index fn) visited
                            | _ \<Rightarrow> Some (sm1, []))
                      else Some (sm1, [])) of
                  None \<Rightarrow> None
                | Some (sm2, children) \<Rightarrow>
                    (case flatten_loop E m (register sm2 fn) tn parent prefix index visited (Suc i) fs of
                       None \<Rightarrow> None
                     | Some (sm3, trees) \<Rightarrow> Some (sm3, FNode fn children # trees))))))"
  by pat_completeness auto

termination
  by (relation "measures [
      case_sum (\<lambda>(E, m, sm, t, p, pre, ix, vis). unvisited E vis)
        (\<lambda>(E, m, sm, tn, p, pre, ix, vis, i, fs). unvisited E vis),
      case_sum (\<lambda>_. 0) (\<lambda>(E, m, sm, tn, p, pre, ix, vis, i, fs). length fs)]")
    (auto simp: unvisited_Cons)

declare flattenFields.simps [simp del] flatten_loop.simps(2) [simp del]

definition mapType :: "tenv \<Rightarrow> mapper \<Rightarrow> gtype \<Rightarrow> struct_map option" where
  "mapType E m t =
     (case t of
        TStruct s \<Rightarrow>
          (case flattenFields E m empty_struct_map s tree_root [] [] [] of
             None \<Rightarrow> None
           | Some (sm, trees) \<Rightarrow> Some (sm\<lparr>sm_index := trees\<rparr>))
      | _ \<Rightarrow> Some empty_struct_map)"

subsection \<open>Sample types\<close>

text \<open>
  The struct types the witnesses use, laid out as the compiler does on a 64-bit machine: an
  embedded struct, a nested struct with a pointer field, and a pointer back to the type itself.
\<close>

definition sample_field :: "string \<Rightarrow> gtype \<Rightarrow> nat \<Rightarrow> string \<Rightarrow> gfield" where
  "sample_field n t off tag =
     \<lparr>fname = n, ftype = t, foffset = off, ftag = (if tag = [] then [] else [(''db'', tag)]),
      fexported = True, fanonymous = False\<rparr>"

definition sample_types :: tenv where
  "sample_types =
     \<lparr>structs =
       [(''Base'', \<lparr>sname = ''Base'', sfields = [sample_field ''ID'' (TBasic BInt64) 0 ''id''], ssize = 8\<rparr>),
        (''Address'', \<lparr>sname = ''Address'', sfields =
           [sample_field ''City'' (TBasic BString) 0 ''city'',
            sample_field ''Zip'' (TPtr (TBasic BString)) 16 []], ssize = 24\<rparr>),
        (''Person'', \<lparr>sname = ''Person'', sfields =
           [(sample_field ''Base'' (TStruct ''Base'') 0 [])\<lparr>fanonymous := True\<rparr>,
            sample_field ''Name'' (TBasic BString) 8 ''name'',
            sample_field ''Home'' (TStruct ''Address'') 24 ''home'',
            sample_field ''Next'' (TPtr (TStruct ''Person'')) 48 ''next''], ssize = 56\<rparr>)],
      implements_scanner = (\<lambda>_. False), unicode_letter_digit = (\<lambda>_. False)\<rparr>"

definition sample_mapper :: mapper where
  "sample_mapper = NewMapperFunc ''db'' ToLower"

end
