(* ===== verification/Reflectx_Inv.thy ===== *)
theory Reflectx_Inv
  imports Reflectx
begin

text \<open>
  What flattening does, as a relation with one rule per way through the loop body, and the
  invariants proved by rule induction over it.  \<open>walk\<close> is the reference: it follows an index
  path field by field, as \<open>reflect\<close> would, collecting the steps.
\<close>

subsection \<open>Flattening as a relation\<close>

inductive flattens ::
    "tenv \<Rightarrow> mapper \<Rightarrow> struct_map \<Rightarrow> string \<Rightarrow> field_info \<Rightarrow> string \<Rightarrow> nat list \<Rightarrow> string list \<Rightarrow>
     struct_map \<Rightarrow> field_tree list \<Rightarrow> bool"
  and flattens_loop ::
    "tenv \<Rightarrow> mapper \<Rightarrow> struct_map \<Rightarrow> string \<Rightarrow> field_info \<Rightarrow> string \<Rightarrow> nat list \<Rightarrow> string list \<Rightarrow>
     nat \<Rightarrow> gfield list \<Rightarrow> struct_map \<Rightarrow> field_tree list \<Rightarrow> bool"
  for E :: tenv and m :: mapper where
  fl_visited: "t \<in> set vis \<Longrightarrow> flattens E m sm t p pre ix vis sm []"
| fl_unknown: "struct_of E t = None \<Longrightarrow> flattens E m sm t p pre ix vis sm []"
| fl_known: "t \<notin> set vis \<Longrightarrow> struct_of E t = Some d \<Longrightarrow>
    flattens_loop E m sm t p pre ix (t # vis) 0 (sfields d) sm' ts \<Longrightarrow>
    flattens E m sm t p pre ix vis sm' ts"
| fl_nil: "flattens_loop E m sm t p pre ix vis i [] sm []"
| fl_skip: "flattens_loop E m sm t p pre ix vis (Suc i) fs sm' ts \<Longrightarrow>
    flattens_loop E m sm t p pre ix vis i (f # fs) sm' ts"
| fl_embed: "fe = (new_field p ix i f)\<lparr>fi_options := opts, fi_embedded := True\<rparr> \<Longrightarrow>
    Deref (ftype f) = TStruct s \<Longrightarrow>
    flattens E m (with_errors sm es) s fe pre (ix @ [i]) vis sm2 ch \<Longrightarrow>
    flattens_loop E m sm2 t p pre ix vis (Suc i) fs sm3 ts \<Longrightarrow>
    flattens_loop E m sm t p pre ix vis i (f # fs) sm3 (FNode fe ch # ts)"
| fl_embed_other: "fe = (new_field p ix i f)\<lparr>fi_options := opts, fi_embedded := True\<rparr> \<Longrightarrow>
    flattens_loop E m (with_errors sm es) t p pre ix vis (Suc i) fs sm3 ts \<Longrightarrow>
    flattens_loop E m sm t p pre ix vis i (f # fs) sm3 (FNode fe [] # ts)"
| fl_leaf: "fn = (new_field p ix i f)\<lparr>fi_options := opts, fi_path := join_path pre nm, fi_name := nm\<rparr> \<Longrightarrow>
    flattens_loop E m (register (with_errors sm es) fn) t p pre ix vis (Suc i) fs sm3 ts \<Longrightarrow>
    flattens_loop E m sm t p pre ix vis i (f # fs) sm3 (FNode fn [] # ts)"
| fl_struct: "fn = (new_field p ix i f)\<lparr>fi_options := opts, fi_path := join_path pre nm, fi_name := nm\<rparr> \<Longrightarrow>
    Deref (ftype f) = TStruct s \<Longrightarrow>
    flattens E m (with_errors sm es) s fn (fi_path fn) (ix @ [i]) vis sm2 ch \<Longrightarrow>
    flattens_loop E m (register sm2 fn) t p pre ix vis (Suc i) fs sm3 ts \<Longrightarrow>
    flattens_loop E m sm t p pre ix vis i (f # fs) sm3 (FNode fn ch # ts)"

lemma new_field_index [simp]: "fi_index (new_field p ix i f) = ix @ [i]"
  by (simp add: new_field_def Let_def)

lemma flatten_sound:
  "flattenFields E m sm t p pre ix vis = Some (sm', ts) \<Longrightarrow> flattens E m sm t p pre ix vis sm' ts"
  "flatten_loop E m sm tn p pre ix vis i fs = Some (sm', ts) \<Longrightarrow> flattens_loop E m sm t0 p pre ix vis i fs sm' ts"
proof (induction E m sm t p pre ix vis and E m sm tn p pre ix vis i fs arbitrary: sm' ts and t0 sm' ts
    rule: flattenFields_flatten_loop.induct)
  case (1 E m sm t p pre ix vis)
  then show ?case
    by (subst (asm) flattenFields.simps)
      (auto split: if_splits option.splits intro: fl_visited fl_unknown fl_known)
next
  case (2 E m sm tn p pre ix vis i)
  then show ?case by (auto intro: fl_nil)
next
  case (3 E m sm tn p pre ix vis i f fs)
  obtain nm opts es where tag: "parse_tag E m tn f = (nm, opts, es)"
    by (cases "parse_tag E m tn f")
  let ?ft = "Deref (ftype f)"
  let ?fe = "(new_field p ix i f)\<lparr>fi_options := opts, fi_embedded := True\<rparr>"
  let ?fn = "\<lambda>n. (new_field p ix i f)\<lparr>fi_options := opts, fi_path := join_path pre n, fi_name := n\<rparr>"
  let ?emb = "kind_of ?ft = KStruct \<and> tag_get f (tagName m) = [] \<and> fanonymous f \<and> \<not> isScanner E ?ft"
  let ?rec = "kind_of ?ft = KStruct \<and> \<not> isScanner E ?ft"
  consider (skip) "\<not> fexported f \<and> \<not> fanonymous f"
    | (dash) "\<not> (\<not> fexported f \<and> \<not> fanonymous f)" "tag_get f (tagName m) = ''-''"
    | (embed) "\<not> (\<not> fexported f \<and> \<not> fanonymous f)" "tag_get f (tagName m) \<noteq> ''-''" ?emb
    | (named) "\<not> (\<not> fexported f \<and> \<not> fanonymous f)" "tag_get f (tagName m) \<noteq> ''-''" "\<not> ?emb"
    by blast
  then show ?case
  proof cases
    case skip
    with "3.prems" "3.IH"(1) show ?thesis
      by (auto simp: flatten_loop.simps(2) intro: fl_skip)
  next
    case dash
    with "3.prems" "3.IH"(2) show ?thesis
      by (auto simp: flatten_loop.simps(2) intro: fl_skip)
  next
    case embed
    note c = embed(1,2) tag [symmetric] refl refl refl refl refl embed(3) refl
    let ?call = "case ?ft of TStruct s \<Rightarrow> flattenFields E m (with_errors sm es) s ?fe pre (fi_index ?fe) vis
                 | _ \<Rightarrow> Some (with_errors sm es, [])"
    from "3.prems" embed tag obtain sm2 ch ts' where
        call: "?call = Some (sm2, ch)" and
        rest: "flatten_loop E m sm2 tn p pre ix vis (Suc i) fs = Some (sm', ts')" and ts: "ts = FNode ?fe ch # ts'"
      by (auto simp: flatten_loop.simps(2) Let_def split: option.splits)
    have "flattens_loop E m sm2 t0 p pre ix vis (Suc i) fs sm' ts'"
      using "3.IH"(4) [OF c] call rest by simp
    moreover have "(\<exists>s. ?ft = TStruct s \<and> flattens E m (with_errors sm es) s ?fe pre (ix @ [i]) vis sm2 ch) \<or>
        (sm2 = with_errors sm es \<and> ch = [])"
      using call "3.IH"(3) [OF c] by (cases ?ft) auto
    ultimately show ?thesis
      using ts by (auto intro: fl_embed [OF refl] fl_embed_other [OF refl])
  next
    case named
    from "3.prems" named tag obtain n where
        n: "(if nm = [] then map_option (\<lambda>g. g (fname f)) (mapFunc m) else Some nm) = Some n"
      by (auto simp: flatten_loop.simps(2) Let_def split: option.splits)
    note c = named(1,2) tag [symmetric] refl refl refl refl refl named(3) n refl
    let ?call = "if ?rec then (case ?ft of
           TStruct s \<Rightarrow> flattenFields E m (with_errors sm es) s (?fn n) (fi_path (?fn n)) (fi_index (?fn n)) vis
         | _ \<Rightarrow> Some (with_errors sm es, [])) else Some (with_errors sm es, [])"
    from "3.prems" named tag n obtain sm2 ch ts' where
        call: "?call = Some (sm2, ch)" and
        rest: "flatten_loop E m (register sm2 (?fn n)) tn p pre ix vis (Suc i) fs = Some (sm', ts')" and
        ts: "ts = FNode (?fn n) ch # ts'"
      by (auto simp: flatten_loop.simps(2) Let_def split: option.splits)
    have "flattens_loop E m (register sm2 (?fn n)) t0 p pre ix vis (Suc i) fs sm' ts'"
      using "3.IH"(6) [OF c] call rest by simp
    moreover have "(\<exists>s. ?ft = TStruct s \<and>
          flattens E m (with_errors sm es) s (?fn n) (fi_path (?fn n)) (ix @ [i]) vis sm2 ch) \<or>
        (sm2 = with_errors sm es \<and> ch = [])"
      using call "3.IH"(5) [OF c] by (cases ?ft) (auto split: if_splits)
    ultimately show ?thesis
      using ts by (auto intro: fl_struct [OF refl] fl_leaf [OF refl])
  qed
qed

subsection \<open>The reference walk\<close>

fun walk :: "tenv \<Rightarrow> gtype \<Rightarrow> nat list \<Rightarrow> (step list \<times> gtype) option" where
  "walk E t [] = Some ([], t)"
| "walk E t (i # is) =
     (case t of
        TStruct s \<Rightarrow>
          (case struct_of E s of
             None \<Rightarrow> None
           | Some d \<Rightarrow>
               if i < length (sfields d) then
                 map_option (\<lambda>(ss, t'). (field_steps (sfields d ! i) @ ss, t'))
                   (walk E (Deref (ftype (sfields d ! i))) is)
               else None)
      | _ \<Rightarrow> None)"

lemma walk_snoc:
  assumes "walk E t is = Some (ss, TStruct s)" and "struct_of E s = Some d" and "i < length (sfields d)"
  shows "walk E t (is @ [i]) = Some (ss @ field_steps (sfields d ! i), Deref (ftype (sfields d ! i)))"
  using assms(1)
proof (induction "is" arbitrary: t ss)
  case Nil
  with assms(2,3) show ?case by simp
next
  case (Cons j js)
  then show ?case
    by (auto split: gtype.splits option.splits if_splits)
qed

definition has_ptr_step :: "step list \<Rightarrow> bool" where
  "has_ptr_step ss \<longleftrightarrow> (\<exists>s \<in> set ss. step_type s \<noteq> None)"

lemma has_ptr_step_simps [simp]:
  "\<not> has_ptr_step []"
  "has_ptr_step (ss @ ss') \<longleftrightarrow> has_ptr_step ss \<or> has_ptr_step ss'"
  by (auto simp: has_ptr_step_def)

lemma has_ptr_step_field [simp]: "has_ptr_step (field_steps f) \<longleftrightarrow> ptr_elem (ftype f) \<noteq> None"
  by (auto simp: has_ptr_step_def field_steps_def split: option.splits)

definition ptr_ok :: "field_info \<Rightarrow> bool" where
  "ptr_ok fi \<longleftrightarrow>
     (fi_isptr fi \<longleftrightarrow> has_ptr_step (fi_traversal fi)) \<and>
     fi_offset fi = (if fi_isptr fi then 0 else sum_list (map step_offset (fi_traversal fi)))"

definition info_ok :: "tenv \<Rightarrow> gtype \<Rightarrow> field_info \<Rightarrow> bool" where
  "info_ok E root fi \<longleftrightarrow>
     fi_index fi \<noteq> [] \<and> walk E root (fi_index fi) = Some (fi_traversal fi, fi_target fi) \<and> ptr_ok fi"

definition parent_ok :: "tenv \<Rightarrow> gtype \<Rightarrow> field_info \<Rightarrow> nat list \<Rightarrow> string \<Rightarrow> bool" where
  "parent_ok E root p ix t \<longleftrightarrow> walk E root ix = Some (fi_traversal p, TStruct t) \<and> ptr_ok p"

lemma new_field_ok:
  assumes "parent_ok E root p ix t" and "struct_of E t = Some d"
    and "i < length (sfields d)" and "f = sfields d ! i"
  shows "info_ok E root (new_field p ix i f)"
proof -
  have inh: "(if fi_traversal p \<noteq> [] then fi_isptr p else False) = fi_isptr p"
    using assms(1) by (auto simp: parent_ok_def ptr_ok_def)
  have "walk E root (ix @ [i]) = Some (fi_traversal p @ field_steps f, Deref (ftype f))"
    using assms walk_snoc by (auto simp: parent_ok_def)
  moreover have "sum_list (map step_offset (field_steps f)) = foffset f"
    by (cases "ptr_elem (ftype f)") (simp_all add: field_steps_def)
  ultimately show ?thesis
    using assms(1) inh by (auto simp: info_ok_def new_field_def ptr_ok_def parent_ok_def Let_def)
qed

lemma info_ok_update [simp]:
  "info_ok E root (fi\<lparr>fi_options := opts\<rparr>) = info_ok E root fi"
  "info_ok E root (fi\<lparr>fi_embedded := b\<rparr>) = info_ok E root fi"
  "info_ok E root (fi\<lparr>fi_path := path\<rparr>) = info_ok E root fi"
  "info_ok E root (fi\<lparr>fi_name := nm\<rparr>) = info_ok E root fi"
  by (simp_all add: info_ok_def ptr_ok_def)

lemma info_ok_parent:
  "info_ok E root fi \<Longrightarrow> fi_target fi = TStruct s \<Longrightarrow> parent_ok E root fi (fi_index fi) s"
  by (simp add: info_ok_def parent_ok_def)

lemma new_field_target [simp]: "fi_target (new_field p ix i f) = Deref (ftype f)"
  by (simp add: new_field_def Let_def)

subsection \<open>The invariant\<close>

fun tree_infos :: "field_tree \<Rightarrow> field_info list" where
  "tree_infos (FNode fi ts) = fi # concat (map tree_infos ts)"

definition forest_infos :: "field_tree list \<Rightarrow> field_info list" where
  "forest_infos ts = concat (map tree_infos ts)"

lemma forest_infos_simps [simp]:
  "forest_infos [] = []"
  "forest_infos (FNode fi ch # ts) = fi # forest_infos ch @ forest_infos ts"
  by (simp_all add: forest_infos_def)

text \<open>
  Every recorded field is right for its index path and sits under its own path or its own name;
  every path is also a name.
\<close>

definition sm_ok :: "tenv \<Rightarrow> gtype \<Rightarrow> struct_map \<Rightarrow> bool" where
  "sm_ok E root sm \<longleftrightarrow>
     (\<forall>k fi. sm_names sm k = Some fi \<longrightarrow> info_ok E root fi \<and> (k = fi_path fi \<or> k = fi_name fi)) \<and>
     (\<forall>k fi. sm_paths sm k = Some fi \<longrightarrow> info_ok E root fi \<and> k = fi_path fi) \<and>
     (\<forall>k. sm_paths sm k \<noteq> None \<longrightarrow> sm_names sm k \<noteq> None)"

lemma sm_ok_empty: "sm_ok E root empty_struct_map"
  by (simp add: sm_ok_def empty_struct_map_def)

lemma sm_ok_errors [simp]: "sm_ok E root (with_errors sm es) = sm_ok E root sm"
  by (simp add: sm_ok_def with_errors_def)

lemma sm_ok_register: "sm_ok E root sm \<Longrightarrow> info_ok E root fi \<Longrightarrow> sm_ok E root (register sm fi)"
  by (auto simp: sm_ok_def register_def Let_def split: option.splits)

lemma drop_ConsD: "x # xs = drop i ys \<Longrightarrow> i < length ys \<and> x = ys ! i \<and> xs = drop (Suc i) ys"
  by (metis drop_eq_Nil2 leI list.distinct(1) Cons_nth_drop_Suc list.inject)

lemma flattens_ok:
  "flattens E m sm t p pre ix vis sm' ts \<Longrightarrow>
     (parent_ok E root p ix t \<longrightarrow> sm_ok E root sm \<longrightarrow>
     sm_ok E root sm' \<and> (\<forall>fi \<in> set (forest_infos ts). info_ok E root fi))"
  "flattens_loop E m sm t p pre ix vis i fs sm' ts \<Longrightarrow>
     (\<forall>d. parent_ok E root p ix t \<longrightarrow> struct_of E t = Some d \<longrightarrow> fs = drop i (sfields d) \<longrightarrow> sm_ok E root sm \<longrightarrow>
     sm_ok E root sm' \<and> (\<forall>fi \<in> set (forest_infos ts). info_ok E root fi))"
proof (induction rule: flattens_flattens_loop.inducts)
  case (fl_skip sm t p pre ix vis i fs sm' ts f)
  then show ?case by (metis drop_ConsD)
next
  case (fl_embed fe opts p ix i f s sm es pre vis sm2 ch t fs sm3 ts)
  show ?case
  proof (intro allI impI)
    fix d assume p: "parent_ok E root p ix t" and d: "struct_of E t = Some d"
      and fs: "f # fs = drop i (sfields d)" and sm: "sm_ok E root sm"
    note f = drop_ConsD [OF fs]
    have ok: "info_ok E root fe" using new_field_ok [OF p d] f fl_embed.hyps(1) by simp
    then have "parent_ok E root fe (ix @ [i]) s"
      using info_ok_parent [OF ok, of s] fl_embed.hyps(1,2) by simp
    then show "sm_ok E root sm3 \<and> (\<forall>fi \<in> set (forest_infos (FNode fe ch # ts)). info_ok E root fi)"
      using fl_embed.IH p d f sm ok by auto
  qed
next
  case (fl_embed_other fe opts p ix i f sm es t pre vis fs sm3 ts)
  then show ?case
    using new_field_ok [of E root p ix t _ i f] by (auto dest!: drop_ConsD)
next
  case (fl_leaf fn nm pre opts p ix i f sm es t vis fs sm3 ts)
  show ?case
  proof (intro allI impI)
    fix d assume p: "parent_ok E root p ix t" and d: "struct_of E t = Some d"
      and fs: "f # fs = drop i (sfields d)" and sm: "sm_ok E root sm"
    note f = drop_ConsD [OF fs]
    have ok: "info_ok E root fn" using new_field_ok [OF p d] f fl_leaf.hyps(1) by simp
    then show "sm_ok E root sm3 \<and> (\<forall>fi \<in> set (forest_infos (FNode fn [] # ts)). info_ok E root fi)"
      using fl_leaf.IH p d f sm sm_ok_register [of E root "with_errors sm es" fn] by auto
  qed
next
  case (fl_struct fn nm pre opts p ix i f s sm es vis sm2 ch t fs sm3 ts)
  show ?case
  proof (intro allI impI)
    fix d assume p: "parent_ok E root p ix t" and d: "struct_of E t = Some d"
      and fs: "f # fs = drop i (sfields d)" and sm: "sm_ok E root sm"
    note f = drop_ConsD [OF fs]
    have ok: "info_ok E root fn" using new_field_ok [OF p d] f fl_struct.hyps(1) by simp
    then have "parent_ok E root fn (ix @ [i]) s"
      using info_ok_parent [OF ok, of s] fl_struct.hyps(1,2) by simp
    then show "sm_ok E root sm3 \<and> (\<forall>fi \<in> set (forest_infos (FNode fn ch # ts)). info_ok E root fi)"
      using fl_struct.IH p d f sm ok sm_ok_register [of E root sm2 fn] by auto
  qed
qed auto

subsection \<open>What the mapper promises of a field\<close>

definition sample_person :: struct_map where
  "sample_person = the (mapType sample_types sample_mapper (TStruct ''Person''))"

lemma sample_person: "mapType sample_types sample_mapper (TStruct ''Person'') = Some sample_person"
proof -
  have "\<not> Option.is_none (mapType sample_types sample_mapper (TStruct ''Person''))" by code_simp
  then show ?thesis
    by (cases "mapType sample_types sample_mapper (TStruct ''Person'')") (simp_all add: sample_person_def)
qed

lemma sample_person_fields:
  "map (\<lambda>k. map_option (\<lambda>fi. (fi_index fi, fi_offset fi, fi_isptr fi)) (sm_names sample_person k))
     [''id'', ''home'', ''city'', ''next'', ''zip''] =
   [Some ([0, 0], 0, False), Some ([2], 24, False), Some ([2, 0], 24, False),
    Some ([3], 0, True), Some ([2, 1], 0, True)]"
  by code_simp

lemma parent_ok_root: "parent_ok E (TStruct s) tree_root [] s"
  by (simp add: parent_ok_def tree_root_def ptr_ok_def)

lemma mapType_cases:
  assumes "mapType E m t = Some sm"
  obtains (struct) s sm0 ts where "t = TStruct s"
      "flattens E m empty_struct_map s tree_root [] [] [] sm0 ts" "sm = sm0\<lparr>sm_index := ts\<rparr>"
    | (other) "sm = empty_struct_map"
  using assms by (auto simp: mapType_def split: gtype.splits option.splits dest: flatten_sound(1))

lemma mapType_ok:
  assumes "mapType E m t = Some sm"
  shows "sm_ok E t sm"
  using assms
proof (cases rule: mapType_cases)
  case (struct s sm0 ts)
  then have "sm_ok E t sm0"
    using flattens_ok(1) [of E m empty_struct_map s tree_root] parent_ok_root sm_ok_empty by blast
  with struct show ?thesis by (simp add: sm_ok_def)
qed (simp add: sm_ok_empty)

lemma mapType_names_ok: "mapType E m t = Some sm \<Longrightarrow> sm_names sm k = Some fi \<Longrightarrow> info_ok E t fi"
  using mapType_ok [of E m t sm] by (auto simp: sm_ok_def)

text \<open>
  C8. Every field the mapper hands out for a name is described correctly: its index path is not
  empty and leads, field by field from the mapped type, along exactly the steps of its traversal
  to its target type; \<open>IsPtrPath\<close> says whether one of them follows a pointer; and \<open>Offset\<close> is the
  sum of the steps' offsets where none does and 0 otherwise.
\<close>

theorem mapType_field_info:
  assumes "mapType E m t = Some sm" and "sm_names sm k = Some fi"
  shows "fi_index fi \<noteq> [] \<and> walk E t (fi_index fi) = Some (fi_traversal fi, fi_target fi) \<and>
    (fi_isptr fi \<longleftrightarrow> (\<exists>st \<in> set (fi_traversal fi). step_type st \<noteq> None)) \<and>
    fi_offset fi = (if fi_isptr fi then 0 else sum_list (map step_offset (fi_traversal fi)))"
  using mapType_names_ok [OF assms] by (simp add: info_ok_def ptr_ok_def has_ptr_step_def)

theorem mapType_field_info_witness:
  "\<exists>fi. sm_names sample_person ''zip'' = Some fi \<and> fi_index fi = [2, 1] \<and> fi_offset fi = 0 \<and>
     walk sample_types (TStruct ''Person'') [2, 1] = Some (fi_traversal fi, fi_target fi)"
proof -
  from sample_person_fields obtain fi where
      fi: "sm_names sample_person ''zip'' = Some fi" "fi_index fi = [2, 1]" "fi_offset fi = 0"
    by auto
  with mapType_field_info [OF sample_person fi(1)] show ?thesis by auto
qed

subsection \<open>Bounds\<close>

lemma no_ptr_Deref: "ptr_elem t = None \<Longrightarrow> Deref t = t"
  by (simp add: Deref_def)

lemma sum_field_steps [simp]: "sum_list (map step_offset (field_steps f)) = foffset f"
  by (cases "ptr_elem (ftype f)") (simp_all add: field_steps_def)

lemma walk_ConsE:
  assumes "walk E t (i # is) = Some (ss, t')"
  obtains s d ss' where "t = TStruct s" "struct_of E s = Some d" "i < length (sfields d)"
    "walk E (Deref (ftype (sfields d ! i))) is = Some (ss', t')" "ss = field_steps (sfields d ! i) @ ss'"
  using assms by (auto split: gtype.splits option.splits if_splits)

lemma walk_bounds:
  assumes "layout_ok E" and "walk E t is = Some (ss, t')" and "\<not> has_ptr_step ss"
  shows "sum_list (map step_offset ss) + size_of E t' \<le> size_of E t"
  using assms(2,3)
proof (induction "is" arbitrary: t ss)
  case (Cons i js)
  then obtain s d ss' where w: "t = TStruct s" "struct_of E s = Some d" "i < length (sfields d)"
      "walk E (Deref (ftype (sfields d ! i))) js = Some (ss', t')" "ss = field_steps (sfields d ! i) @ ss'"
    by (elim walk_ConsE)
  from w Cons.prems have np: "ptr_elem (ftype (sfields d ! i)) = None" "\<not> has_ptr_step ss'" by auto
  from Cons.IH [OF w(4) np(2)]
  have "sum_list (map step_offset ss') + size_of E t' \<le> size_of E (ftype (sfields d ! i))"
    by (simp add: no_ptr_Deref np)
  with layout_ok_field [OF assms(1) w(2,3)] w show ?case by simp
qed simp

lemma layout_ok_order:
  assumes "layout_ok E" and "struct_of E s = Some d" and "i < j" and "j < length (sfields d)"
  shows "foffset (sfields d ! i) + size_of E (ftype (sfields d ! i)) \<le> foffset (sfields d ! j)"
proof -
  from assms(2) have "(s, d) \<in> set (structs E)"
    by (auto simp: struct_of_def dest: map_of_SomeD)
  with assms(1) have "sorted_wrt (\<lambda>f g. foffset f + size_of E (ftype f) \<le> foffset g) (sfields d)"
    by (force simp: layout_ok_def list_all_iff)
  with assms(3,4) show ?thesis by (simp add: sorted_wrt_iff_nth_less)
qed

text \<open>Two index paths, neither a prefix of the other, lead to disjoint parts of the struct.\<close>

definition unrelated :: "nat list \<Rightarrow> nat list \<Rightarrow> bool" where
  "unrelated p q \<longleftrightarrow> take (length q) p \<noteq> q \<and> take (length p) q \<noteq> p"

lemma unrelated_simps [simp]:
  "\<not> unrelated [] q" "\<not> unrelated p []"
  "unrelated (i # p) (j # q) \<longleftrightarrow> i \<noteq> j \<or> unrelated p q"
  by (auto simp: unrelated_def)

definition disjoint_parts :: "nat \<Rightarrow> nat \<Rightarrow> nat \<Rightarrow> nat \<Rightarrow> bool" where
  "disjoint_parts a n b k \<longleftrightarrow> a + n \<le> b \<or> b + k \<le> a"

lemma walk_disjoint:
  assumes lay: "layout_ok E" and "walk E t p = Some (ss, t1)" and "walk E t q = Some (ss', t2)"
    and "\<not> has_ptr_step ss" and "\<not> has_ptr_step ss'" and "unrelated p q"
  shows "disjoint_parts (sum_list (map step_offset ss)) (size_of E t1)
           (sum_list (map step_offset ss')) (size_of E t2)"
  using assms(2-6)
proof (induction p arbitrary: t q ss ss')
  case (Cons i p)
  then obtain j q' where q: "q = j # q'" by (cases q) auto
  obtain s d r where w: "t = TStruct s" "struct_of E s = Some d" "i < length (sfields d)"
      "walk E (Deref (ftype (sfields d ! i))) p = Some (r, t1)" "ss = field_steps (sfields d ! i) @ r"
    using Cons.prems(1) by (elim walk_ConsE)
  obtain r' where w': "j < length (sfields d)"
      "walk E (Deref (ftype (sfields d ! j))) q' = Some (r', t2)" "ss' = field_steps (sfields d ! j) @ r'"
    using Cons.prems(2) w(1,2) q by (auto split: if_splits)
  have np: "ptr_elem (ftype (sfields d ! i)) = None" "ptr_elem (ftype (sfields d ! j)) = None"
    "\<not> has_ptr_step r" "\<not> has_ptr_step r'"
    using Cons.prems(3,4) w(5) w'(3) by auto
  have b: "sum_list (map step_offset r) + size_of E t1 \<le> size_of E (ftype (sfields d ! i))"
      "sum_list (map step_offset r') + size_of E t2 \<le> size_of E (ftype (sfields d ! j))"
    using walk_bounds [OF lay w(4)] walk_bounds [OF lay w'(2)] np by (simp_all add: no_ptr_Deref)
  consider "i < j" | "j < i" | "i = j" by linarith
  then show ?case
  proof cases
    case 1
    then show ?thesis using layout_ok_order [OF lay w(2) 1 w'(1)] b w w' by (simp add: disjoint_parts_def)
  next
    case 2
    then show ?thesis using layout_ok_order [OF lay w(2) 2 w(3)] b w w' by (simp add: disjoint_parts_def)
  next
    case 3
    then have "unrelated p q'" using Cons.prems(5) q by simp
    then show ?thesis using Cons.IH [OF w(4)] w'(2) np 3 w(5) w'(3) by (auto simp: disjoint_parts_def)
  qed
qed simp

text \<open>
  C9. The direct-memory scan is safe: with the layout the compiler gives, every field reached
  without a pointer lies inside the struct (its offset plus the size of its type is at most the
  struct's size), and two such fields whose index paths are not one inside the other never
  overlap, so two scan destinations never alias.
\<close>

theorem mapType_offsets_in_bounds:
  assumes "layout_ok E" and "mapType E m t = Some sm" and "sm_names sm k = Some fi" and "\<not> fi_isptr fi"
    and "sm_names sm k' = Some fj" and "\<not> fi_isptr fj"
  shows "fi_offset fi + size_of E (fi_target fi) \<le> size_of E t \<and>
    (unrelated (fi_index fi) (fi_index fj) \<longrightarrow>
      disjoint_parts (fi_offset fi) (size_of E (fi_target fi)) (fi_offset fj) (size_of E (fi_target fj)))"
proof -
  have "info_ok E t fi" "info_ok E t fj" using mapType_names_ok assms by blast+
  then show ?thesis
    using walk_bounds [OF assms(1), of t "fi_index fi"] walk_disjoint [OF assms(1), of t "fi_index fi"]
      assms(4,6) by (auto simp: info_ok_def ptr_ok_def)
qed

theorem mapType_offsets_in_bounds_witness:
  "\<exists>fi fj. sm_names sample_person ''id'' = Some fi \<and> sm_names sample_person ''city'' = Some fj \<and>
     fi_offset fj + size_of sample_types (fi_target fj) \<le> 56 \<and>
     disjoint_parts (fi_offset fj) (size_of sample_types (fi_target fj))
       (fi_offset fi) (size_of sample_types (fi_target fi))"
proof -
  from sample_person_fields obtain fi fj where
      fi: "sm_names sample_person ''id'' = Some fi" "fi_index fi = [0, 0]" "\<not> fi_isptr fi" and
      fj: "sm_names sample_person ''city'' = Some fj" "fi_index fj = [2, 0]" "\<not> fi_isptr fj"
    by auto
  have lay: "layout_ok sample_types" by code_simp
  have "size_of sample_types (TStruct ''Person'') = 56" by code_simp
  with mapType_offsets_in_bounds [OF lay sample_person fj(1,3) fi(1,3)] fi fj show ?thesis
    by auto
qed

end
