(* ===== verification/Reflectx_Names.thy ===== *)
theory Reflectx_Names
  imports Reflectx_Inv
begin

text \<open>
  Which field a name stands for.  The struct map is the result of registering the fields of the
  tree in post-order (a nested struct's fields before the field itself, embedded fields not at
  all), so a path belongs to the last field registered with it and a short name that is no
  path to the first.  Then: which fields are in the tree, when the mapper panics, and that
  \<open>strictTags\<close> changes nothing.
\<close>

subsection \<open>Registration order\<close>

fun registered :: "field_tree \<Rightarrow> field_info list" where
  "registered (FNode fi ts) = concat (map registered ts) @ (if fi_embedded fi then [] else [fi])"

definition registered_all :: "field_tree list \<Rightarrow> field_info list" where
  "registered_all ts = concat (map registered ts)"

lemma registered_all_simps [simp]:
  "registered_all [] = []"
  "registered_all (FNode fi ch # ts) =
     registered_all ch @ (if fi_embedded fi then [] else [fi]) @ registered_all ts"
  by (simp_all add: registered_all_def)

lemma with_errors_simps [simp]:
  "with_errors sm [] = sm"
  "with_errors (with_errors sm es) es' = with_errors sm (es @ es')"
  "register (with_errors sm es) fi = with_errors (register sm fi) es"
  by (simp_all add: with_errors_def register_def Let_def split: option.split)

lemma fold_register_with_errors [simp]:
  "fold (\<lambda>fi sm. register sm fi) fis (with_errors sm es) =
     with_errors (fold (\<lambda>fi sm. register sm fi) fis sm) es"
  by (induction fis arbitrary: sm) simp_all

lemma new_field_embedded [simp]: "fi_embedded (new_field p ix i f) = False"
  by (simp add: new_field_def Let_def)

lemma flattens_registers:
  "flattens E m sm t p pre ix vis sm' ts \<Longrightarrow>
     \<exists>es. sm' = with_errors (fold (\<lambda>fi sm. register sm fi) (registered_all ts) sm) es"
  "flattens_loop E m sm t p pre ix vis i fs sm' ts \<Longrightarrow>
     \<exists>es. sm' = with_errors (fold (\<lambda>fi sm. register sm fi) (registered_all ts) sm) es"
proof (induction rule: flattens_flattens_loop.inducts)
  case (fl_visited t vis sm p pre ix)
  then show ?case by (auto intro: exI [of _ "[]"])
next
  case (fl_unknown t sm p pre ix vis)
  then show ?case by (auto intro: exI [of _ "[]"])
next
  case (fl_nil sm t p pre ix vis i)
  then show ?case by (auto intro: exI [of _ "[]"])
qed auto

subsection \<open>Lookups\<close>

lemma register_paths [simp]: "sm_paths (register sm fi) = (sm_paths sm)(fi_path fi \<mapsto> fi)"
  by (simp add: register_def Let_def split: option.split)

lemma register_names:
  "sm_names (register sm fi) k =
    (if k = fi_path fi then Some fi
     else if k = fi_name fi \<and> sm_names sm k = None then Some fi else sm_names sm k)"
  by (auto simp: register_def Let_def split: option.split)

definition path_lookup :: "field_info list \<Rightarrow> string \<Rightarrow> field_info option" where
  "path_lookup fis k = find (\<lambda>fi. fi_path fi = k) (rev fis)"

definition name_lookup :: "field_info list \<Rightarrow> string \<Rightarrow> field_info option" where
  "name_lookup fis k =
     (case path_lookup fis k of Some fi \<Rightarrow> Some fi | None \<Rightarrow> find (\<lambda>fi. fi_name fi = k) fis)"

lemma path_lookup_simps [simp]:
  "path_lookup [] k = None"
  "path_lookup (fis @ [fi]) k = (if fi_path fi = k then Some fi else path_lookup fis k)"
  by (simp_all add: path_lookup_def)

lemma find_snoc: "find P (xs @ [x]) = (case find P xs of None \<Rightarrow> if P x then Some x else None | r \<Rightarrow> r)"
  by (induction xs) auto

lemma fold_register_lookup:
  "sm_paths (fold (\<lambda>fi sm. register sm fi) fis empty_struct_map) k = path_lookup fis k \<and>
   sm_names (fold (\<lambda>fi sm. register sm fi) fis empty_struct_map) k = name_lookup fis k"
proof (induction fis rule: rev_induct)
  case Nil
  then show ?case by (simp add: empty_struct_map_def name_lookup_def)
next
  case (snoc fi fis)
  then show ?case
    by (auto simp: register_names name_lookup_def find_snoc split: option.splits)
qed

lemma mapType_lookup:
  assumes "mapType E m t = Some sm"
  shows "sm_paths sm k = path_lookup (registered_all (sm_index sm)) k"
    and "sm_names sm k = name_lookup (registered_all (sm_index sm)) k"
proof -
  have "sm_paths sm k = path_lookup (registered_all (sm_index sm)) k \<and>
        sm_names sm k = name_lookup (registered_all (sm_index sm)) k"
    using assms
  proof (cases rule: mapType_cases)
    case (struct s sm0 ts)
    then show ?thesis
      using flattens_registers(1) [OF struct(2)] fold_register_lookup [of "registered_all ts" k]
      by (auto simp: with_errors_def)
  next
    case other
    then show ?thesis by (simp add: empty_struct_map_def name_lookup_def)
  qed
  then show "sm_paths sm k = path_lookup (registered_all (sm_index sm)) k"
    and "sm_names sm k = name_lookup (registered_all (sm_index sm)) k" by auto
qed

text \<open>
  C29. Name resolution, completely: after mapping a type, a dotted path stands for the last field
  registered under it in depth-first post-order of the field tree, and any other name for the
  first field with that short name; nothing else is a name.
\<close>

theorem mapType_name_resolution:
  assumes "mapType E m t = Some sm"
  shows "sm_names sm k =
    (case find (\<lambda>fi. fi_path fi = k) (rev (registered_all (sm_index sm))) of
       Some fi \<Rightarrow> Some fi
     | None \<Rightarrow> find (\<lambda>fi. fi_name fi = k) (registered_all (sm_index sm)))"
  using mapType_lookup(2) [OF assms] by (simp add: name_lookup_def path_lookup_def)

theorem mapType_name_resolution_witness:
  "sm_names sample_person ''city'' =
    (case find (\<lambda>fi. fi_path fi = ''city'') (rev (registered_all (sm_index sample_person))) of
       Some fi \<Rightarrow> Some fi
     | None \<Rightarrow> find (\<lambda>fi. fi_name fi = ''city'') (registered_all (sm_index sample_person))) \<and>
   map fi_path (registered_all (sm_index sample_person)) =
     [''id'', ''name'', ''home.city'', ''home.zip'', ''home'', ''next'']"
proof
  show "sm_names sample_person ''city'' =
    (case find (\<lambda>fi. fi_path fi = ''city'') (rev (registered_all (sm_index sample_person))) of
       Some fi \<Rightarrow> Some fi
     | None \<Rightarrow> find (\<lambda>fi. fi_name fi = ''city'') (registered_all (sm_index sample_person)))"
    by (rule mapType_name_resolution [OF sample_person])
  show "map fi_path (registered_all (sm_index sample_person)) =
     [''id'', ''name'', ''home.city'', ''home.zip'', ''home'', ''next'']" by code_simp
qed

subsection \<open>Totality and the missing name function\<close>

lemma flatten_total:
  "mapFunc m \<noteq> None \<Longrightarrow> flattenFields E m sm t p pre ix vis \<noteq> None"
  "mapFunc m \<noteq> None \<Longrightarrow> flatten_loop E m sm tn p pre ix vis i fs \<noteq> None"
proof (induction E m sm t p pre ix vis and E m sm tn p pre ix vis i fs
    rule: flattenFields_flatten_loop.induct)
  case (1 E m sm t p pre ix vis)
  then show ?case
    by (subst flattenFields.simps) (auto split: option.splits)
next
  case (2 E m sm tn p pre ix vis i)
  then show ?case by simp
next
  case (3 E m sm tn p pre ix vis i f fs)
  obtain nm opts es where tag: "parse_tag E m tn f = (nm, opts, es)"
    by (cases "parse_tag E m tn f")
  let ?ft = "Deref (ftype f)"
  let ?emb = "kind_of ?ft = KStruct \<and> tag_get f (tagName m) = [] \<and> fanonymous f \<and> \<not> isScanner E ?ft"
  consider (skip) "\<not> fexported f \<and> \<not> fanonymous f"
    | (dash) "\<not> (\<not> fexported f \<and> \<not> fanonymous f)" "tag_get f (tagName m) = ''-''"
    | (embed) "\<not> (\<not> fexported f \<and> \<not> fanonymous f)" "tag_get f (tagName m) \<noteq> ''-''" ?emb
    | (named) "\<not> (\<not> fexported f \<and> \<not> fanonymous f)" "tag_get f (tagName m) \<noteq> ''-''" "\<not> ?emb"
    by blast
  then show ?case
  proof cases
    case skip
    with "3.prems" "3.IH"(1) show ?thesis by (simp add: flatten_loop.simps(2))
  next
    case dash
    with "3.prems" "3.IH"(2) show ?thesis by (auto simp: flatten_loop.simps(2))
  next
    case embed
    note c = embed(1,2) tag [symmetric] refl refl refl refl refl embed(3) refl
    show ?thesis
      using embed tag "3.IH"(3) [OF c _ "3.prems"] "3.IH"(4) [OF c _ refl "3.prems"]
      by (cases ?ft) (auto simp: flatten_loop.simps(2) Let_def split: option.split)
  next
    case named
    obtain n where n: "(if nm = [] then map_option (\<lambda>g. g (fname f)) (mapFunc m) else Some nm) = Some n"
      using "3.prems" by (cases "nm = []") auto
    note c = named(1,2) tag [symmetric] refl refl refl refl refl named(3) n refl
    let ?fn = "(new_field p ix i f)\<lparr>fi_options := opts, fi_path := join_path pre n, fi_name := n\<rparr>"
    let ?call = "if kind_of ?ft = KStruct \<and> \<not> isScanner E ?ft then (case ?ft of
           TStruct s \<Rightarrow> flattenFields E m (with_errors sm es) s ?fn (fi_path ?fn) (fi_index ?fn) vis
         | _ \<Rightarrow> Some (with_errors sm es, [])) else Some (with_errors sm es, [])"
    obtain sm2 ch where call: "?call = Some (sm2, ch)"
      using "3.IH"(5) [OF c _ _ "3.prems"] by (cases ?ft) (fastforce split: if_splits)+
    obtain sm3 ts where rest: "flatten_loop E m (register sm2 ?fn) tn p pre ix vis (Suc i) fs = Some (sm3, ts)"
      using "3.IH"(6) [OF c call refl "3.prems"] by auto
    show ?thesis
      by (simp only: flatten_loop.simps(2) Let_def named if_False tag prod.case n option.case call rest
        option.distinct not_False_eq_True)
  qed
qed

lemma mapType_defined:
  assumes "mapFunc m \<noteq> None"
  shows "\<exists>sm. mapType E m t = Some sm"
proof (cases t)
  case (TStruct s)
  with flatten_total(1) [OF assms, of E empty_struct_map s tree_root "[]" "[]" "[]"] show ?thesis
    by (auto simp: mapType_def)
qed (simp_all add: mapType_def)

text \<open>
  C39. A mapper with a name function maps every type, recursive ones included: flattening
  terminates and never panics.
\<close>

theorem mapType_total:
  assumes "mapFunc m \<noteq> None"
  shows "\<exists>sm. mapType E m t = Some sm"
  by (rule mapType_defined [OF assms])

theorem mapType_total_witness:
  "mapFunc sample_mapper \<noteq> None \<and>
   (\<exists>sm. mapType sample_types sample_mapper (TStruct ''Person'') = Some sm)"
  using mapType_total [of sample_mapper sample_types "TStruct ''Person''"]
  by (simp add: sample_mapper_def NewMapperFunc_def)

lemma loop_needs_mapFunc:
  "flatten_loop E m sm tn p pre ix vis i fs = Some r \<Longrightarrow> mapFunc m = None \<Longrightarrow> f \<in> set fs \<Longrightarrow>
   fexported f \<Longrightarrow> \<not> fanonymous f \<Longrightarrow> tag_get f (tagName m) \<noteq> []"
proof (induction fs arbitrary: sm i r)
  case (Cons g fs)
  have one: "flatten_loop E m sm tn p pre ix vis i (g # fs) = Some r \<Longrightarrow>
      fexported g \<Longrightarrow> \<not> fanonymous g \<Longrightarrow> tag_get g (tagName m) \<noteq> []"
    using Cons.prems(2)
    by (cases "parse_tag E m tn g") (auto simp: flatten_loop.simps(2) Let_def parse_tag_def)
  have "\<exists>sm' r'. flatten_loop E m sm' tn p pre ix vis (Suc i) fs = Some r'"
    using Cons.prems(1)
    by (cases "parse_tag E m tn g")
      (simp add: flatten_loop.simps(2) Let_def del: split_paired_Ex split: if_splits option.splits prod.splits; blast)
  then show ?case using one Cons.IH Cons.prems by (metis set_ConsD)
qed simp

text \<open>
  \<open>NewMapper\<close> leaves the name function nil, and a struct with an exported, not embedded field
  that carries no tag then panics instead of being mapped.
\<close>

lemma NewMapper_panics_on_untagged:
  assumes "struct_of E s = Some d" and "f \<in> set (sfields d)" and "fexported f" and "\<not> fanonymous f"
    and "tag_get f tag = []"
  shows "mapType E (NewMapper tag) (TStruct s) = None"
proof -
  have "flatten_loop E (NewMapper tag) empty_struct_map (sname d) tree_root [] [] [s] 0 (sfields d) = None"
    using loop_needs_mapFunc [of E "NewMapper tag" empty_struct_map "sname d"] assms
    by (metis NewMapper_def mapper.select_convs(1,2) not_Some_eq)
  with assms(1) show ?thesis by (simp add: mapType_def flattenFields.simps)
qed

lemma NewMapper_panics_on_untagged_witness:
  "mapType sample_types (NewMapper ''db'') (TStruct ''Address'') = None"
proof -
  let ?f = "sample_field ''Zip'' (TPtr (TBasic BString)) 16 []"
  let ?d = "the (struct_of sample_types ''Address'')"
  have "struct_of sample_types ''Address'' = Some ?d" "?f \<in> set (sfields ?d)" "fexported ?f"
      "\<not> fanonymous ?f" "tag_get ?f ''db'' = []"
    by (simp_all add: struct_of_def sample_types_def sample_field_def tag_get_def)
  then show ?thesis by (rule NewMapper_panics_on_untagged)
qed

subsection \<open>Which fields are mapped\<close>

definition kept :: "mapper \<Rightarrow> gfield \<Rightarrow> bool" where
  "kept m f \<longleftrightarrow> (fexported f \<or> fanonymous f) \<and> tag_get f (tagName m) \<noteq> ''-''"

fun tree_field :: "field_tree \<Rightarrow> gfield" where
  "tree_field (FNode fi ts) = fi_field fi"

lemma new_field_field [simp]: "fi_field (new_field p ix i f) = f"
  by (simp add: new_field_def Let_def)

lemma loop_ConsE:
  assumes "flatten_loop E m sm tn p pre ix vis i (f # fs) = Some (sm', ts)"
  obtains (drop) "\<not> kept m f" "flatten_loop E m sm tn p pre ix vis (Suc i) fs = Some (sm', ts)"
    | (keep) fi ch ts' sm1 where "kept m f" "ts = FNode fi ch # ts'" "fi_field fi = f" "fi_index fi = ix @ [i]"
        "flatten_loop E m sm1 tn p pre ix vis (Suc i) fs = Some (sm', ts')"
  using assms
  by (cases "parse_tag E m tn f")
    (auto simp: kept_def flatten_loop.simps(2) Let_def split: if_splits option.splits)

lemma loop_kept:
  "flatten_loop E m sm tn p pre ix vis i fs = Some (sm', ts) \<Longrightarrow> map tree_field ts = filter (kept m) fs"
proof (induction fs arbitrary: sm i ts)
  case (Cons f fs)
  from Cons.prems show ?case
    by (cases rule: loop_ConsE) (auto dest: Cons.IH)
qed simp

text \<open>
  The mapper loses no field: the top level of the tree lists, in order, exactly the struct's
  fields that are exported or embedded and not tagged \<open>-\<close>.
\<close>

lemma mapType_keeps_fields:
  assumes "mapType E m (TStruct s) = Some sm" and "struct_of E s = Some d"
  shows "map tree_field (sm_index sm) = filter (kept m) (sfields d)"
  using assms by (auto simp: mapType_def flattenFields.simps split: option.splits dest: loop_kept)

lemma mapType_keeps_fields_witness:
  "map (fname \<circ> tree_field) (sm_index sample_person) = [''Base'', ''Name'', ''Home'', ''Next'']"
proof -
  let ?d = "the (struct_of sample_types ''Person'')"
  have "struct_of sample_types ''Person'' = Some ?d" by (simp add: struct_of_def sample_types_def)
  from mapType_keeps_fields [OF sample_person this]
  have "map fname (map tree_field (sm_index sample_person)) = map fname (filter (kept sample_mapper) (sfields ?d))"
    by simp
  also have "\<dots> = [''Base'', ''Name'', ''Home'', ''Next'']" by code_simp
  finally show ?thesis by simp
qed

end
