(* ===== verification/Sim_Runs.thy ===== *)
theory Sim_Runs
  imports Sqlx_Prelude
begin

text \<open>
  A client's sequence of calls on a state, with what each call returned, and the two ways the development compares two such runs:
  by a relation every call keeps, and by an abstraction of the state that every call respects.
\<close>

fun run_ops :: "('s \<Rightarrow> 'o \<Rightarrow> 's \<times> 'r) \<Rightarrow> 's \<Rightarrow> 'o list \<Rightarrow> 's \<times> 'r list" where
  "run_ops step s [] = (s, [])"
| "run_ops step s (op # ops) =
     (let (s1, r) = step s op; (s2, rs) = run_ops step s1 ops in (s2, r # rs))"

lemma run_ops_length: "run_ops step s ops = (s1, rs) \<Longrightarrow> length rs = length ops"
  by (induction ops arbitrary: s rs) (auto simp: Let_def split: prod.splits)

subsection \<open>Simulation\<close>

text \<open>Related states answer an allowed call alike and are related after it.\<close>

locale simulation =
  fixes step :: "'s \<Rightarrow> 'o \<Rightarrow> 's \<times> 'r"
    and spec :: "'a \<Rightarrow> 'o \<Rightarrow> 'a \<times> 'r"
    and related :: "'s \<Rightarrow> 'a \<Rightarrow> bool"
    and allowed :: "'o \<Rightarrow> bool"
  assumes step_simulates:
    "related s a \<Longrightarrow> allowed op \<Longrightarrow> step s op = (s1, r) \<Longrightarrow> \<exists>a1. spec a op = (a1, r) \<and> related s1 a1"
begin

lemma run_simulates:
  assumes "related s a" and "list_all allowed ops" and "run_ops step s ops = (s1, rs)"
  shows "\<exists>a1. run_ops spec a ops = (a1, rs) \<and> related s1 a1"
  using assms
proof (induction ops arbitrary: s a s1 rs)
  case (Cons op ops)
  obtain s2 r where op: "step s op = (s2, r)" by (cases "step s op")
  obtain s3 rs' where ops: "run_ops step s2 ops = (s3, rs')" by (cases "run_ops step s2 ops")
  obtain a2 where a2: "spec a op = (a2, r)" "related s2 a2" using step_simulates [OF Cons.prems(1) _ op] Cons.prems(2) by auto
  with Cons.IH [OF a2(2) _ ops] Cons.prems(2,3) op ops show ?case by fastforce
qed simp

end

text \<open>A step on a detailed state is the specification's step on what the state stands for.\<close>

locale abstraction =
  fixes step :: "'s \<Rightarrow> 'o \<Rightarrow> 's \<times> 'r"
    and spec :: "'a \<Rightarrow> 'o \<Rightarrow> 'a \<times> 'r"
    and abs :: "'s \<Rightarrow> 'a"
    and inv :: "'s \<Rightarrow> bool"
    and allowed :: "'o \<Rightarrow> bool"
  assumes step_abs: "inv s \<Longrightarrow> allowed op \<Longrightarrow> step s op = (s1, r) \<Longrightarrow> spec (abs s) op = (abs s1, r) \<and> inv s1"

sublocale abstraction \<subseteq> simulation step spec "\<lambda>s a. inv s \<and> a = abs s" allowed
  by unfold_locales (use step_abs in blast)

context abstraction begin

lemma run_abs:
  assumes "inv s" and "list_all allowed ops" and "run_ops step s ops = (s1, rs)"
  shows "run_ops spec (abs s) ops = (abs s1, rs)" and "inv s1"
  using run_simulates [OF _ assms(2,3), of "abs s"] assms(1) by auto

end

text \<open>A step that answers what a function of the call alone answers: a memoised computation.\<close>

locale pure_answers =
  fixes step :: "'s \<Rightarrow> 'o \<Rightarrow> 's \<times> 'r"
    and answer :: "'o \<Rightarrow> 'r"
    and inv :: "'s \<Rightarrow> bool"
  assumes step_answers: "inv s \<Longrightarrow> step s op = (s1, r) \<Longrightarrow> r = answer op \<and> inv s1"

sublocale pure_answers \<subseteq> abstraction step "\<lambda>u op. (u, answer op)" "\<lambda>s. ()" inv "\<lambda>op. True"
  by unfold_locales (use step_answers in blast)

context pure_answers begin

lemma run_ops_answer: "run_ops (\<lambda>u op. (u, answer op)) u ops = (u, map answer ops)"
  by (induction ops) simp_all

lemma run_answers: "inv s \<Longrightarrow> snd (run_ops step s ops) = map answer ops"
  using run_abs [of s ops] run_ops_answer [of "()" ops] by (cases "run_ops step s ops") (simp add: list_all_iff)

end

end
