(* ===== verification/Reflectx_TypeMap.thy ===== *)
theory Reflectx_TypeMap
  imports Reflectx_Names Sim_Runs
begin

text \<open>
  \<open>Mapper.TypeMap\<close> with its cache, and the lookups built on it.  \<open>singleflight.Group.Do\<close> is a
  parameter \<open>flight\<close> of the model: given the closure and the cache it yields the new cache and what
  the closure's caller gets.  The documentation of the package says it executes the closure, or
  hands over the result of an execution for the same key that is in progress.  \<^const>\<open>None\<close> is a panic.
\<close>

type_synonym type_cache = "(gtype, struct_map) sync_map"

type_synonym flight = "gtype \<Rightarrow> (type_cache \<Rightarrow> type_cache \<times> struct_map option) \<Rightarrow> type_cache \<Rightarrow>
  type_cache \<times> struct_map option"

text \<open>The closure: the second look at the cache, then \<open>mapType\<close>.\<close>

definition map_and_store :: "tenv \<Rightarrow> mapper \<Rightarrow> gtype \<Rightarrow> type_cache \<Rightarrow> type_cache \<times> struct_map option" where
  "map_and_store E m t c =
     (case sync_load c t of
        Some sm \<Rightarrow> (c, Some sm)
      | None \<Rightarrow>
          (case mapType E m t of
             None \<Rightarrow> (c, None)
           | Some sm \<Rightarrow> (sync_store c t sm, Some sm)))"

definition TypeMap :: "flight \<Rightarrow> tenv \<Rightarrow> mapper \<Rightarrow> type_cache \<Rightarrow> gtype \<Rightarrow> type_cache \<times> struct_map option" where
  "TypeMap flight E m c ty =
     (let t = (if kind_of ty = KPtr then Deref ty else ty) in
      case sync_load c t of
        Some sm \<Rightarrow> (c, Some sm)
      | None \<Rightarrow> flight t (map_and_store E m t) c)"

text \<open>What \<open>TypeMap\<close> computes, without the cache.\<close>

definition type_map :: "tenv \<Rightarrow> mapper \<Rightarrow> gtype \<Rightarrow> struct_map option" where
  "type_map E m ty = mapType E m (Deref ty)"

definition cache_sound :: "tenv \<Rightarrow> mapper \<Rightarrow> type_cache \<Rightarrow> bool" where
  "cache_sound E m c \<longleftrightarrow> sync_memo.agrees c (\<lambda>t sm. mapType E m t = Some sm)"

text \<open>
  The documented contract of \<open>Do\<close>, for a cache that holds only what \<open>mapType\<close> yields: the caller
  gets what the closure yields on some such cache (its own, or the one the call in progress
  saw), and the cache it leaves is again sound.
\<close>

definition flight_ok :: "flight \<Rightarrow> tenv \<Rightarrow> mapper \<Rightarrow> bool" where
  "flight_ok flight E m \<longleftrightarrow>
     (\<forall>t c. cache_sound E m c \<longrightarrow>
        (\<exists>c0. cache_sound E m c0 \<and> snd (flight t (map_and_store E m t) c) = snd (map_and_store E m t c0)) \<and>
        cache_sound E m (fst (flight t (map_and_store E m t) c)))"

lemma cache_sound_empty: "cache_sound E m sync_empty"
  by (simp add: cache_sound_def sync_memo.agrees_empty)

lemma map_and_store_correct:
  assumes "cache_sound E m c"
  shows "snd (map_and_store E m t c) = mapType E m t" and "cache_sound E m (fst (map_and_store E m t c))"
  using assms sync_memo.agrees_hit [of c "\<lambda>t sm. mapType E m t = Some sm" t]
  by (auto simp: map_and_store_def cache_sound_def sync_memo.agrees_store split: option.split)

lemma TypeMap_correct:
  assumes "flight_ok flight E m" and "cache_sound E m c"
  shows "snd (TypeMap flight E m c ty) = type_map E m ty" and "cache_sound E m (fst (TypeMap flight E m c ty))"
proof -
  have d: "(if kind_of ty = KPtr then Deref ty else ty) = Deref ty"
    by (cases "ptr_elem ty") (auto simp: Deref_def ptr_elem_kind [symmetric])
  have "snd (TypeMap flight E m c ty) = type_map E m ty \<and> cache_sound E m (fst (TypeMap flight E m c ty))"
  proof (cases "sync_load c (Deref ty)")
    case None
    with assms show ?thesis
      unfolding TypeMap_def type_map_def d Let_def
      by (auto simp: flight_ok_def) (metis map_and_store_correct(1))
  next
    case (Some sm)
    with assms(2) have "mapType E m (Deref ty) = Some sm"
      by (auto simp: cache_sound_def dest: sync_memo.agrees_hit)
    with Some assms(2) show ?thesis
      by (simp add: TypeMap_def type_map_def d Let_def)
  qed
  then show "snd (TypeMap flight E m c ty) = type_map E m ty"
    and "cache_sound E m (fst (TypeMap flight E m c ty))" by auto
qed

text \<open>Any number of calls, in order, on one mapper.\<close>

interpretation type_maps: pure_answers "TypeMap flight E m" "type_map E m" "\<lambda>c. flight_ok flight E m \<and> cache_sound E m c" for flight E m
  by unfold_locales (metis TypeMap_correct fst_conv snd_conv)

text \<open>
  The mapper's cache is transparent: starting from a new mapper, every call of \<open>TypeMap\<close> in
  any sequence of calls returns the map that \<open>mapType\<close> computes for the type (pointers
  dereferenced once), whether it was found in the cache, computed, or shared by \<open>singleflight\<close>.
\<close>

lemma TypeMap_transparent:
  assumes "flight_ok flight E m"
  shows "snd (run_ops (TypeMap flight E m) sync_empty ts) = map (\<lambda>t. mapType E m (Deref t)) ts"
  using type_maps.run_answers [of flight E m sync_empty ts] assms cache_sound_empty by (simp add: type_map_def)

lemma flight_run_ok: "flight_ok (\<lambda>t f. f) E m"
  using map_and_store_correct by (auto simp: flight_ok_def)

lemma TypeMap_transparent_witness:
  "snd (run_ops (TypeMap (\<lambda>t f. f) sample_types sample_mapper) sync_empty
      [TPtr (TStruct ''Person''), TStruct ''Person'', TBasic BInt]) =
   [Some sample_person, Some sample_person, Some empty_struct_map]"
  using TypeMap_transparent [OF flight_run_ok [of sample_types sample_mapper],
      of "[TPtr (TStruct ''Person''), TStruct ''Person'', TBasic BInt]"] sample_person
  by (simp add: Deref_def mapType_def)

subsection \<open>Lookups\<close>

definition TraversalsByName :: "tenv \<Rightarrow> mapper \<Rightarrow> gtype \<Rightarrow> string list \<Rightarrow> nat list option list option" where
  "TraversalsByName E m t names =
     map_option (\<lambda>tm. map (\<lambda>n. map_option fi_index (sm_names tm n)) names) (type_map E m t)"

definition FieldMap :: "tenv \<Rightarrow> mapper \<Rightarrow> gtype \<Rightarrow> (string \<Rightarrow> field_info option) option" where
  "FieldMap E m t = map_option sm_names (type_map E m t)"

text \<open>
  The callback changes a state of its own; an error (\<open>Err\<close>) stops the loop and is returned, a panic
  passes through.
\<close>

fun traverse_names ::
  "struct_map \<Rightarrow> (nat \<Rightarrow> nat list \<Rightarrow> 's \<Rightarrow> 's result) \<Rightarrow> nat \<Rightarrow> string list \<Rightarrow> 's \<Rightarrow> 's result" where
  "traverse_names tm fn i [] s = Ok s"
| "traverse_names tm fn i (n # ns) s =
     (case sm_names tm n of
        None \<Rightarrow>
          (case fn i [] s of
             Ok s' \<Rightarrow> traverse_names tm fn (Suc i) ns s'
           | r \<Rightarrow> r)
      | Some fi \<Rightarrow>
          (case fn i (fi_index fi) s of
             Ok s' \<Rightarrow> traverse_names tm fn (Suc i) ns s'
           | r \<Rightarrow> r))"

definition TraversalsByNameFunc ::
  "tenv \<Rightarrow> mapper \<Rightarrow> gtype \<Rightarrow> string list \<Rightarrow> (nat \<Rightarrow> nat list \<Rightarrow> 's \<Rightarrow> 's result) \<Rightarrow> 's \<Rightarrow> 's result" where
  "TraversalsByNameFunc E m t names fn s =
     (case type_map E m t of None \<Rightarrow> Panic | Some tm \<Rightarrow> traverse_names tm fn 0 names s)"

lemma traverse_names_collect:
  "traverse_names tm (\<lambda>i ix s. Ok (s @ [ix])) i names s =
     Ok (s @ map (\<lambda>n. case sm_names tm n of None \<Rightarrow> [] | Some fi \<Rightarrow> fi_index fi) names)"
  by (induction names arbitrary: i s) (auto split: option.split)

lemma type_map_index: "type_map E m t = Some tm \<Longrightarrow> sm_names tm n = Some fi \<Longrightarrow> fi_index fi \<noteq> []"
  using mapType_names_ok [of E m "Deref t" tm n fi] by (simp add: type_map_def info_ok_def)

text \<open>
  The two traversal lookups agree: a callback that collects the index paths
  \<open>TraversalsByNameFunc\<close> hands it gets, name by name, the ones of \<open>TraversalsByName\<close>, with the
  empty path exactly where the name is unknown.
\<close>

lemma TraversalsByName_agree:
  assumes "TraversalsByName E m t names = Some ixs"
  shows "TraversalsByNameFunc E m t names (\<lambda>i ix s. Ok (s @ [ix])) [] =
      Ok (map (\<lambda>x. case x of None \<Rightarrow> [] | Some ix \<Rightarrow> ix) ixs) \<and>
    Some [] \<notin> set ixs"
proof -
  from assms obtain tm where tm: "type_map E m t = Some tm"
      "ixs = map (\<lambda>n. map_option fi_index (sm_names tm n)) names"
    by (auto simp: TraversalsByName_def)
  have "fi_index fi \<noteq> []" if "sm_names tm n = Some fi" for n fi
    using type_map_index tm(1) that by blast
  then have "Some [] \<notin> set ixs" using tm(2) by (auto simp: eq_commute [of "Some []"])
  moreover have "map (\<lambda>x. case x of None \<Rightarrow> [] | Some ix \<Rightarrow> ix) ixs =
      map (\<lambda>n. case sm_names tm n of None \<Rightarrow> [] | Some fi \<Rightarrow> fi_index fi) names"
    using tm(2) by (auto split: option.split)
  ultimately show ?thesis
    using tm(1) by (simp add: TraversalsByNameFunc_def traverse_names_collect)
qed

lemma TraversalsByName_agree_witness:
  "TraversalsByNameFunc sample_types sample_mapper (TPtr (TStruct ''Person'')) [''zip'', ''nope'', ''id'']
     (\<lambda>i ix s. Ok (s @ [ix])) [] = Ok [[2, 1], [], [0, 0]]"
proof -
  have "TraversalsByName sample_types sample_mapper (TPtr (TStruct ''Person'')) [''zip'', ''nope'', ''id''] =
      Some [Some [2, 1], None, Some [0, 0]]" by code_simp
  from TraversalsByName_agree [OF this] show ?thesis by simp
qed

end
