(* ===== verification/Engine_Meta.thy ===== *)
theory Engine_Meta
  imports Reflectx_TypeMap "HOL-Library.Word" "HOL-Library.Multiset"
begin

unbundle bit_operations_syntax

text \<open>
  The column-to-field plan of \<open>engine.go\<close>: \<open>buildMeta\<close> turns the columns of a result set into one
  \<open>fieldMeta\<close> per column, sorts them by offset and caches them by type, FNV-1a hash of the columns
  and mode.  The reference is \<open>column_meta\<close>, the plan of one column.  The lemmas show the sort to be
  a permutation into descending order, and the cache to be right for programs with one mapper.
\<close>

subsection \<open>The plan\<close>

record field_meta =
  fm_traversal :: "step list option"
  fm_fieldType :: "gtype option"
  fm_offset :: nat
  fm_isPtrPath :: bool
  fm_colIndex :: nat

text \<open>\<open>hashColumns\<close>: 64-bit FNV-1a over the bytes of all columns, multiplication wrapping.\<close>

definition fnv_byte :: "64 word \<Rightarrow> char \<Rightarrow> 64 word" where
  "fnv_byte h c = (h XOR word_of_nat (of_char c)) * 1099511628211"

definition hashColumns :: "string list \<Rightarrow> 64 word" where
  "hashColumns cols = foldl (\<lambda>h col. foldl fnv_byte h col) 14695981039346656037 cols"

text \<open>The plan of one column; \<^const>\<open>None\<close> is the missing destination outside unsafe mode.\<close>

definition column_meta :: "struct_map \<Rightarrow> bool \<Rightarrow> nat \<Rightarrow> string \<Rightarrow> field_meta option" where
  "column_meta tm isUnsafe i col =
     (case sm_names tm col of
        Some fi \<Rightarrow>
          Some \<lparr>fm_traversal = Some (fi_traversal fi), fm_fieldType = Some (fi_target fi), fm_offset = fi_offset fi,
                fm_isPtrPath = fi_isptr fi, fm_colIndex = i\<rparr>
      | None \<Rightarrow>
          if \<not> isUnsafe then None
          else Some \<lparr>fm_traversal = None, fm_fieldType = None, fm_offset = 0, fm_isPtrPath = False, fm_colIndex = i\<rparr>)"

fun plan_columns :: "struct_map \<Rightarrow> bool \<Rightarrow> nat \<Rightarrow> string list \<Rightarrow> string + field_meta list" where
  "plan_columns tm isUnsafe i [] = Inr []"
| "plan_columns tm isUnsafe i (col # cols) =
     (case column_meta tm isUnsafe i col of
        None \<Rightarrow> Inl col
      | Some m \<Rightarrow>
          (case plan_columns tm isUnsafe (Suc i) cols of
             Inl c \<Rightarrow> Inl c
           | Inr ms \<Rightarrow> Inr (m # ms)))"

text \<open>\<open>sortByOffset\<close>: insertion sort by swaps; an element moves left past smaller offsets.\<close>

fun sift :: "field_meta list \<Rightarrow> nat \<Rightarrow> field_meta list" where
  "sift m 0 = m"
| "sift m (Suc j) =
     (if fm_offset (m ! j) < fm_offset (m ! Suc j)
      then sift (m[j := m ! Suc j, Suc j := m ! j]) j
      else m)"

definition sortByOffset :: "field_meta list \<Rightarrow> field_meta list" where
  "sortByOffset m = foldl sift m [1..<length m]"

subsection \<open>The cache\<close>

type_synonym meta_key = "gtype \<times> 64 word \<times> bool"

type_synonym meta_cache = "(meta_key, string list \<times> field_meta list) sync_map"

definition missing_destination :: "tenv \<Rightarrow> gtype \<Rightarrow> string \<Rightarrow> go_error" where
  "missing_destination E t col =
     Errorf ''sqlx: missing destination name %q in struct %s: %w'' [FStr col, FStr (type_name E t)]
       (Some (Sentinel ErrColumnNotFound))"

text \<open>The two halves of \<open>buildMeta\<close>: the look into the cache, whose columns are compared, and the plan that is stored.\<close>

definition cached_meta :: "meta_cache \<Rightarrow> gtype \<Rightarrow> string list \<Rightarrow> bool \<Rightarrow> field_meta list option" where
  "cached_meta c t columns isUnsafe =
     (case sync_load c (t, hashColumns columns, isUnsafe) of
        None \<Rightarrow> None
      | Some (cols, meta) \<Rightarrow>
          if length cols = length columns \<and> list_all (\<lambda>i. cols ! i = columns ! i) [0..<length columns]
          then Some meta else None)"

definition plan_and_store ::
  "tenv \<Rightarrow> meta_cache \<Rightarrow> gtype \<Rightarrow> string list \<Rightarrow> struct_map \<Rightarrow> bool \<Rightarrow> meta_cache \<times> field_meta list result" where
  "plan_and_store E c t columns tm isUnsafe =
     (case plan_columns tm isUnsafe 0 columns of
        Inl col \<Rightarrow> (c, Err [] (missing_destination E t col))
      | Inr meta \<Rightarrow>
          let sorted = sortByOffset meta
          in (sync_store c (t, hashColumns columns, isUnsafe) (columns, sorted), Ok sorted))"

definition buildMeta ::
  "tenv \<Rightarrow> meta_cache \<Rightarrow> gtype \<Rightarrow> string list \<Rightarrow> struct_map \<Rightarrow> bool \<Rightarrow> meta_cache \<times> field_meta list result" where
  "buildMeta E c t columns tm isUnsafe =
     (case cached_meta c t columns isUnsafe of
        Some meta \<Rightarrow> (c, Ok meta)
      | None \<Rightarrow> plan_and_store E c t columns tm isUnsafe)"

subsection \<open>The sort\<close>

lemma length_sift [simp]: "length (sift m j) = length m"
  by (induction m j rule: sift.induct) simp_all

lemma mset_swap: "i < length m \<Longrightarrow> j < length m \<Longrightarrow> mset (m[i := m ! j, j := m ! i]) = mset m"
  by (rule mset_swap)

lemma mset_sift: "j < length m \<Longrightarrow> mset (sift m j) = mset m"
proof (induction m j rule: sift.induct)
  case (2 m j)
  then show ?case by (simp add: mset_swap)
qed simp

text \<open>The part up to j is in order and so is the rest; only the element at j may be too far right.\<close>

definition desc :: "field_meta list \<Rightarrow> bool" where
  "desc m \<longleftrightarrow> sorted_wrt (\<lambda>a b. fm_offset b \<le> fm_offset a) m"

lemma desc_nth: "desc m \<longleftrightarrow> (\<forall>i j. i < j \<longrightarrow> j < length m \<longrightarrow> fm_offset (m ! j) \<le> fm_offset (m ! i))"
  by (auto simp: desc_def sorted_wrt_iff_nth_less)

definition sift_inv :: "field_meta list \<Rightarrow> nat \<Rightarrow> nat \<Rightarrow> bool" where
  "sift_inv m j k \<longleftrightarrow>
     (\<forall>a b. a < b \<longrightarrow> b < k \<longrightarrow> b \<noteq> j \<longrightarrow> fm_offset (m ! b) \<le> fm_offset (m ! a))"

lemma sift_desc:
  "sift_inv m j k \<Longrightarrow> j < k \<Longrightarrow> k \<le> length m \<Longrightarrow>
     (\<forall>a b. a < b \<longrightarrow> b < k \<longrightarrow> fm_offset (sift m j ! b) \<le> fm_offset (sift m j ! a)) \<and>
     (\<forall>i. k \<le> i \<longrightarrow> i < length m \<longrightarrow> sift m j ! i = m ! i)"
proof (induction m j rule: sift.induct)
  case (1 m)
  then show ?case by (auto simp: sift_inv_def)
next
  case (2 m j)
  show ?case
  proof (cases "fm_offset (m ! j) < fm_offset (m ! Suc j)")
    case False
    have "fm_offset (m ! b) \<le> fm_offset (m ! a)" if ab: "a < b" "b < k" for a b
    proof (cases "b = Suc j")
      case True
      then consider "a = j" | "a < j" using ab by linarith
      then show ?thesis
      proof cases
        case 1
        with True False show ?thesis by simp
      next
        case 2
        have "fm_offset (m ! j) \<le> fm_offset (m ! a)"
          using "2.prems"(1,2) 2 by (simp add: sift_inv_def)
        with True False show ?thesis by simp
      qed
    next
      case False
      with "2.prems"(1) ab show ?thesis by (simp add: sift_inv_def)
    qed
    with False show ?thesis by simp
  next
    case True
    let ?m = "m[j := m ! Suc j, Suc j := m ! j]"
    have old: "fm_offset (m ! b) \<le> fm_offset (m ! a)" if "a < b" "b < k" "b \<noteq> Suc j" for a b
      using "2.prems"(1) that by (simp add: sift_inv_def)
    have "sift_inv ?m j k"
      unfolding sift_inv_def
    proof (intro allI impI)
      fix a b assume ab: "a < b" "b < k" "b \<noteq> j"
      have len: "b < length m" "a < length m" "j < length m" "Suc j < length m" using ab "2.prems"(2,3) by auto
      consider "b = Suc j" "a = j" | "b = Suc j" "a < j" | "b < j" | "Suc j < b" "a = j" | "Suc j < b" "a \<noteq> j"
        using ab by linarith
      then show "fm_offset (?m ! b) \<le> fm_offset (?m ! a)"
      proof cases
        case 1 then show ?thesis using True len by simp
      next
        case 2 then show ?thesis using old [of a j] ab "2.prems"(2) len by simp
      next
        case 3 then show ?thesis using old [of a b] ab len by simp
      next
        case 4 then show ?thesis using old [of "Suc j" b] ab len by simp
      next
        case 5
        then show ?thesis
          using old [of a b] old [of j b] ab len by (cases "a = Suc j") simp_all
      qed
    qed
    then show ?thesis
      using True "2.IH" "2.prems"(2,3) by auto
  qed
qed

lemma sort_prefix:
  "n \<le> length m \<Longrightarrow> 0 < n \<Longrightarrow>
     (let s = foldl sift m [1..<n] in
      length s = length m \<and> mset s = mset m \<and>
      (\<forall>a b. a < b \<longrightarrow> b < n \<longrightarrow> fm_offset (s ! b) \<le> fm_offset (s ! a)))"
proof (induction n)
  case (Suc n)
  show ?case
  proof (cases "n = 0")
    case True
    then show ?thesis by simp
  next
    case False
    let ?s = "foldl sift m [1..<n]"
    have s: "length ?s = length m" "mset ?s = mset m"
        "\<forall>a b. a < b \<longrightarrow> b < n \<longrightarrow> fm_offset (?s ! b) \<le> fm_offset (?s ! a)"
      using Suc False by (simp_all add: Let_def)
    have "sift_inv ?s n (Suc n)" using s(3) by (auto simp: sift_inv_def less_Suc_eq)
    then have "\<forall>a b. a < b \<longrightarrow> b < Suc n \<longrightarrow> fm_offset (sift ?s n ! b) \<le> fm_offset (sift ?s n ! a)"
      using sift_desc [of ?s n "Suc n"] Suc.prems s(1) by simp
    with s Suc.prems False mset_sift [of n ?s] show ?thesis by simp
  qed
qed simp

lemma mset_sortByOffset [simp]: "mset (sortByOffset m) = mset m"
  using sort_prefix [of "length m" m] by (cases "m = []") (auto simp: sortByOffset_def Let_def)

lemma desc_sortByOffset: "desc (sortByOffset m)"
proof (cases "m = []")
  case False
  then show ?thesis
    using sort_prefix [of "length m" m] by (auto simp: sortByOffset_def Let_def desc_nth)
qed (simp add: sortByOffset_def desc_def)

text \<open>
  Sorting the plan is a permutation, so no column's entry is lost or doubled, and it orders the
  entries by descending offset: the largest offset is written first.
\<close>

lemma sortByOffset_permutes:
  "mset (sortByOffset m) = mset m \<and> sorted_wrt (\<lambda>a b. fm_offset b \<le> fm_offset a) (sortByOffset m)"
  using desc_sortByOffset [of m] by (simp add: desc_def)

subsection \<open>The plan, column by column\<close>

lemma plan_columns_Inr:
  "plan_columns tm u i cols = Inr ms \<Longrightarrow>
     length ms = length cols \<and> (\<forall>k < length cols. column_meta tm u (i + k) (cols ! k) = Some (ms ! k))"
proof (induction cols arbitrary: i ms)
  case (Cons col cols)
  then obtain m ms' where m: "column_meta tm u i col = Some m" "plan_columns tm u (Suc i) cols = Inr ms'" "ms = m # ms'"
    by (auto split: option.splits sum.splits)
  with Cons.IH [OF m(2)] show ?case by (auto simp: nth_Cons split: nat.split)
qed simp

lemma plan_columns_Inl:
  "plan_columns tm u i cols = Inl c \<Longrightarrow>
     \<not> u \<and> (\<exists>k < length cols. c = cols ! k \<and> sm_names tm c = None \<and> (\<forall>j < k. sm_names tm (cols ! j) \<noteq> None))"
proof (induction cols arbitrary: i)
  case (Cons col cols)
  show ?case
  proof (cases "column_meta tm u i col")
    case None
    then have "c = col" "sm_names tm col = None" "\<not> u"
      using Cons.prems by (auto simp: column_meta_def split: option.splits if_splits)
    then show ?thesis by (auto intro!: exI [of _ 0])
  next
    case (Some m)
    with Cons.prems have "plan_columns tm u (Suc i) cols = Inl c" by (auto split: sum.splits)
    from Cons.IH [OF this] obtain k where k: "\<not> u" "k < length cols" "c = cols ! k" "sm_names tm c = None"
        "\<forall>j < k. sm_names tm (cols ! j) \<noteq> None" by blast
    then have "sm_names tm col \<noteq> None" using Some by (auto simp: column_meta_def split: option.splits)
    with k show ?thesis
      by (intro conjI exI [of _ "Suc k"]) (auto simp: nth_Cons split: nat.split)
  qed
qed simp

text \<open>What \<open>buildMeta\<close> computes without its cache.\<close>

definition fresh_meta :: "tenv \<Rightarrow> gtype \<Rightarrow> string list \<Rightarrow> struct_map \<Rightarrow> bool \<Rightarrow> field_meta list result" where
  "fresh_meta E t columns tm isUnsafe =
     (case plan_columns tm isUnsafe 0 columns of
        Inl col \<Rightarrow> Err [] (missing_destination E t col)
      | Inr meta \<Rightarrow> Ok (sortByOffset meta))"

lemma set_sortByOffset [simp]: "set (sortByOffset m) = set m"
  using mset_eq_setD [OF mset_sortByOffset] .

lemma fresh_meta_OkD:
  assumes "fresh_meta E t columns tm isUnsafe = Ok meta" and "i < length columns"
  shows "\<exists>m \<in> set meta. column_meta tm isUnsafe i (columns ! i) = Some m"
proof -
  from assms(1) obtain ms where ms: "plan_columns tm isUnsafe 0 columns = Inr ms" "meta = sortByOffset ms"
    by (auto simp: fresh_meta_def split: sum.splits)
  from plan_columns_Inr [OF ms(1)] assms(2) ms(2) show ?thesis
    by (intro bexI [of _ "ms ! i"]) auto
qed

lemma column_meta_index: "column_meta tm u i col = Some m \<Longrightarrow> fm_colIndex m = i"
  by (auto simp: column_meta_def split: option.splits if_splits)

lemma column_meta_SomeD:
  "column_meta tm u i col = Some m \<Longrightarrow>
     fm_colIndex m = i \<and>
     (case sm_names tm col of
        Some fi \<Rightarrow> fm_traversal m = Some (fi_traversal fi) \<and> fm_fieldType m = Some (fi_target fi) \<and>
          fm_offset m = fi_offset fi \<and> fm_isPtrPath m = fi_isptr fi
      | None \<Rightarrow> u \<and> fm_traversal m = None)"
  by (auto simp: column_meta_def split: option.splits if_splits)

lemma fresh_meta_index:
  assumes "fresh_meta E t columns tm isUnsafe = Ok meta"
  shows "mset (map fm_colIndex meta) = mset [0..<length columns]"
proof -
  from assms obtain ms where ms: "plan_columns tm isUnsafe 0 columns = Inr ms" "meta = sortByOffset ms"
    by (auto simp: fresh_meta_def split: sum.splits)
  note p = plan_columns_Inr [OF ms(1)]
  have "map fm_colIndex ms = [0..<length columns]"
  proof (rule nth_equalityI)
    show "length (map fm_colIndex ms) = length [0..<length columns]" using p by simp
    fix i assume "i < length (map fm_colIndex ms)"
    then show "map fm_colIndex ms ! i = [0..<length columns] ! i"
      using p column_meta_index [of tm isUnsafe i "columns ! i" "ms ! i"] by auto
  qed
  then show ?thesis using ms(2) by (metis mset_map mset_sortByOffset)
qed

text \<open>
  C28. \<open>buildMeta\<close> plans every column exactly once: on success the plan's column indices are a
  permutation of all columns, the entry of a column with a field carries that field's traversal,
  target type and offset, and one without a field (unsafe mode only) is a discard slot; it fails
  with \<open>ErrColumnNotFound\<close> exactly outside unsafe mode when a column has no field.
\<close>

theorem fresh_meta_complete:
  "(case fresh_meta E t columns tm isUnsafe of
      Ok meta \<Rightarrow>
        mset (map fm_colIndex meta) = mset [0..<length columns] \<and>
        list_all (\<lambda>m. case sm_names tm (columns ! fm_colIndex m) of
            Some fi \<Rightarrow> fm_traversal m = Some (fi_traversal fi) \<and> fm_fieldType m = Some (fi_target fi) \<and>
              fm_offset m = fi_offset fi \<and> fm_isPtrPath m = fi_isptr fi
          | None \<Rightarrow> isUnsafe \<and> fm_traversal m = None) meta
    | Err _ e \<Rightarrow> \<not> isUnsafe \<and> list_ex (\<lambda>c. sm_names tm c = None \<and> e = missing_destination E t c) columns
    | Panic \<Rightarrow> False)"
proof (cases "plan_columns tm isUnsafe 0 columns")
  case (Inl c)
  with plan_columns_Inl [OF Inl] show ?thesis
    by (auto simp: fresh_meta_def list_ex_iff)
next
  case (Inr ms)
  note p = plan_columns_Inr [OF Inr]
  have f: "fresh_meta E t columns tm isUnsafe = Ok (sortByOffset ms)"
    using Inr by (simp add: fresh_meta_def)
  have "(case sm_names tm (columns ! fm_colIndex x) of
            Some fi \<Rightarrow> fm_traversal x = Some (fi_traversal fi) \<and> fm_fieldType x = Some (fi_target fi) \<and>
              fm_offset x = fi_offset fi \<and> fm_isPtrPath x = fi_isptr fi
          | None \<Rightarrow> isUnsafe \<and> fm_traversal x = None)" if "x \<in> set ms" for x
  proof -
    from that p obtain k where "k < length columns" "column_meta tm isUnsafe k (columns ! k) = Some x"
      by (metis add_0 in_set_conv_nth)
    with column_meta_SomeD [of tm isUnsafe k "columns ! k" x] show ?thesis by simp
  qed
  then show ?thesis
    using fresh_meta_index [OF f] by (simp add: f list_all_iff)
qed

subsection \<open>The cache is transparent for one mapper\<close>

definition meta_sound :: "tenv \<Rightarrow> mapper \<Rightarrow> meta_cache \<Rightarrow> bool" where
  "meta_sound E m c \<longleftrightarrow>
     sync_memo.agrees c (\<lambda>(t, h, u) (cols, meta). \<exists>tm. type_map E m t = Some tm \<and> fresh_meta E t cols tm u = Ok meta)"

lemma same_columns:
  "length cols = length columns \<and> list_all (\<lambda>i. cols ! i = columns ! i) [0..<length columns] \<longleftrightarrow> cols = columns"
  by (auto simp: list_all_iff intro: nth_equalityI)

lemma cached_meta_iff: "cached_meta c t columns u = Some meta \<longleftrightarrow> sync_load c (t, hashColumns columns, u) = Some (columns, meta)"
  unfolding cached_meta_def same_columns by (auto split: option.split)

lemma cached_meta_correct:
  assumes "meta_sound E m c" and "type_map E m t = Some tm" and "cached_meta c t columns u = Some meta"
  shows "fresh_meta E t columns tm u = Ok meta"
proof -
  have hit: "sync_load c (t, hashColumns columns, u) = Some (columns, meta)" using assms(3) by (simp add: cached_meta_iff)
  then show ?thesis using assms(1,2) sync_memo.agrees_hit [OF _ hit] by (fastforce simp: meta_sound_def)
qed

lemma plan_and_store_correct:
  assumes "meta_sound E m c" and "type_map E m t = Some tm"
  shows "snd (plan_and_store E c t columns tm u) = fresh_meta E t columns tm u \<and>
    meta_sound E m (fst (plan_and_store E c t columns tm u))"
proof (cases "plan_columns tm u 0 columns")
  case (Inl col)
  with assms(1) show ?thesis by (simp add: plan_and_store_def fresh_meta_def)
next
  case (Inr ms)
  then have "fresh_meta E t columns tm u = Ok (sortByOffset ms)" by (simp add: fresh_meta_def)
  with Inr assms show ?thesis by (simp add: plan_and_store_def Let_def meta_sound_def sync_memo.agrees_store)
qed

lemma buildMeta_correct:
  assumes "meta_sound E m c" and "type_map E m t = Some tm"
  shows "snd (buildMeta E c t columns tm u) = fresh_meta E t columns tm u \<and>
    meta_sound E m (fst (buildMeta E c t columns tm u))"
  using plan_and_store_correct [OF assms] cached_meta_correct [OF assms] assms(1)
  by (cases "cached_meta c t columns u") (simp_all add: buildMeta_def)

text \<open>A call of \<open>buildMeta\<close>: the type, the columns, the mode; its mapping is that of the one mapper.\<close>

type_synonym meta_call = "gtype \<times> string list \<times> bool"

text \<open>The result without a cache.\<close>

definition meta_spec :: "tenv \<Rightarrow> mapper \<Rightarrow> meta_call \<Rightarrow> field_meta list result" where
  "meta_spec E m q =
     (case q of (t, columns, u) \<Rightarrow>
        (case type_map E m t of None \<Rightarrow> Panic | Some tm \<Rightarrow> fresh_meta E t columns tm u))"

definition call_buildMeta :: "tenv \<Rightarrow> mapper \<Rightarrow> meta_cache \<Rightarrow> meta_call \<Rightarrow> meta_cache \<times> field_meta list result" where
  "call_buildMeta E m c q =
     (case q of (t, columns, u) \<Rightarrow>
        (case type_map E m t of None \<Rightarrow> (c, Panic) | Some tm \<Rightarrow> buildMeta E c t columns tm u))"

interpretation meta_calls: pure_answers "call_buildMeta E m" "meta_spec E m" "meta_sound E m" for E m
proof unfold_locales
  fix c q c1 r assume h: "meta_sound E m c" "call_buildMeta E m c q = (c1, r)"
  obtain t columns u where q: "q = (t, columns, u)" by (cases q)
  from h q buildMeta_correct [OF h(1), of t _ columns u] show "r = meta_spec E m q \<and> meta_sound E m c1"
    by (auto simp: call_buildMeta_def meta_spec_def split: option.splits)
qed

text \<open>
  In a program with one mapper the global plan cache is transparent: in every sequence of calls
  each gets exactly the plan or the error it would get without a cache, even when the hashes of
  different column lists collide.
\<close>

lemma buildMeta_transparent: "snd (run_ops (call_buildMeta E m) sync_empty calls) = map (meta_spec E m) calls"
  by (rule meta_calls.run_answers) (simp add: meta_sound_def sync_memo.agrees_empty)

lemma hashColumns_concat: "hashColumns cols = foldl fnv_byte 14695981039346656037 (concat cols)"
proof -
  have "foldl (\<lambda>h col. foldl fnv_byte h col) h cols = foldl fnv_byte h (concat cols)" for h
    by (induction cols arbitrary: h) simp_all
  then show ?thesis by (simp add: hashColumns_def)
qed

text \<open>
  The plan cache does not know the mapper: once one mapper has planned a type and its columns,
  every other mapper is given that plan, whatever it would map the columns to itself, the error
  for a column it does not know included.
\<close>

lemma buildMeta_ignores_mapper:
  assumes "buildMeta E c t columns tm1 u = (c1, Ok meta)"
  shows "buildMeta E c1 t columns tm2 u = (c1, Ok meta)"
proof -
  have "sync_load c1 (t, hashColumns columns, u) = Some (columns, meta)"
    using assms unfolding buildMeta_def cached_meta_def plan_and_store_def Let_def same_columns
    by (auto simp: sync_memo.load_store split: option.splits sum.splits if_splits)
  then show ?thesis unfolding buildMeta_def cached_meta_def Let_def same_columns by simp
qed

lemma buildMeta_ignores_mapper_witness:
  "\<exists>c1 meta. buildMeta sample_types sync_empty (TStruct ''Base'') [''id''] (the (type_map sample_types sample_mapper (TStruct ''Base''))) False = (c1, Ok meta) \<and>
     buildMeta sample_types c1 (TStruct ''Base'') [''id''] empty_struct_map False = (c1, Ok meta)"
proof -
  let ?call = "buildMeta sample_types sync_empty (TStruct ''Base'') [''id''] (the (type_map sample_types sample_mapper (TStruct ''Base''))) False"
  have "(case snd ?call of Ok ms \<Rightarrow> map fm_offset ms = [0] | _ \<Rightarrow> False)" by code_simp
  then obtain c1 meta where call: "?call = (c1, Ok meta)"
    by (cases ?call) (auto split: result.splits)
  from buildMeta_ignores_mapper [OF call, of empty_struct_map] call show ?thesis by blast
qed

lemma sample_type_map: "type_map sample_types sample_mapper (TStruct ''Person'') = Some sample_person"
  using sample_person by (simp add: type_map_def Deref_def)

end
