(* ===== verification/Reflect_Mem.thy ===== *)
theory Reflect_Mem
  imports Reflectx_TypeMap
begin

text \<open>
  Memory as the raw-address code sees it: blocks of a type, addresses inside them, and the pointer
  words stored there; \<open>AddrByTraversal\<close> of \<open>internal/reflectx/reflectx.go\<close> runs over it.
  \<open>obj_at\<close> says that an address holds an object of a type, whole or part of a block, and
  \<open>heap_ok\<close> that every pointer stored in such an object points to one of its element type.
\<close>

subsection \<open>Memory\<close>

datatype addr = Addr (blk: nat) (off: nat)

record memory =
  ptr_at :: "addr \<Rightarrow> addr option"
  block_type :: "nat \<Rightarrow> gtype option"
  next_block :: nat

definition add_offset :: "addr \<Rightarrow> nat \<Rightarrow> addr" where
  "add_offset a n = Addr (blk a) (off a + n)"

lemma add_offset_simps [simp]:
  "blk (add_offset a n) = blk a" "off (add_offset a n) = off a + n"
  "add_offset (add_offset a n) k = add_offset a (n + k)" "add_offset a 0 = a"
  by (simp_all add: add_offset_def)

text \<open>\<open>reflect.New\<close>: a new block, all zero.\<close>

definition reflect_New :: "gtype \<Rightarrow> memory \<Rightarrow> memory \<times> addr" where
  "reflect_New t mem =
     (mem\<lparr>ptr_at := (\<lambda>a. if blk a = next_block mem then None else ptr_at mem a),
          block_type := (block_type mem)(next_block mem \<mapsto> t),
          next_block := Suc (next_block mem)\<rparr>, Addr (next_block mem) 0)"

fun AddrByTraversal :: "memory \<Rightarrow> addr \<Rightarrow> step list \<Rightarrow> memory \<times> addr" where
  "AddrByTraversal mem ptr [] = (mem, ptr)"
| "AddrByTraversal mem ptr (st # steps) =
     (let p = add_offset ptr (step_offset st) in
      case step_type st of
        None \<Rightarrow> AddrByTraversal mem p steps
      | Some t \<Rightarrow>
          (case ptr_at mem p of
             Some q \<Rightarrow> AddrByTraversal mem q steps
           | None \<Rightarrow>
               (let (mem1, vp) = reflect_New t mem;
                    mem2 = mem1\<lparr>ptr_at := (ptr_at mem1)(p \<mapsto> vp)\<rparr>
                in AddrByTraversal mem2 vp steps)))"

text \<open>Following the same steps without allocating.\<close>

fun follow :: "memory \<Rightarrow> addr \<Rightarrow> step list \<Rightarrow> addr option" where
  "follow mem ptr [] = Some ptr"
| "follow mem ptr (st # steps) =
     (let p = add_offset ptr (step_offset st) in
      case step_type st of
        None \<Rightarrow> follow mem p steps
      | Some t \<Rightarrow> (case ptr_at mem p of None \<Rightarrow> None | Some q \<Rightarrow> follow mem q steps))"

lemma AddrByTraversal_direct:
  "\<not> has_ptr_step ss \<Longrightarrow>
     AddrByTraversal mem a ss = (mem, add_offset a (sum_list (map step_offset ss))) \<and>
     follow mem a ss = Some (add_offset a (sum_list (map step_offset ss)))"
  by (induction ss arbitrary: a) (auto simp: has_ptr_step_def)

lemma AddrByTraversal_follow: "follow mem a ss = Some b \<Longrightarrow> AddrByTraversal mem a ss = (mem, b)"
  by (induction mem a ss rule: follow.induct) (auto simp: Let_def split: option.splits)

subsection \<open>Parts of a block\<close>

fun inner :: "tenv \<Rightarrow> gtype \<Rightarrow> nat list \<Rightarrow> (nat \<times> gtype) option" where
  "inner E t [] = Some (0, t)"
| "inner E t (i # is) =
     (case t of
        TStruct s \<Rightarrow>
          (case struct_of E s of
             None \<Rightarrow> None
           | Some d \<Rightarrow>
               if i < length (sfields d) then
                 map_option (\<lambda>(k, t'). (foffset (sfields d ! i) + k, t')) (inner E (ftype (sfields d ! i)) is)
               else None)
      | _ \<Rightarrow> None)"

lemma inner_ConsE:
  assumes "inner E t (i # is) = Some (k, t')"
  obtains s d k' where "t = TStruct s" "struct_of E s = Some d" "i < length (sfields d)"
    "inner E (ftype (sfields d ! i)) is = Some (k', t')" "k = foffset (sfields d ! i) + k'"
  using assms by (auto split: gtype.splits option.splits if_splits)

lemma inner_bounds:
  assumes "layout_ok E" and "inner E t p = Some (k, t')"
  shows "k + size_of E t' \<le> size_of E t"
  using assms(2)
proof (induction p arbitrary: t k)
  case (Cons i p)
  then obtain s d k' where w: "t = TStruct s" "struct_of E s = Some d" "i < length (sfields d)"
      "inner E (ftype (sfields d ! i)) p = Some (k', t')" "k = foffset (sfields d ! i) + k'"
    by (elim inner_ConsE)
  with Cons.IH [OF w(4)] layout_ok_field [OF assms(1) w(2,3)] show ?case by simp
qed simp

lemma inner_append:
  "inner E t p = Some (k, t1) \<Longrightarrow> inner E t (p @ q) =
     map_option (\<lambda>(k', t2). (k + k', t2)) (inner E t1 q)"
proof (induction p arbitrary: t k)
  case Nil
  then show ?case by (cases "inner E t1 q") auto
next
  case (Cons i p)
  then obtain s d k' where w: "t = TStruct s" "struct_of E s = Some d" "i < length (sfields d)"
      "inner E (ftype (sfields d ! i)) p = Some (k', t1)" "k = foffset (sfields d ! i) + k'"
    by (elim inner_ConsE)
  with Cons.IH [OF w(4)] show ?case by (cases "inner E t1 q") auto
qed

lemma inner_disjoint:
  assumes lay: "layout_ok E" and "inner E t p = Some (o1, t1)" and "inner E t q = Some (o2, t2)" and "unrelated p q"
  shows "disjoint_parts o1 (size_of E t1) o2 (size_of E t2)"
  using assms(2-4)
proof (induction p arbitrary: t q o1 o2)
  case (Cons i p)
  then obtain j q' where q: "q = j # q'" by (cases q) auto
  obtain s d r where w: "t = TStruct s" "struct_of E s = Some d" "i < length (sfields d)"
      "inner E (ftype (sfields d ! i)) p = Some (r, t1)" "o1 = foffset (sfields d ! i) + r"
    using Cons.prems(1) by (elim inner_ConsE)
  obtain r' where w': "j < length (sfields d)"
      "inner E (ftype (sfields d ! j)) q' = Some (r', t2)" "o2 = foffset (sfields d ! j) + r'"
    using Cons.prems(2) w(1,2) q by (auto split: if_splits)
  note b = inner_bounds [OF lay w(4)] inner_bounds [OF lay w'(2)]
  consider "i < j" | "j < i" | "i = j" by linarith
  then show ?case
  proof cases
    case 1
    then show ?thesis using layout_ok_order [OF lay w(2) 1 w'(1)] b w w' by (simp add: disjoint_parts_def)
  next
    case 2
    then show ?thesis using layout_ok_order [OF lay w(2) 2 w(3)] b w w' by (simp add: disjoint_parts_def)
  next
    case 3
    then have "unrelated p q'" using Cons.prems(3) q by simp
    then show ?thesis using Cons.IH [OF w(4)] w'(2) 3 w(5) w'(3) by (auto simp: disjoint_parts_def)
  qed
qed simp

lemma size_of_ptr: "ptr_elem t = Some e \<Longrightarrow> size_of E t = 8"
  by (induction t) auto

lemma inner_ptr_Nil: "ptr_elem t = Some e \<Longrightarrow> inner E t p = Some r \<Longrightarrow> p = []"
  by (cases p) (auto split: gtype.splits)

text \<open>Two pointer parts of a block at one offset are the same part.\<close>

lemma inner_ptr_unique:
  assumes lay: "layout_ok E" and p: "inner E T p = Some (k, t)" and q: "inner E T q = Some (k, t')"
    and e: "ptr_elem t = Some e" and e': "ptr_elem t' = Some e'"
  shows "e = e'"
proof (cases "unrelated p q")
  case True
  with inner_disjoint [OF lay p q] size_of_ptr [OF e] size_of_ptr [OF e'] show ?thesis
    by (simp add: disjoint_parts_def)
next
  case False
  then consider r where "p = q @ r" | r where "q = p @ r"
    unfolding unrelated_def by (metis append_take_drop_id)
  then have "p = q"
  proof cases
    case 1
    with p inner_append [OF q, of r] obtain x where "inner E t' r = Some x" by auto
    with inner_ptr_Nil [OF e'] 1 show ?thesis by simp
  next
    case 2
    with q inner_append [OF p, of r] obtain x where "inner E t r = Some x" by auto
    with inner_ptr_Nil [OF e] 2 show ?thesis by simp
  qed
  with p q e e' show ?thesis by simp
qed

subsection \<open>Typed memory\<close>

definition obj_at :: "tenv \<Rightarrow> memory \<Rightarrow> addr \<Rightarrow> gtype \<Rightarrow> bool" where
  "obj_at E mem a t \<longleftrightarrow> (\<exists>T p. block_type mem (blk a) = Some T \<and> inner E T p = Some (off a, t))"

definition heap_ok :: "tenv \<Rightarrow> memory \<Rightarrow> bool" where
  "heap_ok E mem \<longleftrightarrow>
     (\<forall>a t e a'. obj_at E mem a t \<longrightarrow> ptr_elem t = Some e \<longrightarrow> ptr_at mem a = Some a' \<longrightarrow> obj_at E mem a' e) \<and>
     (\<forall>b. block_type mem b \<noteq> None \<longrightarrow> b < next_block mem) \<and>
     (\<forall>a. ptr_at mem a \<noteq> None \<longrightarrow> blk a < next_block mem)"

text \<open>Memory grows: blocks stay, pointers that were set stay.\<close>

definition mem_le :: "memory \<Rightarrow> memory \<Rightarrow> bool" where
  "mem_le mem mem' \<longleftrightarrow> block_type mem \<subseteq>\<^sub>m block_type mem' \<and> ptr_at mem \<subseteq>\<^sub>m ptr_at mem'"

lemma mem_le_refl [simp]: "mem_le mem mem"
  by (simp add: mem_le_def)

lemma mem_le_trans: "mem_le a b \<Longrightarrow> mem_le b c \<Longrightarrow> mem_le a c"
  by (auto simp: mem_le_def intro: map_le_trans)

lemma mem_leD:
  "mem_le mem mem' \<Longrightarrow> block_type mem b = Some T \<Longrightarrow> block_type mem' b = Some T"
  "mem_le mem mem' \<Longrightarrow> ptr_at mem a = Some p \<Longrightarrow> ptr_at mem' a = Some p"
  by (auto simp: mem_le_def map_le_def dom_def)

lemma obj_at_mono: "mem_le mem mem' \<Longrightarrow> obj_at E mem a t \<Longrightarrow> obj_at E mem' a t"
  by (auto simp: obj_at_def dest: mem_leD(1))

lemma follow_mono: "mem_le mem mem' \<Longrightarrow> follow mem a ss = Some b \<Longrightarrow> follow mem' a ss = Some b"
  by (induction mem a ss rule: follow.induct) (auto simp: Let_def split: option.splits dest: mem_leD(2))

lemma heap_okD:
  assumes "heap_ok E mem"
  shows "obj_at E mem a t \<Longrightarrow> ptr_elem t = Some e \<Longrightarrow> ptr_at mem a = Some a' \<Longrightarrow> obj_at E mem a' e"
    and "block_type mem b = Some T \<Longrightarrow> b < next_block mem"
    and "ptr_at mem a = Some a' \<Longrightarrow> blk a < next_block mem"
  using assms by (auto simp: heap_ok_def)

lemma obj_at_block: "heap_ok E mem \<Longrightarrow> obj_at E mem a t \<Longrightarrow> blk a < next_block mem"
  by (auto simp: obj_at_def dest: heap_okD(2))

lemma obj_at_field:
  assumes "obj_at E mem a (TStruct s)" and "struct_of E s = Some d" and "i < length (sfields d)"
  shows "obj_at E mem (add_offset a (foffset (sfields d ! i))) (ftype (sfields d ! i))"
proof -
  from assms(1) obtain T p where T: "block_type mem (blk a) = Some T" "inner E T p = Some (off a, TStruct s)"
    by (auto simp: obj_at_def)
  then have "inner E T (p @ [i]) = Some (off a + foffset (sfields d ! i), ftype (sfields d ! i))"
    using inner_append [OF T(2), of "[i]"] assms(2,3) by simp
  with T(1) show ?thesis by (auto simp: obj_at_def)
qed

lemma obj_at_bounds:
  assumes "layout_ok E" and "obj_at E mem a t"
  shows "\<exists>T. block_type mem (blk a) = Some T \<and> off a + size_of E t \<le> size_of E T"
  using assms inner_bounds by (fastforce simp: obj_at_def)

text \<open>Storing a new block's address in a nil pointer keeps memory typed.\<close>

lemma store_new:
  assumes lay: "layout_ok E" and ok: "heap_ok E mem" and a: "obj_at E mem a t" and e: "ptr_elem t = Some e"
    and nil: "ptr_at mem a = None" and new: "reflect_New e mem = (mem1, vp)"
    and mem2: "mem2 = mem1\<lparr>ptr_at := (ptr_at mem1)(a \<mapsto> vp)\<rparr>"
  shows "heap_ok E mem2 \<and> mem_le mem mem2 \<and> obj_at E mem2 vp e \<and> ptr_at mem2 a = Some vp"
proof -
  let ?b = "next_block mem"
  have old: "blk a < ?b" by (rule obj_at_block [OF ok a])
  have fresh: "ptr_at mem (Addr ?b n) = None" "block_type mem ?b = None" for n
    using heap_okD(2,3) [OF ok] by (metis addr.sel(1) less_irrefl not_Some_eq)+
  have m2: "block_type mem2 = (block_type mem)(?b \<mapsto> e)" "next_block mem2 = Suc ?b" "vp = (Addr ?b 0)"
      "ptr_at mem2 x = (if x = a then Some (Addr ?b 0) else ptr_at mem x)" for x
    using new mem2 old fresh(1) by (auto simp: reflect_New_def) (cases x, simp)
  have le: "mem_le mem mem2"
    using fresh nil m2(1,4) by (auto simp: mem_le_def map_le_def)
  have vp: "obj_at E mem2 vp e"
    by (auto simp: obj_at_def m2 intro!: exI [of _ "[]"])
  have "obj_at E mem2 x' e'" if x: "obj_at E mem2 x t'" "ptr_elem t' = Some e'" "ptr_at mem2 x = Some x'" for x t' e' x'
  proof (cases "x = a")
    case True
    from x(1) True old m2(1) have "obj_at E mem a t'" by (simp add: obj_at_def)
    then have "e' = e"
      using inner_ptr_unique [OF lay _ _ x(2) e] a by (auto simp: obj_at_def)
    with True x(3) m2(3,4) vp show ?thesis by simp
  next
    case False
    then have p: "ptr_at mem x = Some x'" using x(3) m2(4) by simp
    then have "blk x < ?b" by (rule heap_okD(3) [OF ok])
    then have "obj_at E mem x t'" using x(1) m2(1) by (simp add: obj_at_def)
    then have "obj_at E mem x' e'" by (rule heap_okD(1) [OF ok _ x(2) p])
    then show ?thesis by (rule obj_at_mono [OF le])
  qed
  moreover have "\<forall>b. block_type mem2 b \<noteq> None \<longrightarrow> b < next_block mem2"
    using ok m2(1,2) by (auto simp: heap_ok_def less_SucI)
  moreover have "\<forall>x. ptr_at mem2 x \<noteq> None \<longrightarrow> blk x < next_block mem2"
    using ok m2(2,4) old by (auto simp: heap_ok_def less_SucI)
  ultimately show ?thesis using le vp m2(3,4) by (auto simp: heap_ok_def)
qed

lemma traverse_ok:
  assumes lay: "layout_ok E" and "heap_ok E mem" and "obj_at E mem a t" and "walk E t ix = Some (ss, t')"
    and "AddrByTraversal mem a ss = (mem', b)"
  shows "heap_ok E mem' \<and> mem_le mem mem' \<and> obj_at E mem' b t' \<and> follow mem' a ss = Some b"
  using assms(2-5)
proof (induction ix arbitrary: mem a t ss)
  case (Cons i js)
  obtain s d ss' where w: "t = TStruct s" "struct_of E s = Some d" "i < length (sfields d)"
      "walk E (Deref (ftype (sfields d ! i))) js = Some (ss', t')" "ss = field_steps (sfields d ! i) @ ss'"
    using Cons.prems(3) by (elim walk_ConsE)
  let ?f = "sfields d ! i"
  let ?a = "add_offset a (foffset ?f)"
  have fld: "obj_at E mem ?a (ftype ?f)"
    using obj_at_field [OF _ w(2,3)] Cons.prems(2) w(1) by simp
  show ?case
  proof (cases "ptr_elem (ftype ?f)")
    case None
    then have st: "ss = \<lparr>step_offset = foffset ?f, step_type = None, step_ptr_type = None\<rparr> # ss'" and D: "Deref (ftype ?f) = ftype ?f"
      using w(5) by (simp_all add: field_steps_def Deref_def)
    then have "AddrByTraversal mem ?a ss' = (mem', b)" using Cons.prems(4) by simp
    from Cons.IH [OF Cons.prems(1) _ w(4) this] fld D st show ?thesis by simp
  next
    case (Some e)
    then have st: "ss = \<lparr>step_offset = foffset ?f, step_type = None, step_ptr_type = None\<rparr> #
          \<lparr>step_offset = 0, step_type = Some e, step_ptr_type = Some (TPtr e)\<rparr> # ss'" and D: "Deref (ftype ?f) = e"
      using w(5) by (simp_all add: field_steps_def Deref_def)
    show ?thesis
    proof (cases "ptr_at mem ?a")
      case nil: None
      obtain mem1 vp where new: "reflect_New e mem = (mem1, vp)" by (cases "reflect_New e mem")
      let ?mem2 = "mem1\<lparr>ptr_at := (ptr_at mem1)(?a \<mapsto> vp)\<rparr>"
      note sn = store_new [OF lay Cons.prems(1) fld Some nil new refl]
      have "AddrByTraversal ?mem2 vp ss' = (mem', b)"
        using Cons.prems(4) st nil new by simp
      from Cons.IH [OF _ _ w(4) this] sn D have
        ih: "heap_ok E mem' \<and> mem_le ?mem2 mem' \<and> obj_at E mem' b t' \<and> follow mem' vp ss' = Some b" by simp
      then have "ptr_at mem' ?a = Some vp" using sn mem_leD(2) by blast
      with ih sn st show ?thesis by (auto intro: mem_le_trans)
    next
      case set: (Some q)
      then have "obj_at E mem q e" by (intro heap_okD(1) [OF Cons.prems(1) fld Some])
      moreover have "AddrByTraversal mem q ss' = (mem', b)" using Cons.prems(4) st set by simp
      ultimately have ih: "heap_ok E mem' \<and> mem_le mem mem' \<and> obj_at E mem' b t' \<and> follow mem' q ss' = Some b"
        using Cons.IH [OF Cons.prems(1) _ w(4)] D by simp
      then have "ptr_at mem' ?a = Some q" using set mem_leD(2) by blast
      with ih st show ?thesis by simp
    qed
  qed
qed simp

subsection \<open>Properties\<close>

text \<open>
  \<open>AddrByTraversal\<close> is memory safe: from the address of an object of the mapped type, along the
  traversal the mapper gives for a name, it ends at an object of the field's type inside an
  allocated block, having only filled nil pointers with new blocks of the right type; running it
  again finds the same address and changes nothing.
\<close>

lemma AddrByTraversal_safe:
  assumes "layout_ok E" and "heap_ok E mem" and "mapType E m t = Some sm" and "sm_names sm k = Some fi"
    and "obj_at E mem base t" and "AddrByTraversal mem base (fi_traversal fi) = (mem', a)"
  shows "heap_ok E mem' \<and> mem_le mem mem' \<and> obj_at E mem' a (fi_target fi) \<and>
    (\<exists>T. block_type mem' (blk a) = Some T \<and> off a + size_of E (fi_target fi) \<le> size_of E T) \<and>
    AddrByTraversal mem' base (fi_traversal fi) = (mem', a)"
proof -
  have w: "walk E t (fi_index fi) = Some (fi_traversal fi, fi_target fi)"
    using mapType_names_ok [OF assms(3,4)] by (simp add: info_ok_def)
  note ok = traverse_ok [OF assms(1,2,5) w assms(6)]
  then show ?thesis
    using obj_at_bounds [OF assms(1)] AddrByTraversal_follow by blast
qed

text \<open>A heap with one new person.\<close>

definition empty_memory :: memory where
  "empty_memory = \<lparr>ptr_at = Map.empty, block_type = Map.empty, next_block = 0\<rparr>"

definition person_memory :: memory where
  "person_memory = fst (reflect_New (TStruct ''Person'') empty_memory)"

lemma empty_memory_ok: "heap_ok E empty_memory"
  by (simp add: heap_ok_def empty_memory_def)

lemma reflect_New_ok:
  assumes "heap_ok E mem" and "reflect_New t mem = (mem', a)"
  shows "heap_ok E mem' \<and> mem_le mem mem' \<and> obj_at E mem' a t"
proof -
  let ?b = "next_block mem"
  have fresh: "ptr_at mem (Addr ?b n) = None" "block_type mem ?b = None" for n
    using heap_okD(2,3) [OF assms(1)] by (metis addr.sel(1) less_irrefl not_Some_eq)+
  have m: "block_type mem' = (block_type mem)(?b \<mapsto> t)" "next_block mem' = Suc ?b" "a = Addr ?b 0"
      "ptr_at mem' x = ptr_at mem x" for x
    using assms(2) fresh(1) by (auto simp: reflect_New_def) (cases x, simp)
  have le: "mem_le mem mem'" using fresh m by (auto simp: mem_le_def map_le_def)
  have "obj_at E mem' x' e" if x: "obj_at E mem' x t'" "ptr_elem t' = Some e" "ptr_at mem' x = Some x'" for x t' e x'
  proof -
    have p: "ptr_at mem x = Some x'" using x(3) m(4) by simp
    then have "blk x < ?b" by (rule heap_okD(3) [OF assms(1)])
    then have "obj_at E mem x t'" using x(1) m(1) by (simp add: obj_at_def)
    from obj_at_mono [OF le heap_okD(1) [OF assms(1) this x(2) p]] show ?thesis .
  qed
  moreover have "\<forall>b. block_type mem' b \<noteq> None \<longrightarrow> b < next_block mem'"
    using heap_okD(2) [OF assms(1)] m(1,2) by (auto simp: less_SucI)
  moreover have "\<forall>x. ptr_at mem' x \<noteq> None \<longrightarrow> blk x < next_block mem'"
    using heap_okD(3) [OF assms(1)] m(2,4) by (auto simp: less_SucI)
  moreover have "obj_at E mem' a t"
    by (auto simp: obj_at_def m intro!: exI [of _ "[]"])
  ultimately show ?thesis using le by (auto simp: heap_ok_def)
qed

lemma person_memory_ok: "heap_ok E person_memory" "obj_at E person_memory (Addr 0 0) (TStruct ''Person'')"
  using reflect_New_ok [OF empty_memory_ok, of "TStruct ''Person''" person_memory "Addr 0 0" E]
  by (simp_all add: person_memory_def reflect_New_def empty_memory_def)

lemma AddrByTraversal_safe_witness:
  "\<exists>fi. sm_names sample_person ''zip'' = Some fi \<and>
    (case AddrByTraversal person_memory (Addr 0 0) (fi_traversal fi) of (mem', a) \<Rightarrow>
       a = Addr 1 0 \<and> ptr_at mem' (Addr 0 40) = Some (Addr 1 0) \<and>
       AddrByTraversal mem' (Addr 0 0) (fi_traversal fi) = (mem', a))"
proof -
  from sample_person_fields obtain fi where fi: "sm_names sample_person ''zip'' = Some fi" by auto
  obtain mem' a where call: "AddrByTraversal person_memory (Addr 0 0) (fi_traversal fi) = (mem', a)"
    by (cases "AddrByTraversal person_memory (Addr 0 0) (fi_traversal fi)")
  have lay: "layout_ok sample_types" by code_simp
  have "(case AddrByTraversal person_memory (Addr 0 0) (fi_traversal (the (sm_names sample_person ''zip''))) of
      (mem', a) \<Rightarrow> a = Addr 1 0 \<and> ptr_at mem' (Addr 0 40) = Some (Addr 1 0))"
    by code_simp
  with AddrByTraversal_safe [OF lay person_memory_ok(1) sample_person fi person_memory_ok(2) call] fi call
  show ?thesis by simp
qed

end
