(* ===== verification/Engine_Scan.thy ===== *)
theory Engine_Scan
  imports Engine_Meta Reflect_Mem
begin

text \<open>
  The row-processing loop of \<open>engine.go\<close>: the scan destinations (\<open>populateScanDest\<close> and the pool
  they come from), \<open>iterateScan\<close>, \<open>selectScan\<close> and \<open>getScan\<close>, over the memory of \<open>Reflect_Mem\<close> and a
  model of \<open>sql.Rows\<close> as \<open>database/sql\<close> documents it.  \<^const>\<open>None\<close> is a panic.
\<close>

subsection \<open>Scan destinations\<close>

text \<open>What an element of \<open>scanDest\<close> holds: a pointer to a field, or a pointer to a fresh \<open>any\<close>.\<close>

datatype scan_dest = DField addr gtype | DDiscard

fun populateScanDest ::
  "memory \<Rightarrow> addr \<Rightarrow> field_meta list \<Rightarrow> scan_dest option list \<Rightarrow> (memory \<times> scan_dest option list) option" where
  "populateScanDest mem base [] dests = Some (mem, dests)"
| "populateScanDest mem base (m # ms) dests =
     (case fm_traversal m of
        None \<Rightarrow>
          if length dests \<le> fm_colIndex m then None
          else populateScanDest mem base ms (dests[fm_colIndex m := Some DDiscard])
      | Some tr \<Rightarrow>
          (let (mem1, ptr) =
             (if fm_isPtrPath m then AddrByTraversal mem base tr else (mem, add_offset base (fm_offset m))) in
           case fm_fieldType m of
             None \<Rightarrow> None
           | Some ft \<Rightarrow>
               if length dests \<le> fm_colIndex m then None
               else populateScanDest mem1 base ms (dests[fm_colIndex m := Some (DField ptr ft)])))"

text \<open>
  The pool: its slices, each with the elements it shows and those between its length and its capacity, and the
  choices \<open>sync.Pool\<close> will make: each \<open>Get\<close> may hand out any of the slices, or make a new one, as the next choice says.
\<close>

type_synonym any_slice = "scan_dest option list \<times> scan_dest option list"

type_synonym scan_pool = "(nat \<Rightarrow> nat) \<times> any_slice list"

definition pool_Get :: "scan_pool \<Rightarrow> scan_pool \<times> any_slice" where
  "pool_Get pool =
     (let (picks, slices) = pool; pick = picks 0; later = (\<lambda>i. picks (Suc i)) in
      if pick < length slices then ((later, take pick slices @ drop (Suc pick) slices), slices ! pick)
      else ((later, slices), ([], [])))"

definition getScanDest :: "scan_pool \<Rightarrow> nat \<Rightarrow> scan_pool \<times> any_slice" where
  "getScanDest pool n =
     (let (pool1, s) = pool_Get pool; buf = fst s @ snd s in
      if length buf < n then (pool1, (replicate n None, []))
      else (pool1, (take n buf, drop n buf)))"

definition putScanDest :: "any_slice \<Rightarrow> scan_pool \<Rightarrow> scan_pool" where
  "putScanDest s pool = (fst pool, snd pool @ [(replicate (length (fst s @ snd s)) None, [])])"

subsection \<open>\<open>sql.Rows\<close>\<close>

text \<open>
  The rows the driver will deliver, the row \<open>Next\<close> made current, the error that ends the
  iteration, if any, and the one \<open>Close\<close> reports on a result set not read to its end.
\<close>

record sql_rows =
  rs_columns :: "string list"
  rs_pending :: "gval list list"
  rs_current :: "gval list option"
  rs_err :: "go_error option"
  rs_close_err :: "go_error option"
  rs_closed :: bool
  rs_ended :: bool

definition rows_Columns :: "sql_rows \<Rightarrow> string list result" where
  "rows_Columns r = (if rs_closed r then Err [] (Foreign ''sql: Rows are closed'') else Ok (rs_columns r))"

definition rows_Next :: "sql_rows \<Rightarrow> sql_rows \<times> bool" where
  "rows_Next r =
     (if rs_closed r then (r, False)
      else case rs_pending r of
        [] \<Rightarrow> (r\<lparr>rs_current := None, rs_closed := True, rs_ended := True\<rparr>, False)
      | row # rest \<Rightarrow> (r\<lparr>rs_pending := rest, rs_current := Some row\<rparr>, True))"

definition rows_Err :: "sql_rows \<Rightarrow> go_error option" where
  "rows_Err r = (if rs_ended r then rs_err r else None)"

definition rows_Close :: "sql_rows \<Rightarrow> sql_rows \<times> go_error option" where
  "rows_Close r = (if rs_closed r then (r, None) else (r\<lparr>rs_closed := True\<rparr>, rs_close_err r))"

text \<open>
  \<open>Scan\<close>: each value is converted for its destination, by \<open>conv t v\<close> for a destination of type \<open>t\<close>,
  and stored; the first failure stops, after the stores before it.
\<close>

type_synonym conv = "gtype \<Rightarrow> gval \<Rightarrow> go_error + gval"

type_synonym vals = "addr \<Rightarrow> gval option"

fun scan_columns ::
  "conv \<Rightarrow> nat \<Rightarrow> scan_dest option list \<Rightarrow> gval list \<Rightarrow> vals \<Rightarrow> vals \<times> go_error option" where
  "scan_columns conv i (d # ds) (v # vs) vals =
     (case d of
        None \<Rightarrow> (vals, Some (Errorf ''sql: Scan error on column index %d, name %q: %w'' [FInt (int i)]
                  (Some (Foreign ''destination not a pointer''))))
      | Some DDiscard \<Rightarrow> scan_columns conv (Suc i) ds vs vals
      | Some (DField a t) \<Rightarrow>
          (case conv t v of
             Inl e \<Rightarrow> (vals, Some (Errorf ''sql: Scan error on column index %d, name %q: %w'' [FInt (int i)] (Some e)))
           | Inr x \<Rightarrow> scan_columns conv (Suc i) ds vs (vals(a \<mapsto> x))))"
| "scan_columns conv i _ _ vals = (vals, None)"

definition rows_Scan ::
  "conv \<Rightarrow> sql_rows \<Rightarrow> scan_dest option list \<Rightarrow> vals \<Rightarrow> vals \<times> go_error option" where
  "rows_Scan conv r dests vals =
     (if rs_closed r then (vals, Some (Foreign ''sql: Rows are closed''))
      else case rs_current r of
        None \<Rightarrow> (vals, Some (Foreign ''sql: Scan called without calling Next''))
      | Some row \<Rightarrow>
          if length dests \<noteq> length row then
            (vals, Some (Errorf ''sql: expected %d destination arguments in Scan, not %d''
               [FInt (int (length row)), FInt (int (length dests))] None))
          else scan_columns conv 0 dests row vals)"

subsection \<open>The loop\<close>

fun scannable_kind :: "kind \<Rightarrow> bool" where
  "scannable_kind (KBasic b) = (b \<notin> {BUintptr, BComplex64, BComplex128})"
| "scannable_kind _ = False"

definition isScannable :: "tenv \<Rightarrow> gtype \<Rightarrow> bool" where
  "isScannable E t0 =
     (let t = (if kind_of t0 = KPtr then Deref t0 else t0) in
      if scannable_kind (kind_of t) then True
      else if kind_of t = KSlice \<and> (case slice_elem t of None \<Rightarrow> False | Some e \<Rightarrow> kind_of e = KBasic BUint8) then True
      else if implements_scanner E t \<or> implements_scanner E (TPtr t) then True
      else False)"

text \<open>
  \<open>for rows.Next() { ... }\<close> with the body \<open>one\<close>, which works on the current row and the state and
  may return an error; \<open>ErrStopIter\<close>, compared by identity, ends the loop without one.
\<close>

function scan_loop ::
  "(sql_rows \<Rightarrow> 'st \<Rightarrow> ('st \<times> go_error option) option) \<Rightarrow> sql_rows \<Rightarrow> 'st \<Rightarrow>
   (sql_rows \<times> 'st \<times> go_error option) option" where
  "scan_loop one rows st =
     (case rows_Next rows of
        (rows1, ok) \<Rightarrow>
          if \<not> ok then Some (rows1, st, rows_Err rows1)
          else (case one rows1 st of
             None \<Rightarrow> None
           | Some (st1, Some e) \<Rightarrow> Some (rows1, st1, if e = Sentinel ErrStopIter then None else Some e)
           | Some (st1, None) \<Rightarrow> scan_loop one rows1 st1))"
  by pat_completeness auto
termination
  by (relation "measure (\<lambda>(one, rows, st). length (rs_pending rows))")
    (auto simp: rows_Next_def split: if_splits list.splits)

declare scan_loop.simps [simp del]

text \<open>The state of a scan: memory, the values stored so far, the destinations, and the caller's own.\<close>

type_synonym 's scan_state = "memory \<times> vals \<times> scan_dest option list \<times> 's"

type_synonym alloc = "memory \<Rightarrow> memory \<times> addr"

type_synonym 's yield = "addr \<Rightarrow> 's \<Rightarrow> 's \<times> go_error option"

definition scan_value ::
  "conv \<Rightarrow> gtype \<Rightarrow> alloc \<Rightarrow> 's yield \<Rightarrow> sql_rows \<Rightarrow> 's scan_state \<Rightarrow> ('s scan_state \<times> go_error option) option" where
  "scan_value conv elemType alloc yield rows st =
     (case st of (mem, vals, dests, s) \<Rightarrow>
        let (mem1, vp) = alloc mem;
            (vals1, err) = rows_Scan conv rows [Some (DField vp elemType)] vals in
        (case err of
          Some e \<Rightarrow> Some ((mem1, vals1, dests, s), Some (Errorf ''sqlx: scannable scan error: %w'' [] (Some e)))
        | None \<Rightarrow> let (s1, e) = yield vp s in Some ((mem1, vals1, dests, s1), e)))"

definition scan_struct ::
  "conv \<Rightarrow> field_meta list \<Rightarrow> alloc \<Rightarrow> 's yield \<Rightarrow> sql_rows \<Rightarrow> 's scan_state \<Rightarrow> ('s scan_state \<times> go_error option) option" where
  "scan_struct conv meta alloc yield rows st =
     (case st of (mem, vals, dests, s) \<Rightarrow>
        let (mem1, vp) = alloc mem in
        (case populateScanDest mem1 vp meta dests of
          None \<Rightarrow> None
        | Some (mem2, dests1) \<Rightarrow>
            let (vals1, err) = rows_Scan conv rows dests1 vals in
            (case err of
               Some e \<Rightarrow> Some ((mem2, vals1, dests1, s), Some (Errorf ''sqlx: struct scan error: %w'' [] (Some e)))
             | None \<Rightarrow> let (s1, e) = yield vp s in Some ((mem2, vals1, dests1, s1), e))))"

text \<open>The globals a scan uses: the plan cache and the pool.\<close>

record engine =
  en_metaCache :: meta_cache
  en_pool :: scan_pool

text \<open>The deferred \<open>Close\<close>: its error is returned when there is no other.\<close>

definition close_rows :: "sql_rows \<Rightarrow> go_error option \<Rightarrow> sql_rows \<times> go_error option" where
  "close_rows rows err =
     (let (rows1, cerr) = rows_Close rows in (rows1, case err of Some e \<Rightarrow> Some e | None \<Rightarrow> cerr))"

text \<open>\<open>mapper.TypeMap\<close> where \<open>mapper\<close> may be nil: its first use of the receiver panics.\<close>

definition nil_TypeMap :: "tenv \<Rightarrow> mapper option \<Rightarrow> gtype \<Rightarrow> struct_map option" where
  "nil_TypeMap E m t = Option.bind m (\<lambda>m. type_map E m t)"

definition iterate_body ::
  "tenv \<Rightarrow> conv \<Rightarrow> engine \<Rightarrow> sql_rows \<Rightarrow> gtype \<Rightarrow> bool \<Rightarrow> bool \<Rightarrow> mapper option \<Rightarrow> alloc \<Rightarrow> 's yield \<Rightarrow>
   memory \<Rightarrow> vals \<Rightarrow> 's \<Rightarrow> (engine \<times> sql_rows \<times> memory \<times> vals \<times> 's \<times> go_error option) option" where
  "iterate_body E conv en rows elemType isUnsafe strictTagParsing m alloc yield mem vals s =
     (case rows_Columns rows of
        Panic \<Rightarrow> None
      | Err _ e \<Rightarrow> Some (en, rows, mem, vals, s, Some (Errorf ''sqlx: error getting columns: %w'' [] (Some e)))
      | Ok columns \<Rightarrow>
          if isScannable E elemType then
            (if length columns \<noteq> 1 then
               Some (en, rows, mem, vals, s,
                 Some (Errorf ''sqlx: scannable dest type %s with >1 columns (%d)''
                   [FStr (type_string elemType), FInt (int (length columns))] None))
             else
               (case scan_loop (scan_value conv elemType alloc yield) rows (mem, vals, [], s) of
                  None \<Rightarrow> None
                | Some (rows1, (mem1, vals1, _, s1), err) \<Rightarrow> Some (en, rows1, mem1, vals1, s1, err)))
          else
            (case nil_TypeMap E m elemType of
               None \<Rightarrow> None
             | Some tm \<Rightarrow>
                 if strictTagParsing \<and> sm_errors tm \<noteq> [] then
                   Some (en, rows, mem, vals, s, Some (Errorf ''sqlx: strict tag error: %w'' [] (Some (hd (sm_errors tm)))))
                 else
                   (case buildMeta E (en_metaCache en) elemType columns tm isUnsafe of
                      (c1, Panic) \<Rightarrow> None
                    | (c1, Err _ e) \<Rightarrow>
                        Some (en\<lparr>en_metaCache := c1\<rparr>, rows, mem, vals, s,
                          Some (Errorf ''sqlx: error building meta: %w'' [] (Some e)))
                    | (c1, Ok meta) \<Rightarrow>
                        let (pool1, scanDest) = getScanDest (en_pool en) (length columns) in
                        (case scan_loop (scan_struct conv meta alloc yield) rows (mem, vals, fst scanDest, s) of
                           None \<Rightarrow> None
                         | Some (rows1, (mem1, vals1, dests1, s1), err) \<Rightarrow>
                             Some (en\<lparr>en_metaCache := c1, en_pool := putScanDest (dests1, snd scanDest) pool1\<rparr>,
                               rows1, mem1, vals1, s1, err)))))"

definition iterateScan ::
  "tenv \<Rightarrow> conv \<Rightarrow> engine \<Rightarrow> sql_rows \<Rightarrow> gtype \<Rightarrow> bool \<Rightarrow> bool \<Rightarrow> mapper option \<Rightarrow> alloc \<Rightarrow> 's yield \<Rightarrow>
   memory \<Rightarrow> vals \<Rightarrow> 's \<Rightarrow> (engine \<times> sql_rows \<times> memory \<times> vals \<times> 's \<times> go_error option) option" where
  "iterateScan E conv en rows elemType isUnsafe strictTagParsing m alloc yield mem vals s =
     (case iterate_body E conv en rows elemType isUnsafe strictTagParsing m alloc yield mem vals s of
        None \<Rightarrow> None
      | Some (en1, rows1, mem1, vals1, s1, err) \<Rightarrow>
          (case close_rows rows1 err of
             (rows2, err2) \<Rightarrow> Some (en1, rows2, mem1, vals1, s1, err2)))"

subsection \<open>\<open>selectScan\<close> and \<open>getScan\<close>\<close>

text \<open>
  A \<open>dest any\<close> that is a pointer: its type, and whether it is nil.  The elements of the slice it points to
  are the rows' objects themselves or copies of them.
\<close>

datatype slice_item = ItemPtr addr | ItemCopy addr

definition not_pointer_error :: "string \<Rightarrow> gtype \<Rightarrow> sql_rows \<Rightarrow> sql_rows \<times> go_error" where
  "not_pointer_error what t rows =
     (let (rows1, cerr) = rows_Close rows in
      (rows1, case cerr of
         Some c \<Rightarrow> Errorf (what @ '', got %T; close error: %v'') [FStr (type_string t), FErr c] None
       | None \<Rightarrow> Errorf (what @ '', got %T'') [FStr (type_string t)] None))"

definition selectScan ::
  "tenv \<Rightarrow> conv \<Rightarrow> engine \<Rightarrow> sql_rows \<Rightarrow> gtype \<Rightarrow> bool \<Rightarrow> bool \<Rightarrow> bool \<Rightarrow> mapper option \<Rightarrow>
   memory \<Rightarrow> vals \<Rightarrow> slice_item list \<Rightarrow>
   (engine \<times> sql_rows \<times> memory \<times> vals \<times> slice_item list \<times> go_error option) option" where
  "selectScan E conv en rows destType isNil isUnsafe strictTagParsing m mem vals elems =
     (case (if isNil then None else Option.bind (ptr_elem destType) slice_elem) of
        None \<Rightarrow>
          (case not_pointer_error ''sqlx: dest must be a pointer to a slice'' destType rows of
             (rows1, e) \<Rightarrow> Some (en, rows1, mem, vals, elems, Some e))
      | Some et \<Rightarrow>
          (let isPtr = (kind_of et = KPtr);
               elemType = (if isPtr then Deref et else et)
           in iterateScan E conv en rows elemType isUnsafe strictTagParsing m (reflect_New elemType)
                (\<lambda>vp s. (s @ [if isPtr then ItemPtr vp else ItemCopy vp], None)) mem vals elems))"

definition getScan ::
  "tenv \<Rightarrow> conv \<Rightarrow> engine \<Rightarrow> sql_rows \<Rightarrow> gtype \<Rightarrow> addr \<Rightarrow> bool \<Rightarrow> bool \<Rightarrow> mapper option \<Rightarrow> memory \<Rightarrow> vals \<Rightarrow>
   (engine \<times> sql_rows \<times> memory \<times> vals \<times> go_error option) option" where
  "getScan E conv en rows destType dest isUnsafe strictTagParsing m mem vals =
     (case ptr_elem destType of
        None \<Rightarrow>
          (case not_pointer_error ''sqlx: dest must be a pointer'' destType rows of
             (rows1, e) \<Rightarrow> Some (en, rows1, mem, vals, Some e))
      | Some elemType \<Rightarrow>
          (case iterateScan E conv en rows elemType isUnsafe strictTagParsing m (\<lambda>mem. (mem, dest))
                  (\<lambda>vp found. (True, Some (Sentinel ErrStopIter))) mem vals False of
             None \<Rightarrow> None
           | Some (en1, rows1, mem1, vals1, found, err) \<Rightarrow>
               Some (en1, rows1, mem1, vals1,
                 case err of Some e \<Rightarrow> Some e
                 | None \<Rightarrow> if \<not> found then Some (Sentinel ErrNoRows) else None)))"

subsection \<open>Rows are closed\<close>

lemma close_rows_closed: "rs_closed (fst (close_rows rows err))"
  by (auto simp: close_rows_def rows_Close_def)

lemma iterateScan_closed:
  "iterateScan E conv en rows t u st m alloc yield mem vals s = Some (en1, rows1, mem1, vals1, s1, err) \<Longrightarrow> rs_closed rows1"
  using close_rows_closed
  by (auto simp: iterateScan_def split: option.splits prod.splits) (metis fst_conv)

lemma not_pointer_error_closed: "rs_closed (fst (not_pointer_error what t rows))"
  by (auto simp: not_pointer_error_def rows_Close_def)

text \<open>
  C18. No result set is leaked: whenever \<open>selectScan\<close> or \<open>getScan\<close> returns, with or without an error, on
  a destination of the wrong kind included, the rows have been closed.
\<close>

theorem scans_close_rows:
  "(case selectScan E conv en rows destType isNil u st m mem vals elems of
      None \<Rightarrow> True | Some (en1, rows1, _) \<Rightarrow> rs_closed rows1) \<and>
   (case getScan E conv en rows destType dest u st m mem vals of
      None \<Rightarrow> True | Some (en1, rows1, _) \<Rightarrow> rs_closed rows1)"
proof
  show "case selectScan E conv en rows destType isNil u st m mem vals elems of
      None \<Rightarrow> True | Some (en1, rows1, _) \<Rightarrow> rs_closed rows1"
  proof (cases "if isNil then None else Option.bind (ptr_elem destType) slice_elem")
    case None
    then show ?thesis
      using not_pointer_error_closed [of "''sqlx: dest must be a pointer to a slice''" destType rows]
      by (simp add: selectScan_def case_prod_unfold)
  next
    case (Some et)
    then show ?thesis
      by (auto simp: selectScan_def Let_def split: option.split dest: iterateScan_closed)
  qed
  show "case getScan E conv en rows destType dest u st m mem vals of
      None \<Rightarrow> True | Some (en1, rows1, _) \<Rightarrow> rs_closed rows1"
  proof (cases "ptr_elem destType")
    case None
    then show ?thesis
      using not_pointer_error_closed [of "''sqlx: dest must be a pointer''" destType rows]
      by (simp add: getScan_def case_prod_unfold)
  next
    case (Some et)
    then show ?thesis
      by (auto simp: getScan_def split: option.split dest: iterateScan_closed)
  qed
qed

subsection \<open>Destinations are safe\<close>

text \<open>An entry of the plan that describes a field of the type scanned into, or a discard slot.\<close>

definition meta_ok :: "tenv \<Rightarrow> gtype \<Rightarrow> field_meta \<Rightarrow> bool" where
  "meta_ok E t m \<longleftrightarrow>
     (case fm_traversal m of
        None \<Rightarrow> True
      | Some tr \<Rightarrow>
          (\<exists>ix ft. fm_fieldType m = Some ft \<and> walk E t ix = Some (tr, ft)) \<and>
          (fm_isPtrPath m \<longleftrightarrow> has_ptr_step tr) \<and>
          (\<not> fm_isPtrPath m \<longrightarrow> fm_offset m = sum_list (map step_offset tr)))"

text \<open>
  What a destination must be: the address the field's traversal leads to, holding an object of
  the field's type, or a discard slot.
\<close>

definition dest_ok :: "tenv \<Rightarrow> memory \<Rightarrow> addr \<Rightarrow> field_meta \<Rightarrow> scan_dest option \<Rightarrow> bool" where
  "dest_ok E mem base m d \<longleftrightarrow>
     (case fm_traversal m of
        None \<Rightarrow> d = Some DDiscard
      | Some tr \<Rightarrow> (\<exists>a ft. fm_fieldType m = Some ft \<and> d = Some (DField a ft) \<and> obj_at E mem a ft \<and>
          follow mem base tr = Some a))"

lemma dest_ok_mono: "mem_le mem mem' \<Longrightarrow> dest_ok E mem base m d \<Longrightarrow> dest_ok E mem' base m d"
  by (auto simp: dest_ok_def split: option.splits dest: obj_at_mono follow_mono)

text \<open>The address of one entry, by either way.\<close>

lemma field_address:
  assumes "layout_ok E" and "heap_ok E mem" and "obj_at E mem base t" and "meta_ok E t m"
    and "fm_traversal m = Some tr"
    and "(if fm_isPtrPath m then AddrByTraversal mem base tr else (mem, add_offset base (fm_offset m))) = (mem1, a)"
  obtains ft where "fm_fieldType m = Some ft" "heap_ok E mem1" "mem_le mem mem1" "dest_ok E mem1 base m (Some (DField a ft))"
proof -
  from assms(4,5) obtain ix ft where w: "fm_fieldType m = Some ft" "walk E t ix = Some (tr, ft)"
      "fm_isPtrPath m \<longleftrightarrow> has_ptr_step tr" "\<not> fm_isPtrPath m \<longrightarrow> fm_offset m = sum_list (map step_offset tr)"
    by (auto simp: meta_ok_def)
  have "AddrByTraversal mem base tr = (mem1, a)"
    using assms(6) w(3,4) AddrByTraversal_direct [of tr mem base] by (cases "has_ptr_step tr") auto
  from traverse_ok [OF assms(1-3) w(2) this] that w(1) assms(5) show thesis
    by (auto simp: dest_ok_def)
qed

lemma populate_ok:
  assumes lay: "layout_ok E" and "heap_ok E mem" and "obj_at E mem base t" and "\<forall>m \<in> set ms. meta_ok E t m"
    and "\<forall>m \<in> set ms. fm_colIndex m < length dests" and "distinct (map fm_colIndex ms)"
  shows "\<exists>mem' dests'. populateScanDest mem base ms dests = Some (mem', dests') \<and> heap_ok E mem' \<and> mem_le mem mem' \<and>
    length dests' = length dests \<and> (\<forall>m \<in> set ms. dest_ok E mem' base m (dests' ! fm_colIndex m)) \<and>
    (\<forall>i. i \<notin> fm_colIndex ` set ms \<longrightarrow> dests' ! i = dests ! i)"
  using assms(2-6)
proof (induction ms arbitrary: mem dests)
  case (Cons m ms)
  let ?i = "fm_colIndex m"
  have i: "?i < length dests" "?i \<notin> fm_colIndex ` set ms" using Cons.prems by auto
  have step: "\<exists>mem' dests'. populateScanDest mem1 base ms (dests[?i := d]) = Some (mem', dests') \<and> heap_ok E mem' \<and>
      mem_le mem mem' \<and> length dests' = length dests \<and>
      (\<forall>m' \<in> set (m # ms). dest_ok E mem' base m' (dests' ! fm_colIndex m')) \<and>
      (\<forall>j. j \<notin> fm_colIndex ` set (m # ms) \<longrightarrow> dests' ! j = dests ! j)"
    if d: "heap_ok E mem1" "mem_le mem mem1" "dest_ok E mem1 base m d" for mem1 d
  proof -
    have "obj_at E mem1 base t" by (rule obj_at_mono [OF d(2) Cons.prems(2)])
    from Cons.IH [OF d(1) this, of "dests[?i := d]"] Cons.prems obtain mem' dests' where
        p: "populateScanDest mem1 base ms (dests[?i := d]) = Some (mem', dests')" "heap_ok E mem'" "mem_le mem1 mem'"
          "length dests' = length dests" "\<forall>m \<in> set ms. dest_ok E mem' base m (dests' ! fm_colIndex m)"
          "\<forall>j. j \<notin> fm_colIndex ` set ms \<longrightarrow> dests' ! j = dests[?i := d] ! j"
      by auto
    have "dests' ! ?i = d" using p(6) i by simp
    then have "dest_ok E mem' base m (dests' ! ?i)" using dest_ok_mono [OF p(3) d(3)] by simp
    moreover have "mem_le mem mem'" by (rule mem_le_trans [OF d(2) p(3)])
    ultimately show ?thesis using p by auto
  qed
  show ?case
  proof (cases "fm_traversal m")
    case None
    with step [OF Cons.prems(1) mem_le_refl, of "Some DDiscard"] i show ?thesis
      by (simp add: dest_ok_def)
  next
    case (Some tr)
    obtain mem1 a where a: "(if fm_isPtrPath m then AddrByTraversal mem base tr
        else (mem, add_offset base (fm_offset m))) = (mem1, a)" by fastforce
    from field_address [OF lay Cons.prems(1,2) _ Some a] Cons.prems(3) obtain ft where
      ft: "fm_fieldType m = Some ft" "heap_ok E mem1" "mem_le mem mem1" "dest_ok E mem1 base m (Some (DField a ft))"
      by auto
    from step [OF ft(2-4)] Some a ft(1) i show ?thesis by simp
  qed
qed simp

lemma fresh_meta_ok:
  assumes "type_map E m t = Some tm" and "fresh_meta E t columns tm u = Ok meta" and "Deref t = t"
  shows "\<forall>x \<in> set meta. meta_ok E t x"
proof
  fix x assume "x \<in> set meta"
  moreover obtain ms where ms: "plan_columns tm u 0 columns = Inr ms" "meta = sortByOffset ms"
    using assms(2) by (auto simp: fresh_meta_def split: sum.splits)
  ultimately obtain k where "k < length columns" "column_meta tm u k (columns ! k) = Some x"
    using plan_columns_Inr [OF ms(1)] by (metis add_0 in_set_conv_nth set_sortByOffset)
  note c = column_meta_SomeD [OF this(2)]
  show "meta_ok E t x"
  proof (cases "sm_names tm (columns ! k)")
    case None
    with c show ?thesis by (simp add: meta_ok_def)
  next
    case (Some fi)
    have "info_ok E t fi" using mapType_names_ok [OF _ Some, of E m t] assms(1,3) by (simp add: type_map_def)
    with c Some show ?thesis by (auto simp: meta_ok_def info_ok_def ptr_ok_def)
  qed
qed

lemma fresh_meta_indices:
  assumes "fresh_meta E t columns tm u = Ok meta"
  shows "distinct (map fm_colIndex meta) \<and> set (map fm_colIndex meta) = {..<length columns}"
  using fresh_meta_index [OF assms] by (metis atLeast_upt distinct_upt mset_eq_imp_distinct_iff mset_eq_setD)

text \<open>The destinations of all columns after \<open>populateScanDest\<close>.\<close>

definition column_dest :: "tenv \<Rightarrow> memory \<Rightarrow> addr \<Rightarrow> struct_map \<Rightarrow> string \<Rightarrow> scan_dest option \<Rightarrow> bool" where
  "column_dest E mem base tm c d \<longleftrightarrow>
     (case sm_names tm c of
        None \<Rightarrow> d = Some DDiscard
      | Some fi \<Rightarrow> (\<exists>a. d = Some (DField a (fi_target fi)) \<and> follow mem base (fi_traversal fi) = Some a \<and> obj_at E mem a (fi_target fi)))"

lemma populate_columns:
  assumes "layout_ok E" and "heap_ok E mem" and "obj_at E mem base t" and "Deref t = t"
    and "type_map E m t = Some tm" and "fresh_meta E t columns tm u = Ok meta" and "length dests = length columns"
  shows "\<exists>mem' dests'. populateScanDest mem base meta dests = Some (mem', dests') \<and> heap_ok E mem' \<and> mem_le mem mem' \<and>
    length dests' = length columns \<and> (\<forall>i < length columns. column_dest E mem' base tm (columns ! i) (dests' ! i))"
proof -
  note ix = fresh_meta_indices [OF assms(6)]
  have "\<forall>x \<in> set meta. fm_colIndex x < length dests" using ix assms(7) by auto
  from populate_ok [OF assms(1-3) fresh_meta_ok [OF assms(5,6,4)] this] ix obtain mem' dests' where
    p: "populateScanDest mem base meta dests = Some (mem', dests')" "heap_ok E mem'" "mem_le mem mem'" "length dests' = length columns"
      "\<forall>m \<in> set meta. dest_ok E mem' base m (dests' ! fm_colIndex m)"
    using assms(7) by auto
  have "column_dest E mem' base tm (columns ! i) (dests' ! i)" if i: "i < length columns" for i
  proof -
    from fresh_meta_OkD [OF assms(6) i] obtain x where x: "x \<in> set meta" "column_meta tm u i (columns ! i) = Some x" by blast
    note c = column_meta_SomeD [OF x(2)]
    with p(5) x(1) have "dest_ok E mem' base x (dests' ! i)" by auto
    with c show ?thesis by (auto simp: column_dest_def dest_ok_def split: option.splits)
  qed
  with p show ?thesis by blast
qed


definition sample_plan :: "field_meta list" where
  "sample_plan =
     (case fresh_meta sample_types (TStruct ''Person'') [''zip'', ''city''] sample_person False of Ok ms \<Rightarrow> ms | _ \<Rightarrow> [])"

lemma sample_plan: "fresh_meta sample_types (TStruct ''Person'') [''zip'', ''city''] sample_person False = Ok sample_plan"
proof -
  have "(case fresh_meta sample_types (TStruct ''Person'') [''zip'', ''city''] sample_person False of Ok _ \<Rightarrow> True | _ \<Rightarrow> False)"
    by code_simp
  then show ?thesis by (auto simp: sample_plan_def split: result.splits)
qed


subsection \<open>What the loop reads\<close>

text \<open>
  The loop as a client sees it: \<open>steps one rows st n st'\<close> says that the first n rows were taken one after
  the other without an error.
\<close>

lemma rows_Next_open:
  "\<not> rs_closed rows \<Longrightarrow> rs_pending rows = row # rest \<Longrightarrow>
     rows_Next rows = (rows\<lparr>rs_pending := rest, rs_current := Some row\<rparr>, True)"
  "\<not> rs_closed rows \<Longrightarrow> rs_pending rows = [] \<Longrightarrow>
     rows_Next rows = (rows\<lparr>rs_current := None, rs_closed := True, rs_ended := True\<rparr>, False)"
  by (simp_all add: rows_Next_def)

lemma scan_loop_end:
  "\<not> rs_closed rows \<Longrightarrow> rs_pending rows = [] \<Longrightarrow>
     scan_loop one rows st = Some (rows\<lparr>rs_current := None, rs_closed := True, rs_ended := True\<rparr>, st, rs_err rows)"
  by (subst scan_loop.simps) (simp add: rows_Next_open rows_Err_def)

lemma scan_loop_row:
  "\<not> rs_closed rows \<Longrightarrow> rs_pending rows = row # rest \<Longrightarrow> scan_loop one rows st =
     (case one (rows\<lparr>rs_pending := rest, rs_current := Some row\<rparr>) st of
        None \<Rightarrow> None
      | Some (st1, Some e) \<Rightarrow>
          Some (rows\<lparr>rs_pending := rest, rs_current := Some row\<rparr>, st1, if e = Sentinel ErrStopIter then None else Some e)
      | Some (st1, None) \<Rightarrow> scan_loop one (rows\<lparr>rs_pending := rest, rs_current := Some row\<rparr>) st1)"
  by (subst scan_loop.simps) (simp add: rows_Next_open split: option.split prod.split)

text \<open>
  A body that gives the caller's state one more element for each row it accepts and never stops
  early: without an error every row has been taken.
\<close>

lemma scan_loop_all:
  assumes "\<And>rows st st1 err. one rows st = Some (st1, err) \<Longrightarrow>
      err \<noteq> Some (Sentinel ErrStopIter) \<and> (err = None \<longrightarrow> (\<exists>x. items st1 = items st @ [x]))"
    and "\<not> rs_closed rows" and "scan_loop one rows st = Some (rows1, st1, None)"
  shows "(\<exists>xs. items st1 = items st @ xs \<and> length xs = length (rs_pending rows)) \<and>
    rs_pending rows1 = [] \<and> rs_closed rows1 \<and> rs_err rows = None"
  using assms(2,3)
proof (induction "rs_pending rows" arbitrary: rows st)
  case Nil
  then show ?case by (auto simp: scan_loop_end)
next
  case (Cons row rest)
  let ?rows = "rows\<lparr>rs_pending := rest, rs_current := Some row\<rparr>"
  note row = scan_loop_row [OF Cons.prems(1) Cons.hyps(2) [symmetric], of one st]
  from Cons.prems(2) row obtain st2 err where one: "one ?rows st = Some (st2, err)"
    by (auto split: option.splits)
  note o = assms(1) [OF one]
  have "err = None"
    using Cons.prems(2) row one o by (auto split: option.splits if_splits)
  with o obtain x where x: "items st2 = items st @ [x]" by auto
  have "scan_loop one ?rows st2 = Some (rows1, st1, None)"
    using Cons.prems(2) row one \<open>err = None\<close> by simp
  from Cons.hyps(1) [of ?rows st2, OF _ _ this] Cons.prems(1) obtain xs where
    "items st1 = items st2 @ xs" "length xs = length rest" "rs_pending rows1 = []" "rs_closed rows1" "rs_err rows = None"
    by auto
  with x show ?case using Cons.hyps(2) by (metis append_assoc append_Cons append_Nil length_Cons)
qed

abbreviation caller :: "'s scan_state \<Rightarrow> 's" where
  "caller st \<equiv> snd (snd (snd st))"

lemma scan_value_append:
  "scan_value conv t alloc (\<lambda>vp s. (s @ [f vp], None)) rows st = Some (st1, err) \<Longrightarrow>
     err \<noteq> Some (Sentinel ErrStopIter) \<and> (err = None \<longrightarrow> (\<exists>x. caller st1 = caller st @ [x]))"
  by (cases st) (auto simp: scan_value_def Let_def split: prod.splits option.splits)

lemma scan_struct_append:
  "scan_struct conv meta alloc (\<lambda>vp s. (s @ [f vp], None)) rows st = Some (st1, err) \<Longrightarrow>
     err \<noteq> Some (Sentinel ErrStopIter) \<and> (err = None \<longrightarrow> (\<exists>x. caller st1 = caller st @ [x]))"
  by (cases st) (auto simp: scan_struct_def Let_def split: prod.splits option.splits)

text \<open>A scan that returns no error has gone through one of the two loops.\<close>

lemma iterate_body_None:
  assumes "iterate_body E conv en rows t u strict m alloc yield mem vals s = Some (en1, rows1, mem1, vals1, s1, None)"
  obtains (single) dests1 where "scan_loop (scan_value conv t alloc yield) rows (mem, vals, [], s) =
      Some (rows1, (mem1, vals1, dests1, s1), None)" "isScannable E t" "length (rs_columns rows) = 1"
    | (struct) tm c1 meta dests dests1 where "nil_TypeMap E m t = Some tm" "\<not> isScannable E t"
      "\<not> (strict \<and> sm_errors tm \<noteq> [])"
      "buildMeta E (en_metaCache en) t (rs_columns rows) tm u = (c1, Ok meta)"
      "scan_loop (scan_struct conv meta alloc yield) rows (mem, vals, dests, s) =
        Some (rows1, (mem1, vals1, dests1, s1), None)"
proof -
  have cols: "rows_Columns rows = Ok (rs_columns rows)"
    using assms by (auto simp: iterate_body_def rows_Columns_def split: if_splits)
  show thesis
  proof (cases "isScannable E t")
    case True
    with assms cols that(1) show thesis
      by (auto simp: iterate_body_def split: if_splits option.splits prod.splits)
  next
    case False
    with assms cols obtain tm where tm: "nil_TypeMap E m t = Some tm" "\<not> (strict \<and> sm_errors tm \<noteq> [])"
      by (auto simp: iterate_body_def split: option.splits if_splits)
    obtain c1 r where b: "buildMeta E (en_metaCache en) t (rs_columns rows) tm u = (c1, r)"
      by (cases "buildMeta E (en_metaCache en) t (rs_columns rows) tm u")
    with assms cols False tm obtain meta where r: "r = Ok meta"
      by (cases r) (auto simp: iterate_body_def)
    obtain pool1 sd where g: "getScanDest (en_pool en) (length (rs_columns rows)) = (pool1, sd)"
      by (cases "getScanDest (en_pool en) (length (rs_columns rows))")
    from assms cols False tm b r g obtain dests1 where
      "scan_loop (scan_struct conv meta alloc yield) rows (mem, vals, fst sd, s) =
        Some (rows1, (mem1, vals1, dests1, s1), None)"
      by (auto simp: iterate_body_def split: option.splits prod.splits)
    with that(2) [OF tm(1) False tm(2)] b r show thesis by blast
  qed
qed

lemma iterateScan_None:
  assumes "iterateScan E conv en rows t u strict m alloc yield mem vals s = Some (en1, rows2, mem1, vals1, s1, None)"
  obtains rows1 where "iterate_body E conv en rows t u strict m alloc yield mem vals s =
      Some (en1, rows1, mem1, vals1, s1, None)" "close_rows rows1 None = (rows2, None)"
  using assms by (auto simp: iterateScan_def close_rows_def rows_Close_def split: option.splits prod.splits if_splits)

lemma close_pending [simp]: "rs_pending (fst (close_rows rows err)) = rs_pending rows"
  by (auto simp: close_rows_def rows_Close_def)

lemma selectScan_result:
  assumes "\<not> rs_closed rows"
    and "selectScan E conv en rows destType isNil u strict m mem vals elems = Some (en1, rows1, mem1, vals1, elems1, None)"
  shows "rs_pending rows1 = [] \<and> rs_err rows = None \<and>
    (\<exists>new. elems1 = elems @ new \<and> length new = length (rs_pending rows))"
proof -
  from assms(2) obtain et where et: "(if isNil then None else Option.bind (ptr_elem destType) slice_elem) = Some et"
    by (cases "if isNil then None else Option.bind (ptr_elem destType) slice_elem")
      (auto simp: selectScan_def split: prod.splits)
  define t where "t = (if kind_of et = KPtr then Deref et else et)"
  define f where "f = (\<lambda>vp. if kind_of et = KPtr then ItemPtr vp else ItemCopy vp)"
  have it: "iterateScan E conv en rows t u strict m (reflect_New t) (\<lambda>vp s. (s @ [f vp], None)) mem vals elems =
      Some (en1, rows1, mem1, vals1, elems1, None)"
    using assms(2) et by (simp add: selectScan_def Let_def t_def f_def)
  obtain rows2 where body: "iterate_body E conv en rows t u strict m (reflect_New t) (\<lambda>vp s. (s @ [f vp], None)) mem vals elems =
      Some (en1, rows2, mem1, vals1, elems1, None)" "close_rows rows2 None = (rows1, None)"
    by (rule iterateScan_None [OF it])
  have pend: "rs_pending rows1 = rs_pending rows2"
    using close_pending [of rows2 None] body(2) by simp
  from body(1) show ?thesis
  proof (cases rule: iterate_body_None)
    case (single dests1)
    have "(\<exists>xs. caller (mem1, vals1, dests1, elems1) = caller (mem, vals, [], elems) @ xs \<and>
        length xs = length (rs_pending rows)) \<and> rs_pending rows2 = [] \<and> rs_closed rows2 \<and> rs_err rows = None"
      by (rule scan_loop_all [where items = "\<lambda>st. caller st", OF _ assms(1) single(1)]) (erule scan_value_append)
    with pend show ?thesis by auto
  next
    case (struct tm c1 meta dests dests1)
    have "(\<exists>xs. caller (mem1, vals1, dests1, elems1) = caller (mem, vals, dests, elems) @ xs \<and>
        length xs = length (rs_pending rows)) \<and> rs_pending rows2 = [] \<and> rs_closed rows2 \<and> rs_err rows = None"
      by (rule scan_loop_all [where items = "\<lambda>st. caller st", OF _ assms(1) struct(5)]) (erule scan_struct_append)
    with pend show ?thesis by auto
  qed
qed

text \<open>
  C17. \<open>Select\<close> is complete: when \<open>selectScan\<close> returns no error, every row of the result set has been
  read, the driver reported none either, and the slice has got exactly one more element per row
  behind the elements it had.
\<close>

theorem selectScan_complete:
  assumes "\<not> rs_closed rows"
    and "selectScan E conv en rows destType isNil u strict m mem vals elems = Some (en1, rows1, mem1, vals1, elems1, None)"
  shows "rs_pending rows1 = [] \<and> rs_err rows = None \<and>
    (\<exists>new. elems1 = elems @ new \<and> length new = length (rs_pending rows))"
  using assms by (rule selectScan_result)

text \<open>A sample result set: one column, two rows, read into a slice of strings.\<close>

definition sample_rs :: sql_rows where
  "sample_rs = \<lparr>rs_columns = [''name''],
     rs_pending = [[VBasic (TBasic BString) ''Ann''], [VBasic (TBasic BString) ''Bob'']],
     rs_current = None, rs_err = None, rs_close_err = None, rs_closed = False, rs_ended = False\<rparr>"

definition sample_engine :: engine where
  "sample_engine = \<lparr>en_metaCache = sync_empty, en_pool = (\<lambda>_. 0, [])\<rparr>"

definition sample_conv :: conv where
  "sample_conv t v = (case v of VNil \<Rightarrow> Inl (Foreign ''converting NULL'') | _ \<Rightarrow> Inr v)"

theorem selectScan_complete_witness:
  "\<exists>en1 rows1 mem1 vals1 elems1.
     selectScan sample_types sample_conv sample_engine sample_rs (TPtr (TSlice (TBasic BString))) False False False
       (Some sample_mapper) empty_memory Map.empty [] = Some (en1, rows1, mem1, vals1, elems1, None) \<and>
     length elems1 = 2 \<and> rs_pending rows1 = []"
proof -
  let ?call = "selectScan sample_types sample_conv sample_engine sample_rs (TPtr (TSlice (TBasic BString))) False False False
       (Some sample_mapper) empty_memory Map.empty []"
  have "map_option (\<lambda>r. snd (snd (snd (snd (snd r))))) ?call = Some None" by code_simp
  then obtain en1 rows1 mem1 vals1 elems1 where call: "?call = Some (en1, rows1, mem1, vals1, elems1, None)" by auto
  have "\<not> rs_closed sample_rs" "length (rs_pending sample_rs) = 2" by (simp_all add: sample_rs_def)
  with selectScan_complete [OF this(1) call] call show ?thesis by auto
qed

lemma scan_loop_first:
  assumes "\<And>rows st st1 err. one rows st = Some (st1, err) \<Longrightarrow> err \<noteq> None"
    and "\<not> rs_closed rows" and "scan_loop one rows st = Some (rows1, st1, err)"
  shows "(rs_pending rows = [] \<and> st1 = st \<and> err = rs_err rows \<and> rs_closed rows1) \<or>
    (\<exists>row. rs_pending rows = row # rs_pending rows1)"
proof (cases "rs_pending rows")
  case Nil
  with assms show ?thesis by (auto simp: scan_loop_end)
next
  case (Cons row rest)
  let ?rows = "rows\<lparr>rs_pending := rest, rs_current := Some row\<rparr>"
  note step = scan_loop_row [OF assms(2) Cons, of one st]
  from assms(3) step obtain st2 e where one: "one ?rows st = Some (st2, e)" by (auto split: option.splits)
  with assms(1) [OF one] assms(3) step have "rows1 = ?rows" by (auto split: option.splits)
  with Cons show ?thesis by simp
qed

lemma scan_value_stops:
  "scan_value conv t alloc (\<lambda>vp s. (x, Some e)) rows st = Some (st1, err) \<Longrightarrow> err \<noteq> None"
  by (cases st) (auto simp: scan_value_def Let_def split: prod.splits option.splits)

lemma scan_struct_stops:
  "scan_struct conv meta alloc (\<lambda>vp s. (x, Some e)) rows st = Some (st1, err) \<Longrightarrow> err \<noteq> None"
  by (cases st) (auto simp: scan_struct_def Let_def split: prod.splits option.splits)

text \<open>
  \<open>Get\<close> reads one row: when \<open>getScan\<close> returns no error the result set had a row and exactly the first
  has been read; on an empty result set it always returns an error.
\<close>

lemma getScan_first_row:
  assumes "\<not> rs_closed rows"
    and "getScan E conv en rows destType dest u strict m mem vals = Some (en1, rows1, mem1, vals1, None)"
  shows "\<exists>row. rs_pending rows = row # rs_pending rows1"
proof -
  let ?alloc = "\<lambda>mem. (mem, dest)" let ?yield = "\<lambda>vp found. (True, Some (Sentinel ErrStopIter))"
  obtain t where t: "ptr_elem destType = Some t"
    using assms(2) by (cases "ptr_elem destType") (auto simp: getScan_def split: prod.splits)
  have it: "iterateScan E conv en rows t u strict m ?alloc ?yield mem vals False = Some (en1, rows1, mem1, vals1, True, None)"
    using assms(2) t by (auto simp: getScan_def split: option.splits if_splits)
  obtain rows2 where body: "iterate_body E conv en rows t u strict m ?alloc ?yield mem vals False =
      Some (en1, rows2, mem1, vals1, True, None)" "close_rows rows2 None = (rows1, None)"
    by (rule iterateScan_None [OF it])
  have pend: "rs_pending rows1 = rs_pending rows2"
    using close_pending [of rows2 None] body(2) by simp
  from body(1) show ?thesis
  proof (cases rule: iterate_body_None)
    case (single dests1)
    from scan_loop_first [OF scan_value_stops assms(1) single(1)] pend show ?thesis by auto
  next
    case (struct tm c1 meta dests dests1)
    from scan_loop_first [OF scan_struct_stops assms(1) struct(5)] pend show ?thesis by auto
  qed
qed

lemma getScan_first_row_witness:
  "\<exists>en1 rows1 mem1 vals1. getScan sample_types sample_conv sample_engine sample_rs (TPtr (TBasic BString)) (Addr 7 0) False False
       (Some sample_mapper) empty_memory Map.empty = Some (en1, rows1, mem1, vals1, None) \<and>
     rs_pending rows1 = [[VBasic (TBasic BString) ''Bob'']]"
proof -
  let ?call = "getScan sample_types sample_conv sample_engine sample_rs (TPtr (TBasic BString)) (Addr 7 0) False False
       (Some sample_mapper) empty_memory Map.empty"
  have "map_option (\<lambda>r. snd (snd (snd (snd r)))) ?call = Some None" by code_simp
  then obtain en1 rows1 mem1 vals1 where call: "?call = Some (en1, rows1, mem1, vals1, None)" by auto
  have "\<not> rs_closed sample_rs" by (simp add: sample_rs_def)
  from getScan_first_row [OF this call] call show ?thesis by (simp add: sample_rs_def)
qed

text \<open>
  \<open>Get\<close> on an empty result set: for a destination that can be scanned, in the number of its columns and
  their names, \<open>getScan\<close> returns \<open>sql.ErrNoRows\<close> itself, so \<open>==\<close> and \<open>errors.Is\<close> both find it, unless the
  driver reported an error, which it returns unwrapped.
\<close>

lemma getScan_no_rows:
  assumes "\<not> rs_closed rows" and "rs_pending rows = []" and "ptr_elem destType = Some t"
    and "if isScannable E t then length (rs_columns rows) = 1
         else \<exists>tm c1 meta. nil_TypeMap E m t = Some tm \<and> (strict \<longrightarrow> sm_errors tm = []) \<and>
           buildMeta E (en_metaCache en) t (rs_columns rows) tm u = (c1, Ok meta)"
  shows "\<exists>en1 rows1 mem1 vals1. getScan E conv en rows destType dest u strict m mem vals =
    Some (en1, rows1, mem1, vals1, Some (case rs_err rows of None \<Rightarrow> Sentinel ErrNoRows | Some e \<Rightarrow> e))"
proof -
  have cols: "rows_Columns rows = Ok (rs_columns rows)" using assms(1) by (simp add: rows_Columns_def)
  let ?r = "rows\<lparr>rs_current := None, rs_closed := True, rs_ended := True\<rparr>"
  have loop: "scan_loop one rows st = Some (?r, st, rs_err rows)"
    for one :: "sql_rows \<Rightarrow> bool scan_state \<Rightarrow> (bool scan_state \<times> go_error option) option" and st
    by (rule scan_loop_end [OF assms(1,2)])
  have "\<exists>en1. iterate_body E conv en rows t u strict m (\<lambda>mem. (mem, dest)) (\<lambda>vp found. (True, Some (Sentinel ErrStopIter)))
      mem vals False = Some (en1, ?r, mem, vals, False, rs_err rows)"
  proof (cases "isScannable E t")
    case True
    with assms(4) cols loop show ?thesis by (simp add: iterate_body_def)
  next
    case False
    with assms(4) obtain tm c1 meta where "nil_TypeMap E m t = Some tm" "strict \<longrightarrow> sm_errors tm = []"
        "buildMeta E (en_metaCache en) t (rs_columns rows) tm u = (c1, Ok meta)" by auto
    with False cols loop show ?thesis by (auto simp: iterate_body_def split: prod.split)
  qed
  then show ?thesis
    using assms(3) by (auto simp: getScan_def iterateScan_def close_rows_def rows_Close_def split: option.split)
qed

lemma getScan_no_rows_witness:
  "\<exists>en1 rows1 mem1 vals1. getScan sample_types sample_conv sample_engine (sample_rs\<lparr>rs_pending := []\<rparr>) (TPtr (TBasic BString))
     (Addr 7 0) False False (Some sample_mapper) empty_memory Map.empty =
     Some (en1, rows1, mem1, vals1, Some (Sentinel ErrNoRows))"
  using getScan_no_rows [of "sample_rs\<lparr>rs_pending := []\<rparr>" "TPtr (TBasic BString)" "TBasic BString" sample_types]
  by (simp add: sample_rs_def isScannable_def)

end
