(* ===== verification/Rows_Scan.thy ===== *)
theory Rows_Scan
  imports Engine_Scan
begin

text \<open>
  \<open>Row\<close> and \<open>Rows\<close> of \<open>rows.go\<close>, which wrap the rows of \<open>database/sql\<close>, and the scans of \<open>helpers.go\<close> that
  work on either: \<open>MapScan\<close>, \<open>SliceScan\<close>, \<open>StructScan\<close>.  \<open>dflt\<close> is \<open>defaultMapper\<close>.  A receiver that
  keeps state is returned updated; \<^const>\<open>None\<close> is a panic.
\<close>

subsection \<open>\<open>Row\<close>\<close>

record sqlx_row =
  rw_err :: "go_error option"
  rw_rows :: "sql_rows option"
  rw_Mapper :: "mapper option"
  rw_Unsafe :: bool
  rw_Strict :: bool

definition raw_bytes :: gtype where
  "raw_bytes = TNamed ''sql.RawBytes'' byte_slice"

fun is_RawBytes :: "scan_dest option \<Rightarrow> bool" where
  "is_RawBytes (Some (DField a t)) = (t = raw_bytes)"
| "is_RawBytes _ = False"

definition Row_Scan_body ::
  "conv \<Rightarrow> sql_rows \<Rightarrow> scan_dest option list \<Rightarrow> vals \<Rightarrow> sql_rows \<times> vals \<times> go_error option" where
  "Row_Scan_body conv rows dests vals =
     (if list_ex is_RawBytes dests then
        (rows, vals, Some (Errorf ''sql: RawBytes isn't allowed on Row.Scan'' [] None))
      else
        (let (rows1, ok) = rows_Next rows in
         if \<not> ok then
           (rows1, vals, Some (case rows_Err rows1 of Some e \<Rightarrow> e | None \<Rightarrow> Sentinel ErrNoRows))
         else
           (let (vals1, err) = rows_Scan conv rows1 dests vals in (rows1, vals1, err))))"

definition Row_Scan ::
  "conv \<Rightarrow> sqlx_row \<Rightarrow> scan_dest option list \<Rightarrow> vals \<Rightarrow> (sqlx_row \<times> vals \<times> go_error option) option" where
  "Row_Scan conv r dests vals =
     (case rw_err r of
        Some e \<Rightarrow> Some (r, vals, Some e)
      | None \<Rightarrow>
          (case rw_rows r of
             None \<Rightarrow> None
           | Some rows \<Rightarrow>
               (let (rows1, vals1, err) = Row_Scan_body conv rows dests vals;
                    (rows2, err2) = close_rows rows1 err
                in Some (r\<lparr>rw_rows := Some rows2\<rparr>, vals1, err2))))"

definition Row_Columns :: "sqlx_row \<Rightarrow> string list result" where
  "Row_Columns r =
     (case rw_err r of
        Some e \<Rightarrow> Err [] e
      | None \<Rightarrow> (case rw_rows r of None \<Rightarrow> Panic | Some rows \<Rightarrow> rows_Columns rows))"

text \<open>\<open>types\<close> is what \<open>database/sql\<close> answers for the column types of a result set.\<close>

definition Row_ColumnTypes :: "(sql_rows \<Rightarrow> 'ty list result) \<Rightarrow> sqlx_row \<Rightarrow> 'ty list result" where
  "Row_ColumnTypes types r =
     (case rw_err r of
        Some e \<Rightarrow> Err [] e
      | None \<Rightarrow> (case rw_rows r of None \<Rightarrow> Panic | Some rows \<Rightarrow> types rows))"

definition Row_Err :: "sqlx_row \<Rightarrow> go_error option" where
  "Row_Err r = rw_err r"

subsection \<open>\<open>Rows\<close>\<close>

text \<open>\<open>rws_started\<close>, the plan, its destinations and the type are the cache of \<open>StructScan\<close>.\<close>

record sqlx_rows =
  rws_rows :: sql_rows
  rws_Mapper :: "mapper option"
  rws_Unsafe :: bool
  rws_Strict :: bool
  rws_started :: bool
  rws_meta :: "field_meta list"
  rws_scanDest :: "scan_dest option list"
  rws_baseType :: "gtype option"

text \<open>What \<open>r.Mapper\<close>, \<open>Columns\<close>, \<open>TypeMap\<close> and \<open>buildMeta\<close> do on the first call, and the check of the later ones.\<close>

definition Rows_plan ::
  "tenv \<Rightarrow> mapper \<Rightarrow> engine \<Rightarrow> sqlx_rows \<Rightarrow> gtype \<Rightarrow> (engine \<times> sqlx_rows \<times> go_error option) option" where
  "Rows_plan E dflt en r elemType =
     (if \<not> rws_started r then
        (case rows_Columns (rws_rows r) of
           Panic \<Rightarrow> None
         | Err _ e \<Rightarrow> Some (en, r, Some e)
         | Ok columns \<Rightarrow>
             (let m = (case rws_Mapper r of None \<Rightarrow> dflt | Some m \<Rightarrow> m);
                  r1 = r\<lparr>rws_Mapper := Some m\<rparr> in
              case type_map E m elemType of
                None \<Rightarrow> None
              | Some tm \<Rightarrow>
                  (case buildMeta E (en_metaCache en) elemType columns tm (rws_Unsafe r) of
                     (c1, Panic) \<Rightarrow> None
                   | (c1, Err _ e) \<Rightarrow>
                       Some (en\<lparr>en_metaCache := c1\<rparr>, r1, Some (Errorf ''sqlx: error building meta: %w'' [] (Some e)))
                   | (c1, Ok meta) \<Rightarrow>
                       Some (en\<lparr>en_metaCache := c1\<rparr>,
                         r1\<lparr>rws_meta := meta, rws_scanDest := replicate (length meta) None,
                            rws_started := True, rws_baseType := Some elemType\<rparr>, None))))
      else if rws_baseType r \<noteq> Some elemType then
        Some (en, r, Some (Errorf
          ''sqlx: StructScan called with structurally different type than previous iteration (expected %s, got %s)''
          [FStr (case rws_baseType r of None \<Rightarrow> ''<nil>'' | Some t \<Rightarrow> type_string t), FStr (type_string elemType)] None))
      else Some (en, r, None))"

definition not_struct_error :: "gtype \<Rightarrow> go_error" where
  "not_struct_error t = Errorf ''sqlx: dest must be a pointer to a struct, got %T'' [FStr (type_string t)] None"

definition Rows_StructScan ::
  "tenv \<Rightarrow> conv \<Rightarrow> mapper \<Rightarrow> engine \<Rightarrow> sqlx_rows \<Rightarrow> gtype \<Rightarrow> bool \<Rightarrow> addr \<Rightarrow> memory \<Rightarrow> vals \<Rightarrow>
   (engine \<times> sqlx_rows \<times> memory \<times> vals \<times> go_error option) option" where
  "Rows_StructScan E conv dflt en r destType isNil dest mem vals =
     (case (if isNil then None else ptr_elem destType) of
        None \<Rightarrow> Some (en, r, mem, vals, Some (not_struct_error destType))
      | Some elemType \<Rightarrow>
          if kind_of elemType \<noteq> KStruct then Some (en, r, mem, vals, Some (not_struct_error destType))
          else
            (case Rows_plan E dflt en r elemType of
               None \<Rightarrow> None
             | Some (en1, r1, Some e) \<Rightarrow> Some (en1, r1, mem, vals, Some e)
             | Some (en1, r1, None) \<Rightarrow>
                 (case populateScanDest mem dest (rws_meta r1) (rws_scanDest r1) of
                    None \<Rightarrow> None
                  | Some (mem1, dests1) \<Rightarrow>
                      (let (vals1, err) = rows_Scan conv (rws_rows r1) dests1 vals
                       in Some (en1, r1\<lparr>rws_scanDest := dests1\<rparr>, mem1, vals1, err)))))"

subsection \<open>\<open>ColScanner\<close>\<close>

text \<open>The interface, with the program's two implementations and \<open>*sql.Rows\<close>, and its operations.\<close>

datatype col_scanner = OfRow sqlx_row | OfRows sqlx_rows | OfSql sql_rows

fun cs_Columns :: "col_scanner \<Rightarrow> string list result" where
  "cs_Columns (OfRow r) = Row_Columns r"
| "cs_Columns (OfRows r) = rows_Columns (rws_rows r)"
| "cs_Columns (OfSql r) = rows_Columns r"

fun cs_Scan ::
  "conv \<Rightarrow> col_scanner \<Rightarrow> scan_dest option list \<Rightarrow> vals \<Rightarrow> (col_scanner \<times> vals \<times> go_error option) option" where
  "cs_Scan conv (OfRow r) dests vals =
     map_option (\<lambda>(r1, vals1, err). (OfRow r1, vals1, err)) (Row_Scan conv r dests vals)"
| "cs_Scan conv (OfRows r) dests vals =
     (let (vals1, err) = rows_Scan conv (rws_rows r) dests vals in Some (OfRows r, vals1, err))"
| "cs_Scan conv (OfSql r) dests vals =
     (let (vals1, err) = rows_Scan conv r dests vals in Some (OfSql r, vals1, err))"

text \<open>\<open>values := make([]any, n)\<close>, the pointers \<open>&values[i]\<close>, and what the values hold after the scan.\<close>

definition new_values :: "nat \<Rightarrow> memory \<Rightarrow> vals \<Rightarrow> memory \<times> vals \<times> addr" where
  "new_values n mem vals =
     (let (mem1, base) = reflect_New (TArray n any_type) mem
      in (mem1, (\<lambda>a. if blk a = blk base then None else vals a), base))"

definition value_ptrs :: "addr \<Rightarrow> nat \<Rightarrow> scan_dest option list" where
  "value_ptrs base n = map (\<lambda>i. Some (DField (add_offset base (16 * i)) any_type)) [0..<n]"

definition read_values :: "vals \<Rightarrow> addr \<Rightarrow> nat \<Rightarrow> gval list" where
  "read_values vals base n =
     map (\<lambda>i. case vals (add_offset base (16 * i)) of None \<Rightarrow> VNil | Some v \<Rightarrow> v) [0..<n]"

definition SliceScan ::
  "conv \<Rightarrow> col_scanner \<Rightarrow> memory \<Rightarrow> vals \<Rightarrow> (col_scanner \<times> memory \<times> vals \<times> gval list result) option" where
  "SliceScan conv r mem vals =
     (case cs_Columns r of
        Panic \<Rightarrow> None
      | Err _ e \<Rightarrow> Some (r, mem, vals, Err [] e)
      | Ok columns \<Rightarrow>
          (let (mem1, vals0, base) = new_values (length columns) mem vals in
           case cs_Scan conv r (value_ptrs base (length columns)) vals0 of
             None \<Rightarrow> None
           | Some (r1, vals1, Some e) \<Rightarrow> Some (r1, mem1, vals1, Err [] e)
           | Some (r1, vals1, None) \<Rightarrow> Some (r1, mem1, vals1, Ok (read_values vals1 base (length columns)))))"

text \<open>The destination of \<open>MapScan\<close> is a Go map, nil when \<^const>\<open>None\<close>: writing to it panics then.\<close>

type_synonym go_map = "(string \<Rightarrow> gval option) option"

fun map_assign :: "string list \<Rightarrow> gval list \<Rightarrow> go_map \<Rightarrow> go_map option" where
  "map_assign (col # cols) (v # vs) dest =
     (case dest of None \<Rightarrow> None | Some d \<Rightarrow> map_assign cols vs (Some (d(col \<mapsto> v))))"
| "map_assign _ _ dest = Some dest"

definition MapScan ::
  "conv \<Rightarrow> col_scanner \<Rightarrow> go_map \<Rightarrow> memory \<Rightarrow> vals \<Rightarrow> (col_scanner \<times> memory \<times> vals \<times> go_map \<times> go_error option) option" where
  "MapScan conv r dest mem vals =
     (case cs_Columns r of
        Panic \<Rightarrow> None
      | Err _ e \<Rightarrow> Some (r, mem, vals, dest, Some e)
      | Ok columns \<Rightarrow>
          (let (mem1, vals0, base) = new_values (length columns) mem vals in
           case cs_Scan conv r (value_ptrs base (length columns)) vals0 of
             None \<Rightarrow> None
           | Some (r1, vals1, Some e) \<Rightarrow> Some (r1, mem1, vals1, dest, Some e)
           | Some (r1, vals1, None) \<Rightarrow>
               (case map_assign columns (read_values vals1 base (length columns)) dest of
                  None \<Rightarrow> None
                | Some dest1 \<Rightarrow> Some (r1, mem1, vals1, dest1, None))))"

subsection \<open>\<open>StructScan\<close>\<close>

text \<open>The loop over the columns; the error is the column without a field.\<close>

fun struct_dests ::
  "struct_map \<Rightarrow> bool \<Rightarrow> gtype \<Rightarrow> addr \<Rightarrow> nat \<Rightarrow> string list \<Rightarrow> memory \<Rightarrow> scan_dest option list \<Rightarrow>
   (memory \<times> scan_dest option list \<times> go_error option) option" where
  "struct_dests tm isUnsafe t base i [] mem dests = Some (mem, dests, None)"
| "struct_dests tm isUnsafe t base i (col # cols) mem dests =
     (case sm_names tm col of
        Some fi \<Rightarrow>
          (let (mem1, ptr) = (if fi_isptr fi then AddrByTraversal mem base (fi_traversal fi)
                              else (mem, add_offset base (fi_offset fi))) in
           if length dests \<le> i then None
           else struct_dests tm isUnsafe t base (Suc i) cols mem1 (dests[i := Some (DField ptr (fi_target fi))]))
      | None \<Rightarrow>
          if \<not> isUnsafe then
            Some (mem, dests, Some (Errorf ''sqlx: missing destination name %q in %s: %w''
              [FStr col, FStr (type_string t)] (Some (Sentinel ErrColumnNotFound))))
          else if length dests \<le> i then None
          else struct_dests tm isUnsafe t base (Suc i) cols mem (dests[i := Some DDiscard]))"

fun cs_config :: "mapper \<Rightarrow> col_scanner \<Rightarrow> bool \<times> bool \<times> mapper" where
  "cs_config dflt (OfRow r) = (rw_Unsafe r, rw_Strict r, case rw_Mapper r of None \<Rightarrow> dflt | Some m \<Rightarrow> m)"
| "cs_config dflt (OfRows r) = (rws_Unsafe r, rws_Strict r, case rws_Mapper r of None \<Rightarrow> dflt | Some m \<Rightarrow> m)"
| "cs_config dflt (OfSql r) = (False, False, dflt)"

definition StructScan ::
  "tenv \<Rightarrow> conv \<Rightarrow> mapper \<Rightarrow> engine \<Rightarrow> col_scanner \<Rightarrow> gtype \<Rightarrow> bool \<Rightarrow> addr \<Rightarrow> memory \<Rightarrow> vals \<Rightarrow>
   (engine \<times> col_scanner \<times> memory \<times> vals \<times> go_error option) option" where
  "StructScan E conv dflt en r destType isNil dest mem vals =
     (case cs_Columns r of
        Panic \<Rightarrow> None
      | Err _ e \<Rightarrow> Some (en, r, mem, vals, Some e)
      | Ok columns \<Rightarrow>
          (case (if isNil then None else ptr_elem destType) of
             None \<Rightarrow> Some (en, r, mem, vals, Some (not_struct_error destType))
           | Some elemType \<Rightarrow>
               if kind_of elemType \<noteq> KStruct then Some (en, r, mem, vals, Some (not_struct_error destType))
               else
                 (let (isUnsafe, strictTagParsing, m) = cs_config dflt r in
                  case type_map E m elemType of
                    None \<Rightarrow> None
                  | Some tm \<Rightarrow>
                      if strictTagParsing \<and> sm_errors tm \<noteq> [] then
                        Some (en, r, mem, vals, Some (Errorf ''sqlx: strict tag error: %w'' [] (Some (hd (sm_errors tm)))))
                      else
                        (let (pool1, scanDest) = getScanDest (en_pool en) (length columns);
                             put = (\<lambda>dests. en\<lparr>en_pool := putScanDest (dests, snd scanDest) pool1\<rparr>) in
                         case struct_dests tm isUnsafe elemType dest 0 columns mem (fst scanDest) of
                           None \<Rightarrow> None
                         | Some (mem1, dests1, Some e) \<Rightarrow> Some (put dests1, r, mem1, vals, Some e)
                         | Some (mem1, dests1, None) \<Rightarrow>
                             (case cs_Scan conv r dests1 vals of
                                None \<Rightarrow> None
                              | Some (r1, vals1, err) \<Rightarrow>
                                  Some (put dests1, r1, mem1, vals1,
                                    case err of None \<Rightarrow> None
                                    | Some e \<Rightarrow> Some (Errorf ''sqlx: struct scan error: %w'' [] (Some e))))))))"

text \<open>The methods that forward to these.\<close>

definition Row_SliceScan where "Row_SliceScan conv r = SliceScan conv (OfRow r)"

definition Row_MapScan where "Row_MapScan conv r dest = MapScan conv (OfRow r) dest"

definition Row_StructScan where
  "Row_StructScan E conv dflt en r destType isNil dest = StructScan E conv dflt en (OfRow r) destType isNil dest"

definition Rows_SliceScan where "Rows_SliceScan conv r = SliceScan conv (OfRows r)"

definition Rows_MapScan where "Rows_MapScan conv r dest = MapScan conv (OfRows r) dest"

subsection \<open>\<open>Row.Scan\<close>\<close>

text \<open>
  \<open>Row.Scan\<close> on a result set that is still open: it returns having closed it, on every branch; a
  \<open>RawBytes\<close> destination is refused before anything is read; an empty result set gives the
  driver's error or \<open>sql.ErrNoRows\<close>; otherwise exactly the first row is converted and stored, and
  the error is that of the conversion or else that of \<open>Close\<close>.  A \<open>Row\<close> that carries an error returns it.
\<close>

lemma Row_Scan_outcome:
  assumes "rw_err r = None \<longrightarrow> rw_rows r = Some rows \<and> \<not> rs_closed rows"
  shows "\<exists>r1 vals1 err. Row_Scan conv r dests vals = Some (r1, vals1, err) \<and>
    (case rw_err r of
       Some e \<Rightarrow> r1 = r \<and> vals1 = vals \<and> err = Some e
     | None \<Rightarrow>
         (\<exists>rows1. rw_rows r1 = Some rows1 \<and> rs_closed rows1 \<and>
          (if list_ex is_RawBytes dests then
             vals1 = vals \<and> err \<noteq> None \<and> rs_pending rows1 = rs_pending rows
           else case rs_pending rows of
             [] \<Rightarrow> vals1 = vals \<and> err = Some (case rs_err rows of None \<Rightarrow> Sentinel ErrNoRows | Some e \<Rightarrow> e)
           | row # rest \<Rightarrow> rs_pending rows1 = rest \<and>
               (if length dests = length row then
                  vals1 = fst (scan_columns conv 0 dests row vals) \<and>
                  err = (case snd (scan_columns conv 0 dests row vals) of Some e \<Rightarrow> Some e | None \<Rightarrow> rs_close_err rows)
                else vals1 = vals \<and> err \<noteq> None))))"
proof (cases "rw_err r")
  case None
  with assms have opn: "rw_rows r = Some rows" "\<not> rs_closed rows" by auto
  show ?thesis
  proof (cases "list_ex is_RawBytes dests")
    case True
    with None opn show ?thesis
      by (simp add: Row_Scan_def Row_Scan_body_def close_rows_def rows_Close_def)
  next
    case False
    show ?thesis
    proof (cases "rs_pending rows")
      case Nil
      with None opn False show ?thesis
        by (simp add: Row_Scan_def Row_Scan_body_def close_rows_def rows_Close_def rows_Next_open rows_Err_def)
    next
      case (Cons row rest)
      with None opn False show ?thesis
        by (auto simp: Row_Scan_def Row_Scan_body_def close_rows_def rows_Close_def rows_Next_open rows_Scan_def
            split: prod.split option.split)
    qed
  qed
qed (simp add: Row_Scan_def)

lemma Row_Scan_outcome_witness:
  "\<exists>r1 rows1. Row_Scan sample_conv \<lparr>rw_err = None, rw_rows = Some sample_rs, rw_Mapper = None, rw_Unsafe = False, rw_Strict = False\<rparr>
      [Some (DField (Addr 0 0) (TBasic BString))] Map.empty =
      Some (r1, [Addr 0 0 \<mapsto> VBasic (TBasic BString) ''Ann''], None) \<and>
    rw_rows r1 = Some rows1 \<and> rs_closed rows1 \<and> length (rs_pending rows1) = 1"
  using Row_Scan_outcome [of "\<lparr>rw_err = None, rw_rows = Some sample_rs, rw_Mapper = None, rw_Unsafe = False, rw_Strict = False\<rparr>"
      sample_rs sample_conv "[Some (DField (Addr 0 0) (TBasic BString))]" Map.empty]
  by (auto simp: sample_rs_def sample_conv_def raw_bytes_def)

subsection \<open>\<open>SliceScan\<close> and \<open>MapScan\<close>\<close>

text \<open>Scanning into distinct \<open>any\<close> places stores the values as they are.\<close>

lemma scan_columns_any:
  assumes "\<forall>v \<in> set vs. conv any_type v = Inr v" and "length js = length vs" and "distinct (map f js)"
  shows "\<exists>vals1. scan_columns conv i (map (\<lambda>j. Some (DField (f j) any_type)) js) vs vals = (vals1, None) \<and>
    (\<forall>k < length vs. vals1 (f (js ! k)) = Some (vs ! k)) \<and> (\<forall>a. a \<notin> f ` set js \<longrightarrow> vals1 a = vals a)"
  using assms
proof (induction js arbitrary: vs i vals)
  case (Cons j js)
  then obtain v vs' where vs: "vs = v # vs'" by (cases vs) auto
  with Cons.prems have "\<forall>v \<in> set vs'. conv any_type v = Inr v" "length js = length vs'" "distinct (map f js)" by auto
  from Cons.IH [OF this, of "Suc i" "vals(f j \<mapsto> v)"] obtain vals1 where
    "scan_columns conv (Suc i) (map (\<lambda>j. Some (DField (f j) any_type)) js) vs' (vals(f j \<mapsto> v)) = (vals1, None)"
    "\<forall>k < length vs'. vals1 (f (js ! k)) = Some (vs' ! k)" "\<forall>a. a \<notin> f ` set js \<longrightarrow> vals1 a = (vals(f j \<mapsto> v)) a"
    by blast
  with vs Cons.prems show ?case
    by (auto simp: nth_Cons' split: if_splits)
qed simp

lemma scan_values:
  assumes "\<forall>v \<in> set row. conv any_type v = Inr v"
  shows "\<exists>vals1. scan_columns conv 0 (value_ptrs base (length row)) row vals = (vals1, None) \<and>
    read_values vals1 base (length row) = row \<and> (\<forall>a. blk a \<noteq> blk base \<longrightarrow> vals1 a = vals a)"
proof -
  have d: "distinct (map (\<lambda>i. add_offset base (16 * i)) [0..<length row])"
    by (simp add: distinct_map inj_on_def add_offset_def)
  from scan_columns_any [where f = "\<lambda>i. add_offset base (16 * i)" and conv = conv, OF assms _ d, of 0 vals] obtain vals1 where
    v: "scan_columns conv 0 (value_ptrs base (length row)) row vals = (vals1, None)"
      "\<forall>k < length row. vals1 (add_offset base (16 * ([0..<length row] ! k))) = Some (row ! k)"
      "\<forall>a. a \<notin> (\<lambda>i. add_offset base (16 * i)) ` set [0..<length row] \<longrightarrow> vals1 a = vals a"
    by (auto simp: value_ptrs_def)
  have "read_values vals1 base (length row) = row"
    using v(2) by (intro nth_equalityI) (auto simp: read_values_def)
  moreover have "vals1 a = vals a" if "blk a \<noteq> blk base" for a
  proof -
    from that have "a \<notin> (\<lambda>i. add_offset base (16 * i)) ` set [0..<length row]" by auto
    with v(3) show ?thesis by blast
  qed
  ultimately show ?thesis using v(1) by blast
qed

lemma no_RawBytes: "\<not> list_ex is_RawBytes (value_ptrs base n)"
  by (auto simp: list_ex_iff value_ptrs_def raw_bytes_def)

text \<open>
  The contract of \<open>ColScanner\<close>: on a scanner that stands on a row, \<open>Columns\<close> gives the names of its values, and
  \<open>Scan\<close> stores the values, up to the first that does not convert, and returns that failure.
\<close>

locale column_scanner =
  fixes columns :: "'s \<Rightarrow> string list result"
    and scan :: "conv \<Rightarrow> 's \<Rightarrow> scan_dest option list \<Rightarrow> vals \<Rightarrow> ('s \<times> vals \<times> go_error option) option"
    and stands :: "'s \<Rightarrow> string list \<Rightarrow> gval list \<Rightarrow> bool"
  assumes columns_stands: "stands s cols row \<Longrightarrow> columns s = Ok cols"
    and scan_stands: "stands s cols row \<Longrightarrow> length dests = length row \<Longrightarrow> \<not> list_ex is_RawBytes dests \<Longrightarrow>
      \<exists>s1. scan conv s dests vals = Some (s1, scan_columns conv 0 dests row vals)"
begin

text \<open>Reading a row into fresh \<open>any\<close> values.\<close>

lemma scan_read:
  assumes "stands s cols row" and "length row = length cols" and "\<forall>v \<in> set row. conv any_type v = Inr v"
  obtains s1 vals1 where "columns s = Ok cols"
    "scan conv s (value_ptrs base (length cols)) vals = Some (s1, vals1, None)" "read_values vals1 base (length cols) = row"
proof -
  from scan_values [where conv = conv, OF assms(3), of base vals] obtain vals1 where
    v: "scan_columns conv 0 (value_ptrs base (length row)) row vals = (vals1, None)"
      "read_values vals1 base (length row) = row" by blast
  have "length (value_ptrs base (length row)) = length row" by (simp add: value_ptrs_def)
  from scan_stands [OF assms(1) this no_RawBytes, of conv vals] v columns_stands [OF assms(1)] assms(2) that show thesis
    by auto
qed

end

fun rows_stand :: "sql_rows \<Rightarrow> string list \<Rightarrow> gval list \<Rightarrow> bool" where
  "rows_stand rows cols row \<longleftrightarrow> \<not> rs_closed rows \<and> rs_columns rows = cols \<and> rs_current rows = Some row"

definition rows_scan_op :: "conv \<Rightarrow> sql_rows \<Rightarrow> scan_dest option list \<Rightarrow> vals \<Rightarrow> (sql_rows \<times> vals \<times> go_error option) option" where
  "rows_scan_op conv rows dests vals = Some (rows, rows_Scan conv rows dests vals)"

interpretation rows_scanner: column_scanner rows_Columns rows_scan_op rows_stand
  by unfold_locales (simp_all add: rows_Columns_def rows_scan_op_def rows_Scan_def)

text \<open>A \<open>Row\<close> stands before its first row, which its \<open>Scan\<close> reads before it closes the rows.\<close>

fun row_stands :: "sqlx_row \<Rightarrow> string list \<Rightarrow> gval list \<Rightarrow> bool" where
  "row_stands r cols row \<longleftrightarrow> rw_err r = None \<and>
     (case rw_rows r of
        None \<Rightarrow> False
      | Some rows \<Rightarrow> \<not> rs_closed rows \<and> rs_close_err rows = None \<and> rs_columns rows = cols \<and> take 1 (rs_pending rows) = [row])"

lemma row_standsE:
  assumes "row_stands r cols row"
  obtains rows rest where "rw_err r = None" "rw_rows r = Some rows" "\<not> rs_closed rows" "rs_close_err rows = None"
    "rs_columns rows = cols" "rs_pending rows = row # rest"
  using assms by (auto split: option.splits) (metis append_Cons append_Nil append_take_drop_id)

lemma Row_Scan_stands:
  assumes "row_stands r cols row" and "length dests = length row" and "\<not> list_ex is_RawBytes dests"
  shows "\<exists>r1. Row_Scan conv r dests vals = Some (r1, scan_columns conv 0 dests row vals)"
proof -
  obtain rows rest where r: "rw_err r = None" "rw_rows r = Some rows" "\<not> rs_closed rows" "rs_close_err rows = None"
      "rs_pending rows = row # rest" using assms(1) by (rule row_standsE)
  obtain v err where "scan_columns conv 0 dests row vals = (v, err)" by (cases "scan_columns conv 0 dests row vals")
  with r assms(2,3) show ?thesis
    by (auto simp: Row_Scan_def Row_Scan_body_def close_rows_def rows_Close_def rows_Next_open rows_Scan_def split: option.split)
qed

interpretation row_scanner: column_scanner Row_Columns Row_Scan row_stands
  by unfold_locales
    (use Row_Scan_stands in \<open>auto elim!: row_standsE simp: Row_Columns_def rows_Columns_def simp del: row_stands.simps\<close>)

text \<open>The three scanners together.\<close>

fun cs_stands :: "col_scanner \<Rightarrow> string list \<Rightarrow> gval list \<Rightarrow> bool" where
  "cs_stands (OfRow r) cols row \<longleftrightarrow> row_stands r cols row"
| "cs_stands (OfRows r) cols row \<longleftrightarrow> rows_stand (rws_rows r) cols row"
| "cs_stands (OfSql r) cols row \<longleftrightarrow> rows_stand r cols row"

interpretation cs: column_scanner cs_Columns cs_Scan cs_stands
proof unfold_locales
  fix r :: col_scanner and cols row
  show "cs_stands r cols row \<Longrightarrow> cs_Columns r = Ok cols"
    using row_scanner.columns_stands rows_scanner.columns_stands by (cases r) (auto simp del: row_stands.simps rows_stand.simps)
next
  fix r :: col_scanner and cols row conv vals and dests :: "scan_dest option list"
  assume "cs_stands r cols row" "length dests = length row" "\<not> list_ex is_RawBytes dests"
  then show "\<exists>r1. cs_Scan conv r dests vals = Some (r1, scan_columns conv 0 dests row vals)"
    using row_scanner.scan_stands [of _ cols row dests conv vals] rows_scanner.scan_stands [of _ cols row dests conv vals]
    by (cases r) (fastforce simp: rows_scan_op_def split_beta simp del: row_stands.simps rows_stand.simps)+
qed

lemma map_assign_of: "length cols = length vs \<Longrightarrow> map_assign cols vs (Some d) = Some (Some (d(cols [\<mapsto>] vs)))"
  by (induction cols vs arbitrary: d rule: list_induct2) simp_all

text \<open>
  C27. Scanning without a destination type is lossless: on a scanner that stands on a row,
  \<open>SliceScan\<close> returns the row's values in the order of the columns, and \<open>MapScan\<close> enters each under its
  column's name, the last one of equal names, keeping the other keys of the map.  The
  hypothesis on \<open>conv\<close> is the documented behaviour of \<open>Scan\<close> on a \<open>*any\<close>: the value is stored as the driver gave it.
\<close>

theorem SliceScan_MapScan_values:
  assumes "cs_stands r cols row" and "length row = length cols" and "\<forall>v \<in> set row. conv any_type v = Inr v"
  shows "(\<exists>r1 mem1 vals1. SliceScan conv r mem vals = Some (r1, mem1, vals1, Ok row)) \<and>
    (\<exists>r1 mem1 vals1. MapScan conv r (Some d) mem vals =
       Some (r1, mem1, vals1, Some (\<lambda>k. case map_of (rev (zip cols row)) k of Some v \<Rightarrow> Some v | None \<Rightarrow> d k), None))"
proof -
  obtain mem1 vals0 base where n: "new_values (length cols) mem vals = (mem1, vals0, base)"
    by (cases "new_values (length cols) mem vals")
  obtain r1 vals1 where s: "cs_Columns r = Ok cols" "cs_Scan conv r (value_ptrs base (length cols)) vals0 = Some (r1, vals1, None)"
      "read_values vals1 base (length cols) = row" using assms by (rule cs.scan_read)
  have "d(cols [\<mapsto>] row) = (\<lambda>k. case map_of (rev (zip cols row)) k of Some v \<Rightarrow> Some v | None \<Rightarrow> d k)"
    by (simp add: map_upds_def map_add_def)
  with s n assms(2) map_assign_of [of cols row d] show ?thesis
    by (auto simp: SliceScan_def MapScan_def)
qed

theorem SliceScan_MapScan_values_witness:
  "\<exists>r1 mem1 vals1. SliceScan sample_conv (OfSql (fst (rows_Next sample_rs))) empty_memory Map.empty =
     Some (r1, mem1, vals1, Ok [VBasic (TBasic BString) ''Ann''])"
  using SliceScan_MapScan_values [of "OfSql (fst (rows_Next sample_rs))" "[''name'']"
      "[VBasic (TBasic BString) ''Ann'']" sample_conv empty_memory Map.empty]
  by (auto simp: sample_rs_def sample_conv_def rows_Next_def)

subsection \<open>\<open>StructScan\<close> without a plan\<close>

text \<open>A field's destination when no pointer is on the way.\<close>

definition direct_dest :: "addr \<Rightarrow> field_meta \<Rightarrow> scan_dest" where
  "direct_dest base m =
     (case fm_traversal m of
        None \<Rightarrow> DDiscard
      | Some tr \<Rightarrow> DField (add_offset base (fm_offset m)) (case fm_fieldType m of Some t \<Rightarrow> t | None \<Rightarrow> any_type))"

lemma populate_direct:
  assumes "\<forall>m \<in> set ms. \<not> fm_isPtrPath m \<and> (fm_traversal m \<noteq> None \<longrightarrow> fm_fieldType m \<noteq> None) \<and> fm_colIndex m < length dests"
    and "distinct (map fm_colIndex ms)"
  shows "\<exists>d. populateScanDest mem base ms dests = Some (mem, d) \<and> length d = length dests \<and>
    (\<forall>m \<in> set ms. d ! fm_colIndex m = Some (direct_dest base m)) \<and>
    (\<forall>i. i \<notin> fm_colIndex ` set ms \<longrightarrow> d ! i = dests ! i)"
  using assms
proof (induction ms arbitrary: dests)
  case (Cons m ms)
  let ?d = "dests[fm_colIndex m := Some (direct_dest base m)]"
  have step: "populateScanDest mem base (m # ms) dests = populateScanDest mem base ms ?d"
    using Cons.prems(1) by (auto simp: direct_dest_def split: option.split)
  have "\<forall>m \<in> set ms. \<not> fm_isPtrPath m \<and> (fm_traversal m \<noteq> None \<longrightarrow> fm_fieldType m \<noteq> None) \<and> fm_colIndex m < length ?d"
    using Cons.prems(1) by auto
  from Cons.IH [OF this] Cons.prems(2) obtain d where d: "populateScanDest mem base ms ?d = Some (mem, d)"
      "length d = length dests" "\<forall>m \<in> set ms. d ! fm_colIndex m = Some (direct_dest base m)"
      "\<forall>i. i \<notin> fm_colIndex ` set ms \<longrightarrow> d ! i = ?d ! i" by auto
  have "d ! fm_colIndex m = Some (direct_dest base m)" using d(4) Cons.prems by auto
  with d step show ?case by (auto simp: image_iff)
qed simp

lemma struct_dests_direct:
  assumes "\<forall>c \<in> set cols. \<forall>fi. sm_names tm c = Some fi \<longrightarrow> \<not> fi_isptr fi" and "length dests = i + length cols"
    and "u \<or> (\<forall>c \<in> set cols. sm_names tm c \<noteq> None)"
  shows "\<exists>d. struct_dests tm u t base i cols mem dests = Some (mem, d, None) \<and> length d = length dests \<and>
    (\<forall>k < i. d ! k = dests ! k) \<and>
    (\<forall>k < length cols. d ! (i + k) = Some (case sm_names tm (cols ! k) of None \<Rightarrow> DDiscard
        | Some fi \<Rightarrow> DField (add_offset base (fi_offset fi)) (fi_target fi)))"
  using assms
proof (induction cols arbitrary: i dests)
  case (Cons c cols)
  let ?x = "case sm_names tm c of None \<Rightarrow> DDiscard | Some fi \<Rightarrow> DField (add_offset base (fi_offset fi)) (fi_target fi)"
  let ?d = "dests[i := Some ?x]"
  have step: "struct_dests tm u t base i (c # cols) mem dests = struct_dests tm u t base (Suc i) cols mem ?d"
    using Cons.prems by (auto split: option.split)
  from Cons.IH [of ?d "Suc i"] Cons.prems obtain d where d: "struct_dests tm u t base (Suc i) cols mem ?d = Some (mem, d, None)"
      "length d = length dests" "\<forall>k < Suc i. d ! k = ?d ! k"
      "\<forall>k < length cols. d ! (Suc i + k) = Some (case sm_names tm (cols ! k) of None \<Rightarrow> DDiscard
        | Some fi \<Rightarrow> DField (add_offset base (fi_offset fi)) (fi_target fi))" by auto
  have "d ! (i + k) = Some (case sm_names tm ((c # cols) ! k) of None \<Rightarrow> DDiscard
        | Some fi \<Rightarrow> DField (add_offset base (fi_offset fi)) (fi_target fi))" if "k < length (c # cols)" for k
    using that d(3,4) Cons.prems(2) by (cases k) auto
  moreover have "\<forall>k < i. d ! k = dests ! k" using d(3) by simp
  ultimately show ?case using step d(1,2) by auto
qed simp

lemma struct_dests_missing:
  assumes "\<forall>c \<in> set cols. \<forall>fi. sm_names tm c = Some fi \<longrightarrow> \<not> fi_isptr fi" and "length dests = i + length cols"
    and "\<not> u" and "\<exists>c \<in> set cols. sm_names tm c = None"
  shows "\<exists>d f as. struct_dests tm u t base i cols mem dests =
    Some (mem, d, Some (Errorf f as (Some (Sentinel ErrColumnNotFound))))"
  using assms
proof (induction cols arbitrary: i dests)
  case (Cons c cols)
  show ?case
  proof (cases "sm_names tm c")
    case (Some fi)
    with Cons.prems have "\<exists>c \<in> set cols. sm_names tm c = None" "\<not> fi_isptr fi" "i < length dests" by auto
    with Cons.IH [of "dests[i := Some (DField (add_offset base (fi_offset fi)) (fi_target fi))]" "Suc i"] Cons.prems Some
    show ?thesis by simp
  qed (use Cons.prems in simp)
qed simp

lemma length_getScanDest [simp]: "length (fst (snd (getScanDest pool n))) = n"
  by (auto simp: getScanDest_def Let_def split: prod.split)

text \<open>The plan of columns that need no pointer, as a list of destinations.\<close>

lemma fresh_meta_direct:
  assumes "fresh_meta E t cols tm u = Ok meta" and "\<forall>c \<in> set cols. \<forall>fi. sm_names tm c = Some fi \<longrightarrow> \<not> fi_isptr fi"
    and "length dests = length cols"
  shows "populateScanDest mem base meta dests = Some (mem, map (\<lambda>c. Some (case sm_names tm c of None \<Rightarrow> DDiscard
      | Some fi \<Rightarrow> DField (add_offset base (fi_offset fi)) (fi_target fi))) cols)"
proof -
  note ix = fresh_meta_indices [OF assms(1)]
  have col: "\<exists>k < length cols. column_meta tm u k (cols ! k) = Some x" if "x \<in> set meta" for x
  proof -
    obtain ms where ms: "plan_columns tm u 0 cols = Inr ms" "meta = sortByOffset ms"
      using assms(1) by (auto simp: fresh_meta_def split: sum.splits)
    with that plan_columns_Inr [OF ms(1)] show ?thesis by (metis add_0 in_set_conv_nth set_sortByOffset)
  qed
  have direct: "\<not> fm_isPtrPath x \<and> (fm_traversal x \<noteq> None \<longrightarrow> fm_fieldType x \<noteq> None) \<and> fm_colIndex x < length dests \<and>
      direct_dest base x = (case sm_names tm (cols ! fm_colIndex x) of None \<Rightarrow> DDiscard
        | Some fi \<Rightarrow> DField (add_offset base (fi_offset fi)) (fi_target fi))" if x: "x \<in> set meta" for x
  proof -
    obtain k where k: "k < length cols" "column_meta tm u k (cols ! k) = Some x" using col [OF x] by blast
    with assms(2) have "\<And>fi. sm_names tm (cols ! k) = Some fi \<Longrightarrow> \<not> fi_isptr fi" by auto
    with column_meta_SomeD [OF k(2)] k assms(3) show ?thesis
      by (cases "sm_names tm (cols ! k)") (auto simp: direct_dest_def column_meta_def split: if_splits)
  qed
  from populate_direct [of meta dests mem base] direct ix obtain d where
    d: "populateScanDest mem base meta dests = Some (mem, d)" "length d = length cols"
      "\<forall>m \<in> set meta. d ! fm_colIndex m = Some (direct_dest base m)" using assms(3) by auto
  have "d ! i = Some (case sm_names tm (cols ! i) of None \<Rightarrow> DDiscard
      | Some fi \<Rightarrow> DField (add_offset base (fi_offset fi)) (fi_target fi))" if i: "i < length cols" for i
  proof -
    from i ix obtain x where "x \<in> set meta" "fm_colIndex x = i" by (metis image_iff lessThan_iff list.set_map)
    with d(3) direct show ?thesis by auto
  qed
  with d show ?thesis by (auto intro!: nth_equalityI)
qed

text \<open>
  C26. The two ways of scanning a struct agree: on the same rows, \<open>Rows.StructScan\<close>, which plans with
  \<open>buildMeta\<close>, and the package's \<open>StructScan\<close>, which looks every column up, store the same values at the same
  addresses and fail together, with errors \<open>errors.Is\<close> cannot tell apart, for columns whose fields need no
  pointer and a type without tag errors or rows that are not strict.
\<close>

theorem StructScan_agrees:
  assumes "meta_sound E m (en_metaCache en)" and "\<not> rws_started r" and "\<not> rs_closed (rws_rows r)" and "rws_Mapper r = Some m"
    and "ptr_elem destType = Some t" and "kind_of t = KStruct" and "type_map E m t = Some tm"
    and "rws_Strict r \<longrightarrow> sm_errors tm = []"
    and "\<forall>c \<in> set (rs_columns (rws_rows r)). \<forall>fi. sm_names tm c = Some fi \<longrightarrow> \<not> fi_isptr fi"
  shows "\<exists>en1 r1 en2 vals1 err1 err2.
    Rows_StructScan E conv dflt en r destType False dest mem vals = Some (en1, r1, mem, vals1, err1) \<and>
    StructScan E conv dflt en (OfRows r) destType False dest mem vals = Some (en2, OfRows r, mem, vals1, err2) \<and>
    map_option errors_is err1 = map_option errors_is err2"
proof -
  let ?cols = "rs_columns (rws_rows r)"
  let ?dests = "map (\<lambda>c. Some (case sm_names tm c of None \<Rightarrow> DDiscard
      | Some fi \<Rightarrow> DField (add_offset dest (fi_offset fi)) (fi_target fi))) ?cols"
  have cols: "rows_Columns (rws_rows r) = Ok ?cols" using assms(3) by (simp add: rows_Columns_def)
  obtain c1 where b: "buildMeta E (en_metaCache en) t ?cols tm (rws_Unsafe r) = (c1, fresh_meta E t ?cols tm (rws_Unsafe r))"
    using buildMeta_correct [OF assms(1,7)] by (metis prod.collapse)
  obtain pool1 sd where g: "getScanDest (en_pool en) (length ?cols) = (pool1, sd)"
    by (cases "getScanDest (en_pool en) (length ?cols)")
  then have len: "length (fst sd) = length ?cols" using length_getScanDest by (metis snd_conv)
  have plan: "\<exists>c \<in> set ?cols. sm_names tm c = None" "\<not> rws_Unsafe r" if "plan_columns tm (rws_Unsafe r) 0 ?cols = Inl c" for c
    using plan_columns_Inl [OF that] by auto
  show ?thesis
  proof (cases "plan_columns tm (rws_Unsafe r) 0 ?cols")
    case (Inl c)
    from struct_dests_missing [OF assms(9) _ plan(2,1) [OF Inl], of "fst sd" 0 t dest mem] len obtain d f as where
      s: "struct_dests tm (rws_Unsafe r) t dest 0 ?cols mem (fst sd) =
        Some (mem, d, Some (Errorf f as (Some (Sentinel ErrColumnNotFound))))" by auto
    have fm: "fresh_meta E t ?cols tm (rws_Unsafe r) = Err [] (missing_destination E t c)"
      using Inl by (simp add: fresh_meta_def)
    show ?thesis
      using assms(2-8) cols b g s fm
      by (auto simp: Rows_StructScan_def Rows_plan_def StructScan_def missing_destination_def fun_eq_iff)
  next
    case (Inr ms)
    then have fm: "fresh_meta E t ?cols tm (rws_Unsafe r) = Ok (sortByOffset ms)" by (simp add: fresh_meta_def)
    have "length (sortByOffset ms) = length ?cols"
      using plan_columns_Inr [OF Inr] mset_eq_length [OF mset_sortByOffset] by metis
    then have p: "populateScanDest mem dest (sortByOffset ms) (replicate (length (sortByOffset ms)) None) = Some (mem, ?dests)"
      by (intro fresh_meta_direct [OF fm assms(9)]) simp
    have "rws_Unsafe r \<or> (\<forall>c \<in> set ?cols. sm_names tm c \<noteq> None)"
      using plan_columns_Inr [OF Inr] by (auto simp: in_set_conv_nth column_meta_def split: if_splits option.splits) metis
    from struct_dests_direct [OF assms(9) _ this, of "fst sd" 0 t dest mem] len obtain d where
      s: "struct_dests tm (rws_Unsafe r) t dest 0 ?cols mem (fst sd) = Some (mem, d, None)" "length d = length ?cols"
        "\<forall>k < length ?cols. d ! k = ?dests ! k" by auto
    from s(2,3) have d: "d = ?dests" by (intro nth_equalityI) simp_all
    obtain vals1 err where sc: "rows_Scan conv (rws_rows r) ?dests vals = (vals1, err)"
      by (cases "rows_Scan conv (rws_rows r) ?dests vals")
    show ?thesis
      using assms(2-8) cols b g s(1) d fm p sc
      by (auto simp: Rows_StructScan_def Rows_plan_def StructScan_def fun_eq_iff split: option.split)
  qed
qed

text \<open>A result set with the columns of a person, on its first row.\<close>

definition person_rs :: sql_rows where
  "person_rs = \<lparr>rs_columns = [''name'', ''city''],
     rs_pending = [[VBasic (TBasic BString) ''Ann'', VBasic (TBasic BString) ''Rome''],
                   [VBasic (TBasic BString) ''Bob'', VBasic (TBasic BString) ''Oslo'']],
     rs_current = None, rs_err = None, rs_close_err = None, rs_closed = False, rs_ended = False\<rparr>"

definition person_rows :: sqlx_rows where
  "person_rows = \<lparr>rws_rows = person_rs, rws_Mapper = Some sample_mapper, rws_Unsafe = False,
     rws_Strict = False, rws_started = False, rws_meta = [], rws_scanDest = [], rws_baseType = None\<rparr>"

lemma meta_sound_empty: "meta_sound E m sync_empty"
  by (simp add: meta_sound_def sync_memo.agrees_empty)

lemma person_columns_direct:
  "\<forall>c \<in> set (rs_columns person_rs). \<forall>fi. sm_names sample_person c = Some fi \<longrightarrow> \<not> fi_isptr fi"
proof -
  have "list_all (\<lambda>c. case sm_names sample_person c of None \<Rightarrow> True | Some fi \<Rightarrow> \<not> fi_isptr fi) (rs_columns person_rs)"
    by code_simp
  then show ?thesis by (auto simp: list_all_iff split: option.splits)
qed

theorem StructScan_agrees_witness:
  "\<exists>en1 r1 en2 vals1 err1 err2.
    Rows_StructScan sample_types sample_conv sample_mapper sample_engine
      (person_rows\<lparr>rws_rows := fst (rows_Next person_rs)\<rparr>) (TPtr (TStruct ''Person'')) False (Addr 0 0) person_memory Map.empty =
        Some (en1, r1, person_memory, vals1, err1) \<and>
    StructScan sample_types sample_conv sample_mapper sample_engine
      (OfRows (person_rows\<lparr>rws_rows := fst (rows_Next person_rs)\<rparr>)) (TPtr (TStruct ''Person'')) False (Addr 0 0) person_memory Map.empty =
        Some (en2, OfRows (person_rows\<lparr>rws_rows := fst (rows_Next person_rs)\<rparr>), person_memory, vals1, err2) \<and>
    map_option errors_is err1 = map_option errors_is err2"
  by (rule StructScan_agrees [where m = sample_mapper and t = "TStruct ''Person''" and tm = sample_person])
    (use person_columns_direct meta_sound_empty sample_type_map in
      \<open>simp_all add: sample_engine_def person_rows_def person_rs_def rows_Next_def\<close>)

subsection \<open>Streaming\<close>

text \<open>The loop a caller of \<open>Rows\<close> writes: \<open>for rows.Next() { p := new(T); rows.StructScan(p) }\<close>, then \<open>rows.Err()\<close>.\<close>

lemma Rows_plan_rows: "Rows_plan E dflt en r t = Some (en1, r1, err) \<Longrightarrow> rws_rows r1 = rws_rows r"
  by (auto simp: Rows_plan_def Let_def split: if_splits result.splits option.splits prod.splits)

lemma Rows_StructScan_rows:
  "Rows_StructScan E conv dflt en r destType isNil dest mem vals = Some (en1, r1, mem1, vals1, err) \<Longrightarrow>
     rws_rows r1 = rws_rows r"
  by (auto simp: Rows_StructScan_def Let_def split: if_splits option.splits prod.splits dest: Rows_plan_rows)

function stream_structs ::
  "tenv \<Rightarrow> conv \<Rightarrow> mapper \<Rightarrow> gtype \<Rightarrow> engine \<Rightarrow> sqlx_rows \<Rightarrow> memory \<Rightarrow> vals \<Rightarrow> addr list \<Rightarrow>
   (engine \<times> sqlx_rows \<times> memory \<times> vals \<times> addr list \<times> go_error option) option" where
  "stream_structs E conv dflt t en r mem vals objs =
     (case rows_Next (rws_rows r) of
        (rows1, ok) \<Rightarrow>
          if \<not> ok then Some (en, r\<lparr>rws_rows := rows1\<rparr>, mem, vals, objs, rows_Err rows1)
          else
            (case Rows_StructScan E conv dflt en (r\<lparr>rws_rows := rows1\<rparr>) (TPtr t) False (snd (reflect_New t mem))
                    (fst (reflect_New t mem)) vals of
               None \<Rightarrow> None
             | Some (en1, r1, mem1, vals1, Some e) \<Rightarrow> Some (en1, r1, mem1, vals1, objs, Some e)
             | Some (en1, r1, mem1, vals1, None) \<Rightarrow>
                 stream_structs E conv dflt t en1 r1 mem1 vals1 (objs @ [snd (reflect_New t mem)])))"
  by pat_completeness auto
termination
  by (relation "measure (\<lambda>(E, conv, dflt, t, en, r, mem, vals, objs). length (rs_pending (rws_rows r)))")
    (auto dest!: Rows_StructScan_rows simp: rows_Next_def split: if_splits list.splits)

declare stream_structs.simps [simp del]

text \<open>What is left of a scan to see: rows, memory, values, the objects, and what \<open>errors.Is\<close> finds.\<close>

abbreviation err_class :: "go_error option \<Rightarrow> (sentinel \<Rightarrow> bool) option" where
  "err_class \<equiv> map_option errors_is"

fun stream_view where
  "stream_view (en, r, mem, vals, objs, err) = (rws_rows r, mem, vals, map ItemPtr objs, err_class err)"

fun loop_view where
  "loop_view (rows, (mem, vals, dests, items), err) = (rows, mem, vals, items, err_class err)"

text \<open>\<open>populateScanDest\<close> overwrites: what was in the places of its columns does not matter.\<close>

lemma populate_overwrites:
  assumes "length d1 = length d2" and "\<forall>i < length d1. i \<notin> fm_colIndex ` set ms \<longrightarrow> d1 ! i = d2 ! i"
  shows "populateScanDest mem base ms d1 = populateScanDest mem base ms d2"
  using assms
proof (induction ms arbitrary: mem d1 d2)
  case Nil
  then have "d1 = d2" by (auto intro: nth_equalityI)
  then show ?case by simp
next
  case (Cons m ms)
  have "populateScanDest mem' base ms (d1[fm_colIndex m := x]) = populateScanDest mem' base ms (d2[fm_colIndex m := x])" for mem' x
  proof (rule Cons.IH)
    show "\<forall>i < length (d1[fm_colIndex m := x]). i \<notin> fm_colIndex ` set ms \<longrightarrow>
        d1[fm_colIndex m := x] ! i = d2[fm_colIndex m := x] ! i"
    proof (intro allI impI)
      fix i assume "i < length (d1[fm_colIndex m := x])" "i \<notin> fm_colIndex ` set ms"
      with Cons.prems show "d1[fm_colIndex m := x] ! i = d2[fm_colIndex m := x] ! i"
        by (cases "i = fm_colIndex m") auto
    qed
  qed (use Cons.prems in simp)
  then show ?case using Cons.prems(1) by (auto split: option.split prod.split)
qed

lemma populate_length: "populateScanDest mem base ms dests = Some (mem1, d) \<Longrightarrow> length d = length dests"
  by (induction mem base ms dests rule: populateScanDest.induct)
    (auto simp: Let_def split: option.splits if_splits prod.splits)

lemma Rows_StructScan_started:
  assumes "rws_started r" and "rws_baseType r = Some t" and "kind_of t = KStruct"
  shows "Rows_StructScan E conv dflt en r (TPtr t) False dest mem vals =
    (case populateScanDest mem dest (rws_meta r) (rws_scanDest r) of
       None \<Rightarrow> None
     | Some (mem1, dests1) \<Rightarrow>
         (let (vals1, err) = rows_Scan conv (rws_rows r) dests1 vals
          in Some (en, r\<lparr>rws_scanDest := dests1\<rparr>, mem1, vals1, err)))"
  using assms by (simp add: Rows_StructScan_def Rows_plan_def)

lemma stream_loop:
  assumes "rws_started r" and "rws_baseType r = Some t" and "kind_of t = KStruct" and "\<not> rs_closed (rws_rows r)"
    and "length dests = length (rws_scanDest r)" and "fm_colIndex ` set (rws_meta r) = {..<length dests}"
  shows "map_option stream_view (stream_structs E conv dflt t en r mem vals objs) =
    map_option loop_view (scan_loop (scan_struct conv (rws_meta r) (reflect_New t) (\<lambda>vp s. (s @ [ItemPtr vp], None)))
      (rws_rows r) (mem, vals, dests, map ItemPtr objs))"
  using assms
proof (induction "rs_pending (rws_rows r)" arbitrary: r mem vals dests objs)
  case Nil
  then have "rws_rows r = rws_rows r" "rs_pending (rws_rows r) = []" by simp_all
  with Nil show ?case
    by (subst stream_structs.simps) (simp add: rows_Next_open scan_loop_end rows_Err_def)
next
  case (Cons row rest)
  let ?rows = "(rws_rows r)\<lparr>rs_pending := rest, rs_current := Some row\<rparr>"
  obtain mem1 vp where new: "reflect_New t mem = (mem1, vp)" by (cases "reflect_New t mem")
  note pend = Cons.hyps(2) [symmetric]
  have over: "populateScanDest mem1 vp (rws_meta r) dests = populateScanDest mem1 vp (rws_meta r) (rws_scanDest r)"
    using Cons.prems(5,6) by (intro populate_overwrites) auto
  show ?case
  proof (cases "populateScanDest mem1 vp (rws_meta r) (rws_scanDest r)")
    case None
    with Cons.prems pend new over show ?thesis
      by (subst stream_structs.simps, subst scan_loop_row [OF Cons.prems(4) pend])
        (simp add: rows_Next_open Rows_StructScan_started scan_struct_def)
  next
    case (Some x)
    then obtain mem2 d2 where p: "populateScanDest mem1 vp (rws_meta r) (rws_scanDest r) = Some (mem2, d2)" by (cases x) auto
    obtain vals1 err where sc: "rows_Scan conv ?rows d2 vals = (vals1, err)" by (cases "rows_Scan conv ?rows d2 vals")
    show ?thesis
    proof (cases err)
      case (Some e)
      with Cons.prems pend new over p sc show ?thesis
        by (subst stream_structs.simps, subst scan_loop_row [OF Cons.prems(4) pend])
          (simp add: rows_Next_open Rows_StructScan_started scan_struct_def fun_eq_iff)
    next
      case None
      let ?r = "r\<lparr>rws_rows := ?rows, rws_scanDest := d2\<rparr>"
      have len: "length d2 = length (rws_scanDest r)" by (rule populate_length [OF p])
      have "map_option stream_view (stream_structs E conv dflt t en ?r mem2 vals1 (objs @ [vp])) =
        map_option loop_view (scan_loop (scan_struct conv (rws_meta ?r) (reflect_New t) (\<lambda>vp s. (s @ [ItemPtr vp], None)))
          (rws_rows ?r) (mem2, vals1, d2, map ItemPtr (objs @ [vp])))"
        using Cons.prems len by (intro Cons.hyps(1)) simp_all
      with None Cons.prems pend new over p sc show ?thesis
        by (subst stream_structs.simps, subst scan_loop_row [OF Cons.prems(4) pend])
          (simp add: rows_Next_open Rows_StructScan_started scan_struct_def)
    qed
  qed
qed

lemma Rows_plan_start:
  assumes "meta_sound E m (en_metaCache en)" and "\<not> rws_started r" and "\<not> rs_closed rows" and "rws_Mapper r = Some m"
    and "type_map E m t = Some tm" and "fresh_meta E t (rs_columns rows) tm (rws_Unsafe r) = Ok meta"
  shows "Rows_plan E dflt en (r\<lparr>rws_rows := rows\<rparr>) t =
    Some (en\<lparr>en_metaCache := fst (buildMeta E (en_metaCache en) t (rs_columns rows) tm (rws_Unsafe r))\<rparr>,
      r\<lparr>rws_rows := rows, rws_meta := meta, rws_scanDest := replicate (length meta) None, rws_started := True,
        rws_baseType := Some t\<rparr>, None)"
proof -
  obtain c1 where "buildMeta E (en_metaCache en) t (rs_columns rows) tm (rws_Unsafe r) = (c1, Ok meta)"
    using buildMeta_correct [OF assms(1,5), of "rs_columns rows" "rws_Unsafe r"] assms(6) by (metis prod.collapse)
  with assms show ?thesis by (simp add: Rows_plan_def rows_Columns_def)
qed

text \<open>Planning on the first row or before the first row is the same.\<close>

lemma stream_start:
  assumes "meta_sound E m (en_metaCache en)" and "\<not> rws_started r" and "\<not> rs_closed (rws_rows r)" and "rws_Mapper r = Some m"
    and "kind_of t = KStruct" and "type_map E m t = Some tm"
    and "fresh_meta E t (rs_columns (rws_rows r)) tm (rws_Unsafe r) = Ok meta"
    and "Rows_plan E dflt en r t = Some (en1, r1, None)"
  shows "map_option stream_view (stream_structs E conv dflt t en r mem vals objs) =
    map_option stream_view (stream_structs E conv dflt t en1 r1 mem vals objs)"
proof -
  have r1: "en1 = en\<lparr>en_metaCache := fst (buildMeta E (en_metaCache en) t (rs_columns (rws_rows r)) tm (rws_Unsafe r))\<rparr>"
      "r1 = r\<lparr>rws_meta := meta, rws_scanDest := replicate (length meta) None, rws_started := True, rws_baseType := Some t\<rparr>"
    using Rows_plan_start [OF assms(1-4,6,7), of dflt] assms(8) by simp_all
  show ?thesis
  proof (cases "rs_pending (rws_rows r)")
    case Nil
    with assms(3) r1 show ?thesis
      by (subst (1 2) stream_structs.simps) (simp add: rows_Next_open)
  next
    case (Cons row rest)
    let ?rows = "(rws_rows r)\<lparr>rs_pending := rest, rs_current := Some row\<rparr>"
    have "Rows_plan E dflt en (r\<lparr>rws_rows := ?rows\<rparr>) t = Some (en1, r1\<lparr>rws_rows := ?rows\<rparr>, None)"
      using Rows_plan_start [OF assms(1,2) _ assms(4,6), of ?rows meta dflt] assms(3,7) r1 by simp
    moreover have "Rows_plan E dflt en1 (r1\<lparr>rws_rows := ?rows\<rparr>) t = Some (en1, r1\<lparr>rws_rows := ?rows\<rparr>, None)"
      using r1 by (simp add: Rows_plan_def)
    ultimately have "Rows_StructScan E conv dflt en (r\<lparr>rws_rows := ?rows\<rparr>) (TPtr t) False vp mem1 vals =
        Rows_StructScan E conv dflt en1 (r1\<lparr>rws_rows := ?rows\<rparr>) (TPtr t) False vp mem1 vals" for vp mem1
      using assms(5) by (simp add: Rows_StructScan_def)
    with Cons assms(3) r1 show ?thesis
      by (subst (1 2) stream_structs.simps) (simp add: rows_Next_open)
  qed
qed

fun select_view where
  "select_view (en, rows, mem, vals, items, err) = (mem, vals, items, err_class err)"

text \<open>A scan over a plan is the loop; its error is final.\<close>

lemma iterateScan_struct:
  assumes "\<not> rs_closed rows" and "\<not> isScannable E t" and "type_map E m t = Some tm" and "meta_sound E m (en_metaCache en)"
    and "fresh_meta E t (rs_columns rows) tm u = Ok meta"
  shows "\<exists>dests. length dests = length (rs_columns rows) \<and>
    map_option select_view (iterateScan E conv en rows t u False (Some m) alloc (\<lambda>vp s. (s @ [f vp], None)) mem vals s) =
    map_option (\<lambda>x. snd (loop_view x)) (scan_loop (scan_struct conv meta alloc (\<lambda>vp s. (s @ [f vp], None))) rows (mem, vals, dests, s))"
proof -
  obtain c1 where b: "buildMeta E (en_metaCache en) t (rs_columns rows) tm u = (c1, Ok meta)"
    using buildMeta_correct [OF assms(4,3), of "rs_columns rows" u] assms(5) by (metis prod.collapse)
  obtain pool1 sd where g: "getScanDest (en_pool en) (length (rs_columns rows)) = (pool1, sd)"
    by (cases "getScanDest (en_pool en) (length (rs_columns rows))")
  then have len: "length (fst sd) = length (rs_columns rows)" using length_getScanDest by (metis snd_conv)
  let ?loop = "scan_loop (scan_struct conv meta alloc (\<lambda>vp s. (s @ [f vp], None))) rows (mem, vals, fst sd, s)"
  note d = iterateScan_def iterate_body_def rows_Columns_def nil_TypeMap_def
  have "map_option select_view (iterateScan E conv en rows t u False (Some m) alloc (\<lambda>vp s. (s @ [f vp], None)) mem vals s) =
      map_option (\<lambda>x. snd (loop_view x)) ?loop"
  proof (cases ?loop)
    case None
    with assms b g show ?thesis by (simp add: d)
  next
    case (Some x)
    then obtain rows1 mem1 vals1 dests1 s1 err where x: "?loop = Some (rows1, (mem1, vals1, dests1, s1), err)"
      by (cases x) auto
    have "rs_closed rows1" if "err = None"
    proof -
      have "?loop = Some (rows1, (mem1, vals1, dests1, s1), None)" using x that by simp
      from scan_loop_all [where items = "\<lambda>st. caller st", OF _ assms(1) this] show ?thesis
        using scan_struct_append by fastforce
    qed
    with assms b g x show ?thesis
      by (cases err) (simp_all add: d close_rows_def rows_Close_def)
  qed
  with len show ?thesis by blast
qed

text \<open>With a plan for the columns, streaming does what the loop of \<open>Select\<close> does.\<close>

lemma stream_planned:
  assumes "meta_sound E m (en_metaCache en)" and "\<not> rws_started r" and "\<not> rs_closed (rws_rows r)" and "rws_Mapper r = Some m"
    and "kind_of t = KStruct" and "\<not> isScannable E t" and "type_map E m t = Some tm"
    and "fresh_meta E t (rs_columns (rws_rows r)) tm (rws_Unsafe r) = Ok meta"
  shows "map_option (\<lambda>x. snd (stream_view x)) (stream_structs E conv dflt t en r mem vals []) =
    map_option select_view (selectScan E conv en (rws_rows r) (TPtr (TSlice (TPtr t))) False (rws_Unsafe r) False (Some m) mem vals [])"
proof -
  obtain en1 r1 where p: "Rows_plan E dflt en r t = Some (en1, r1, None)"
      "r1 = r\<lparr>rws_meta := meta, rws_scanDest := replicate (length meta) None, rws_started := True, rws_baseType := Some t\<rparr>"
    using Rows_plan_start [OF assms(1-4,7,8), of dflt] by simp
  obtain dests where d: "length dests = length (rs_columns (rws_rows r))"
      "map_option select_view (iterateScan E conv en (rws_rows r) t (rws_Unsafe r) False (Some m) (reflect_New t)
         (\<lambda>vp s. (s @ [ItemPtr vp], None)) mem vals []) =
       map_option (\<lambda>x. snd (loop_view x)) (scan_loop (scan_struct conv meta (reflect_New t) (\<lambda>vp s. (s @ [ItemPtr vp], None)))
         (rws_rows r) (mem, vals, dests, []))"
    using iterateScan_struct [OF assms(3,6,7,1,8)] by blast
  note ix = fresh_meta_indices [OF assms(8)]
  then have ml: "length meta = length dests" using d(1) by (metis card_lessThan distinct_card length_map)
  have "map_option stream_view (stream_structs E conv dflt t en1 r1 mem vals []) =
      map_option loop_view (scan_loop (scan_struct conv (rws_meta r1) (reflect_New t) (\<lambda>vp s. (s @ [ItemPtr vp], None)))
        (rws_rows r1) (mem, vals, dests, map ItemPtr []))"
    by (rule stream_loop) (use assms(3,5) p(2) ix d(1) ml in auto)
  then have "map_option stream_view (stream_structs E conv dflt t en r mem vals []) =
      map_option loop_view (scan_loop (scan_struct conv meta (reflect_New t) (\<lambda>vp s. (s @ [ItemPtr vp], None)))
        (rws_rows r) (mem, vals, dests, []))"
    using stream_start [OF assms(1-5,7,8) p(1)] p(2) by simp
  then have "map_option snd (map_option stream_view (stream_structs E conv dflt t en r mem vals [])) =
      map_option snd (map_option loop_view (scan_loop (scan_struct conv meta (reflect_New t) (\<lambda>vp s. (s @ [ItemPtr vp], None)))
        (rws_rows r) (mem, vals, dests, [])))" by simp
  moreover have "kind_of (TPtr t) = KPtr" "Deref (TPtr t) = t" by (simp_all add: Deref_def)
  ultimately show ?thesis using d(2) by (simp add: selectScan_def option.map_comp comp_def)
qed

lemma fresh_meta_no_panic: "fresh_meta E t cols tm u \<noteq> Panic"
  by (simp add: fresh_meta_def split: sum.split)

text \<open>Without one, \<open>Select\<close> fails before it makes an object, and the stream at its first row, if there is one.\<close>

lemma select_unplanned:
  assumes "meta_sound E m (en_metaCache en)" and "\<not> rs_closed rows" and "\<not> isScannable E t" and "type_map E m t = Some tm"
    and "fresh_meta E t (rs_columns rows) tm u = Err x e"
  shows "map_option select_view (selectScan E conv en rows (TPtr (TSlice (TPtr t))) False u False (Some m) mem vals []) =
    Some (mem, vals, [], Some (errors_is e))"
proof -
  obtain c1 where b: "buildMeta E (en_metaCache en) t (rs_columns rows) tm u = (c1, Err x e)"
    using buildMeta_correct [OF assms(1,4), of "rs_columns rows" u] assms(5) by (metis prod.collapse)
  have "kind_of (TPtr t) = KPtr" "Deref (TPtr t) = t" by (simp_all add: Deref_def)
  with assms b show ?thesis
    by (simp add: selectScan_def iterateScan_def iterate_body_def rows_Columns_def nil_TypeMap_def close_rows_def split: prod.split)
qed

lemma stream_unplanned:
  assumes "meta_sound E m (en_metaCache en)" and "\<not> rws_started r" and "\<not> rs_closed (rws_rows r)" and "rws_Mapper r = Some m"
    and "kind_of t = KStruct" and "type_map E m t = Some tm"
    and "fresh_meta E t (rs_columns (rws_rows r)) tm (rws_Unsafe r) = Err x e"
  shows "map_option (\<lambda>x. snd (stream_view x)) (stream_structs E conv dflt t en r mem vals []) =
    Some (if rs_pending (rws_rows r) = [] then (mem, vals, [], err_class (rs_err (rws_rows r)))
          else (fst (reflect_New t mem), vals, [], Some (errors_is e)))"
proof -
  obtain c1 where b: "buildMeta E (en_metaCache en) t (rs_columns (rws_rows r)) tm (rws_Unsafe r) = (c1, Err x e)"
    using buildMeta_correct [OF assms(1,6), of "rs_columns (rws_rows r)" "rws_Unsafe r"] assms(7) by (metis prod.collapse)
  show ?thesis
  proof (cases "rs_pending (rws_rows r)")
    case Nil
    with assms(3) show ?thesis by (subst stream_structs.simps) (simp add: rows_Next_open rows_Err_def)
  next
    case (Cons row rest)
    with assms b show ?thesis
      by (subst stream_structs.simps) (simp add: rows_Next_open Rows_StructScan_def Rows_plan_def rows_Columns_def)
  qed
qed

lemma select_strict:
  assumes "\<not> rs_closed rows" and "\<not> isScannable E t" and "type_map E m t = Some tm"
  shows "map_option select_view (selectScan E conv en rows (TPtr (TSlice (TPtr t))) False u st (Some m) mem vals []) =
    (if st \<and> sm_errors tm \<noteq> [] then Some (mem, vals, [], Some (errors_is (hd (sm_errors tm))))
     else map_option select_view (selectScan E conv en rows (TPtr (TSlice (TPtr t))) False u False (Some m) mem vals []))"
proof (cases "st \<and> sm_errors tm \<noteq> []")
  case True
  have "kind_of (TPtr t) = KPtr" "Deref (TPtr t) = t" by (simp_all add: Deref_def)
  with assms True show ?thesis
    by (simp add: selectScan_def iterateScan_def iterate_body_def rows_Columns_def nil_TypeMap_def close_rows_def split: prod.split)
next
  case False
  have "iterate_body E conv en rows t u st (Some m) alloc yield mem vals s = iterate_body E conv en rows t u False (Some m) alloc yield mem vals s"
    for alloc and yield :: "slice_item list yield" and s using False assms(3) unfolding iterate_body_def nil_TypeMap_def
    by (cases "rows_Columns rows"; cases st) simp_all
  moreover have "kind_of (TPtr t) = KPtr" "Deref (TPtr t) = t" by (simp_all add: Deref_def)
  ultimately show ?thesis unfolding if_not_P [OF False] by (simp add: selectScan_def iterateScan_def)
qed

text \<open>
  C19. Streaming against selecting, on the open result set of \<open>Rows\<close> that have not been scanned: reading to the end with \<open>Rows.StructScan\<close>
  into a new object each time, against \<open>Select\<close> into a \<open>[]*T\<close> with the same modes, for a struct type \<open>T\<close> that is
  not itself scannable.
  If every column has a field or the mode is unsafe, so that there is a plan, the stream gives what \<open>Select\<close> gives without strictness: the same
  objects, memory and values and the same class of error, although the one plans once and keeps the plan in the \<open>Rows\<close> and the other takes
  its destinations from the pool.  If a column has no field, \<open>Select\<close> fails at once, with no element; the stream fails with the same class of error on
  its first row, having made one object, and on an empty result set does not notice.  Strictness makes a difference to \<open>Select\<close> only, and only for a type
  with tag errors: \<open>Select\<close> then fails with the first of them, whatever the stream does.
\<close>

theorem StructScan_stream_is_select:
  assumes "meta_sound E m (en_metaCache en)" and "\<not> rws_started r" and "\<not> rs_closed (rws_rows r)" and "rws_Mapper r = Some m"
    and "kind_of t = KStruct" and "\<not> isScannable E t" and "type_map E m t = Some tm"
  shows "let select = (\<lambda>strict. map_option select_view
          (selectScan E conv en (rws_rows r) (TPtr (TSlice (TPtr t))) False (rws_Unsafe r) strict (Some m) mem vals []));
        stream = map_option (\<lambda>x. snd (stream_view x)) (stream_structs E conv dflt t en r mem vals [])
    in (case fresh_meta E t (rs_columns (rws_rows r)) tm (rws_Unsafe r) of
          Ok meta \<Rightarrow> stream = select False
        | Err _ e \<Rightarrow> select False = Some (mem, vals, [], Some (errors_is e)) \<and>
            stream = Some (if rs_pending (rws_rows r) = [] then (mem, vals, [], err_class (rs_err (rws_rows r)))
                           else (fst (reflect_New t mem), vals, [], Some (errors_is e)))
        | Panic \<Rightarrow> False) \<and>
       select (rws_Strict r) =
         (if rws_Strict r \<and> sm_errors tm \<noteq> [] then Some (mem, vals, [], Some (errors_is (hd (sm_errors tm)))) else select False)"
proof (cases "fresh_meta E t (rs_columns (rws_rows r)) tm (rws_Unsafe r)")
  case (Ok meta)
  with stream_planned [OF assms Ok] select_strict [OF assms(3,6,7), where st = "rws_Strict r"] show ?thesis by (simp add: Let_def)
next
  case (Err x e)
  with select_unplanned [OF assms(1,3,6,7) Err] stream_unplanned [OF assms(1-5,7) Err] select_strict [OF assms(3,6,7), where st = "rws_Strict r"]
  show ?thesis by (simp add: Let_def)
qed (simp add: fresh_meta_no_panic)

text \<open>Rows with a plan, in strict mode; and a column without a field, where only the stream notices nothing on an empty result set.\<close>

theorem StructScan_stream_is_select_witness:
  "map_option (\<lambda>x. snd (stream_view x)) (stream_structs sample_types sample_conv sample_mapper (TStruct ''Person'') sample_engine
      (person_rows\<lparr>rws_Strict := True\<rparr>) empty_memory Map.empty []) =
    map_option select_view (selectScan sample_types sample_conv sample_engine person_rs (TPtr (TSlice (TPtr (TStruct ''Person''))))
      False False True (Some sample_mapper) empty_memory Map.empty []) \<and>
   map_option (\<lambda>x. snd (stream_view x)) (stream_structs sample_types sample_conv sample_mapper (TStruct ''Person'') sample_engine
      (person_rows\<lparr>rws_rows := person_rs\<lparr>rs_columns := [''age''], rs_pending := []\<rparr>\<rparr>) empty_memory Map.empty []) =
    Some (empty_memory, Map.empty, [], None) \<and>
   map_option select_view (selectScan sample_types sample_conv sample_engine (person_rs\<lparr>rs_columns := [''age''], rs_pending := []\<rparr>)
      (TPtr (TSlice (TPtr (TStruct ''Person'')))) False False False (Some sample_mapper) empty_memory Map.empty []) =
    Some (empty_memory, Map.empty, [], Some (\<lambda>k. k = ErrColumnNotFound))"
proof -
  let ?t = "TStruct ''Person''" let ?empty = "person_rs\<lparr>rs_columns := [''age''], rs_pending := []\<rparr>"
  have "case fresh_meta sample_types ?t (rs_columns person_rs) sample_person False of Ok _ \<Rightarrow> True | _ \<Rightarrow> False" by code_simp
  then obtain meta where ok: "fresh_meta sample_types ?t (rs_columns person_rs) sample_person False = Ok meta"
    by (auto split: result.splits)
  have "case fresh_meta sample_types ?t [''age''] sample_person False of Err _ e \<Rightarrow> errors_is e = (\<lambda>k. k = ErrColumnNotFound) | _ \<Rightarrow> False"
    by code_simp
  then obtain x e where err: "fresh_meta sample_types ?t [''age''] sample_person False = Err x e" "errors_is e = (\<lambda>k. k = ErrColumnNotFound)"
    by (auto split: result.splits)
  have base: "\<not> isScannable sample_types ?t" "sm_errors sample_person = []" by code_simp+
  have ms: "meta_sound sample_types sample_mapper (en_metaCache sample_engine)" using meta_sound_empty by (simp add: sample_engine_def)
  note stream = StructScan_stream_is_select [OF ms _ _ _ _ base(1) sample_type_map]
  show ?thesis
    using stream [of "person_rows\<lparr>rws_Strict := True\<rparr>" sample_conv empty_memory Map.empty sample_mapper]
      stream [of "person_rows\<lparr>rws_rows := ?empty\<rparr>" sample_conv empty_memory Map.empty sample_mapper] ok err base(2)
    by (simp add: person_rows_def person_rs_def Let_def)
qed

end
