(* ===== verification/Bind_Rebind.thy ===== *)
theory Bind_Rebind
  imports Sqlx_Prelude
begin

text \<open>
  The bindvar dialects of \<open>internal/bind/bind.go\<close>: the constants, the driver registry
  (\<open>BindType\<close>, \<open>BindDriver\<close> and the package's \<open>init\<close>) and \<open>Rebind\<close>, which numbers the \<open>?\<close>
  marks of a query for a dialect.  \<open>Rebind\<close>'s loop is compared with the obvious specification:
  cut the query at its \<open>?\<close>s and put the k-th placeholder between the k-th pair of pieces.
\<close>

subsection \<open>Bindvar types\<close>

definition UNKNOWN :: int where "UNKNOWN = 0"
definition QUESTION :: int where "QUESTION = 1"
definition DOLLAR :: int where "DOLLAR = 2"
definition NAMED :: int where "NAMED = 3"
definition AT :: int where "AT = 4"

lemmas bindtype_defs = UNKNOWN_def QUESTION_def DOLLAR_def NAMED_def AT_def

declare bindtype_defs [go_eval]

subsection \<open>The driver registry\<close>

definition defaultBinds :: "(int \<times> string list) list" where
  "defaultBinds =
    [(DOLLAR, [''postgres'', ''pgx'', ''pq-timeouts'', ''cloudsqlpostgres'', ''ql'', ''nrpostgres'', ''cockroach'']),
     (QUESTION, [''mysql'', ''sqlite3'', ''nrmysql'', ''nrsqlite3'']),
     (NAMED, [''oci8'', ''ora'', ''goracle'', ''godror'']),
     (AT, [''sqlserver'', ''azuresql''])]"

type_synonym binds = "(string, int) sync_map"

definition BindType :: "binds \<Rightarrow> string \<Rightarrow> int" where
  "BindType binds driverName =
     (case sync_load binds driverName of None \<Rightarrow> UNKNOWN | Some itype \<Rightarrow> itype)"

definition BindDriver :: "binds \<Rightarrow> string \<Rightarrow> int \<Rightarrow> binds" where
  "BindDriver binds driverName bindType = sync_store binds driverName bindType"

text \<open>
  The package's \<open>init\<close>. Go ranges over a map in an unspecified order, so the entries come as a
  list in any order.
\<close>

fun init_drivers :: "binds \<Rightarrow> int \<Rightarrow> string list \<Rightarrow> binds" where
  "init_drivers binds bind [] = binds"
| "init_drivers binds bind (driver # drivers) = init_drivers (BindDriver binds driver bind) bind drivers"

fun init_binds :: "binds \<Rightarrow> (int \<times> string list) list \<Rightarrow> binds" where
  "init_binds binds [] = binds"
| "init_binds binds ((bind, drivers) # rest) = init_binds (init_drivers binds bind drivers) rest"

lemma init_drivers_load:
  "init_drivers binds b ds d = (if d \<in> set ds then Some b else binds d)"
  by (induction ds arbitrary: binds) (auto simp: BindDriver_def sync_store_def)

lemma init_binds_other:
  "(\<And>b ds. (b, ds) \<in> set es \<Longrightarrow> d \<notin> set ds) \<Longrightarrow> init_binds binds es d = binds d"
proof (induction binds es rule: init_binds.induct)
  case (2 binds b ds rest)
  have "d \<notin> set ds" using "2.prems" [of b ds] by simp
  moreover have "init_binds (init_drivers binds b ds) rest d = init_drivers binds b ds d"
    using "2.prems" by (intro "2.IH") (metis list.set_intros(2))
  ultimately show ?case by (simp add: init_drivers_load)
qed simp

lemma init_binds_entry:
  assumes "(b, ds) \<in> set es" and "d \<in> set ds"
    and "\<And>b' ds'. (b', ds') \<in> set es \<Longrightarrow> d \<in> set ds' \<Longrightarrow> b' = b"
  shows "init_binds binds es d = Some b"
  using assms
proof (induction binds es arbitrary: ds rule: init_binds.induct)
  case (2 binds b0 ds0 rest)
  show ?case
  proof (cases "\<exists>ds'. (b, ds') \<in> set rest \<and> d \<in> set ds'")
    case True
    then obtain ds' where ds': "(b, ds') \<in> set rest" "d \<in> set ds'" by blast
    have "init_binds (init_drivers binds b0 ds0) rest d = Some b"
      using "2.prems"(3) by (intro "2.IH" [OF ds']) auto
    then show ?thesis by simp
  next
    case False
    with "2.prems"(1,2) have b0: "b0 = b" "d \<in> set ds0"
      by auto
    have "d \<notin> set ds'" if "(b', ds') \<in> set rest" for b' ds'
      using that False "2.prems"(3) by (metis list.set_intros(2))
    then have "init_binds (init_drivers binds b0 ds0) rest d = init_drivers binds b0 ds0 d"
      by (rule init_binds_other)
    with b0 show ?thesis
      by (simp add: init_drivers_load)
  qed
qed simp

lemma defaultBinds_functional:
  assumes "(b, ds) \<in> set defaultBinds" and "(b', ds') \<in> set defaultBinds"
    and "d \<in> set ds" and "d \<in> set ds'"
  shows "b = b'"
proof (rule ccontr)
  assume "b \<noteq> b'"
  moreover have "\<forall>(b, ds) \<in> set defaultBinds. \<forall>(b', ds') \<in> set defaultBinds.
      b = b' \<or> list_all (\<lambda>d. \<not> List.member ds' d) ds"
    by code_simp
  ultimately show False
    using assms by (fastforce simp: list_all_iff)
qed

text \<open>Whatever order \<open>init\<close> visits the default table in, \<open>BindType\<close> afterwards answers with
  the table's bindvar type for each of its drivers, and \<open>UNKNOWN\<close> for any other name.\<close>

lemma bindtype_after_init:
  assumes perm: "set es = set defaultBinds"
  shows "BindType (init_binds sync_empty es) d =
    (case find (\<lambda>(b, ds). d \<in> set ds) defaultBinds of None \<Rightarrow> UNKNOWN | Some (b, ds) \<Rightarrow> b)"
proof (cases "find (\<lambda>(b, ds). d \<in> set ds) defaultBinds")
  case None
  then have "d \<notin> set ds" if "(b, ds) \<in> set es" for b ds
    using that perm by (metis (mono_tags, lifting) case_prodI find_None_iff)
  then have "init_binds sync_empty es d = sync_empty d"
    by (rule init_binds_other)
  with None show ?thesis
    by (simp add: BindType_def sync_load_def sync_empty_def)
next
  case (Some e)
  obtain b ds where e: "e = (b, ds)" by (cases e)
  with Some have mem: "(b, ds) \<in> set es" "d \<in> set ds"
    using perm by (metis (mono_tags, lifting) case_prodD find_Some_iff nth_mem)+
  have "b' = b" if "(b', ds') \<in> set es" "d \<in> set ds'" for b' ds'
    using defaultBinds_functional [of b' ds' b ds d] that mem perm by simp
  with mem have "init_binds sync_empty es d = Some b"
    by (rule init_binds_entry)
  with Some e show ?thesis
    by (simp add: BindType_def sync_load_def)
qed

lemma bindtype_after_init_witness:
  "set (rev defaultBinds) = set defaultBinds \<and>
   BindType (init_binds sync_empty (rev defaultBinds)) ''sqlserver'' = AT \<and>
   BindType (init_binds sync_empty (rev defaultBinds)) ''fake-driver'' = UNKNOWN"
proof (intro conjI)
  show perm: "set (rev defaultBinds) = set defaultBinds"
    by (simp only: set_rev)
  show "BindType (init_binds sync_empty (rev defaultBinds)) ''sqlserver'' = AT"
    by (subst bindtype_after_init [OF perm]) (simp add: defaultBinds_def)
  show "BindType (init_binds sync_empty (rev defaultBinds)) ''fake-driver'' = UNKNOWN"
    by (subst bindtype_after_init [OF perm]) (simp add: defaultBinds_def)
qed

lemma bindtype_registered:
  "BindType (BindDriver binds d b) d' = (if d' = d then b else BindType binds d')"
  by (simp add: BindType_def BindDriver_def sync_memo.load_store)

subsection \<open>Rebind\<close>

definition rebind_mark :: "int \<Rightarrow> string" where
  "rebind_mark bindType =
     (if bindType = DOLLAR then ''$''
      else if bindType = NAMED then '':arg''
      else if bindType = AT then ''@p''
      else [])"

function rebind_loop :: "int \<Rightarrow> nat \<Rightarrow> string \<Rightarrow> string \<Rightarrow> string" where
  "rebind_loop bindType j rqb query =
     (case index_byte query CHR ''?'' of
        None \<Rightarrow> rqb @ query
      | Some i \<Rightarrow>
          rebind_loop bindType (Suc j)
            (rqb @ take i query @ rebind_mark bindType @ itoa (Suc j)) (drop (Suc i) query))"
  by pat_completeness auto
termination
  by (relation "measure (\<lambda>(b, j, r, q). length q)") (auto dest: index_byte_SomeD(1))

declare rebind_loop.simps [simp del]

definition Rebind :: "int \<Rightarrow> string \<Rightarrow> string" where
  "Rebind bindType query =
     (if bindType = QUESTION \<or> bindType = UNKNOWN then query
      else rebind_loop bindType 0 [] query)"

text \<open>The specification: pieces with numbered placeholders between them.\<close>

fun number_pieces :: "(nat \<Rightarrow> string) \<Rightarrow> nat \<Rightarrow> string list \<Rightarrow> string" where
  "number_pieces ph k [] = []"
| "number_pieces ph k [p] = p"
| "number_pieces ph k (p # ps) = p @ ph k @ number_pieces ph (Suc k) ps"

definition placeholder :: "int \<Rightarrow> nat \<Rightarrow> string" where
  "placeholder bindType k = rebind_mark bindType @ itoa k"

lemma number_pieces_Cons:
  "ps \<noteq> [] \<Longrightarrow> number_pieces ph k (p # ps) = p @ ph k @ number_pieces ph (Suc k) ps"
  by (cases ps) simp_all

lemma rebind_loop_pieces:
  "rebind_loop bt j rqb q = rqb @ number_pieces (placeholder bt) (Suc j) (split_on CHR ''?'' q)"
proof (induction bt j rqb q rule: rebind_loop.induct)
  case (1 bt j rqb q)
  show ?case
  proof (cases "index_byte q CHR ''?''")
    case None
    then show ?thesis
      by (subst rebind_loop.simps) (simp add: index_byte_None_iff split_on_no_sep)
  next
    case (Some i)
    note q = index_byte_SomeD [OF Some]
    have "split_on CHR ''?'' q = take i q # split_on CHR ''?'' (drop (Suc i) q)"
      using split_on_append_sep [OF q(3)] q(2) by metis
    with Some "1.IH" [OF Some] show ?thesis
      by (subst rebind_loop.simps) (simp add: number_pieces_Cons placeholder_def [of bt "Suc j"])
  qed
qed

lemma rebind_mark_no_qmark [simp]: "CHR ''?'' \<notin> set (rebind_mark bt)"
  by (simp add: rebind_mark_def)

lemma placeholder_no_qmark [simp]: "CHR ''?'' \<notin> set (placeholder bt k)"
  by (simp add: placeholder_def)

lemma placeholder_inj: "placeholder bt i = placeholder bt k \<longleftrightarrow> i = k"
  by (simp add: placeholder_def itoa_inj)

lemma number_pieces_no:
  "(\<And>p. p \<in> set ps \<Longrightarrow> c \<notin> set p) \<Longrightarrow> (\<And>i. c \<notin> set (ph i)) \<Longrightarrow> c \<notin> set (number_pieces ph k ps)"
  by (induction ph k ps rule: number_pieces.induct) auto

text \<open>C34: \<open>Rebind\<close> leaves a query alone for the \<open>QUESTION\<close> and \<open>UNKNOWN\<close> dialects; for any other
  dialect it replaces the k-th \<open>?\<close> of the query, counted from 1 and from the left, by the
  dialect's k-th placeholder, and changes nothing else.\<close>

theorem rebind_numbers_placeholders:
  "Rebind bt q =
     (if bt = QUESTION \<or> bt = UNKNOWN then q
      else number_pieces (placeholder bt) 1 (split_on CHR ''?'' q))"
  by (simp add: Rebind_def rebind_loop_pieces)

lemma rebind_no_qmark:
  "bt \<noteq> QUESTION \<Longrightarrow> bt \<noteq> UNKNOWN \<Longrightarrow> CHR ''?'' \<notin> set (Rebind bt q)"
  by (simp add: Rebind_def rebind_loop_pieces number_pieces_no split_on_parts)

lemma rebind_unmarked: "CHR ''?'' \<notin> set q \<Longrightarrow> Rebind bt q = q"
  by (simp add: Rebind_def rebind_loop_pieces split_on_no_sep)

end
