(* ===== verification/Bind_Compile.thy ===== *)
theory Bind_Compile
  imports Bind_Rebind
begin

text \<open>
  \<open>compileNamedQuery\<close> of \<open>internal/bind/bind.go\<close>: the byte-by-byte state machine that turns a
  query with \<open>:name\<close> parameters into one dialect's query and the list of names, its cache, and
  the public wrapper \<open>CompileNamedQuery\<close>.  The machine is proved equal to a tokenizer followed
  by printing the tokens, and every other fact about compiled queries follows from that.
\<close>

subsection \<open>The state machine\<close>

text \<open>The loop's variables; \<open>qs\<close>, \<open>i\<close> and \<open>last\<close> are arguments.\<close>

record cstate =
  rebound :: string
  inName :: bool
  currentVar :: nat
  pname :: string
  pnames :: "string list"

definition is_alnum :: "char \<Rightarrow> bool" where
  "is_alnum b \<longleftrightarrow> (CHR ''a'' \<le> b \<and> b \<le> CHR ''z'') \<or> (CHR ''A'' \<le> b \<and> b \<le> CHR ''Z'') \<or>
     (CHR ''0'' \<le> b \<and> b \<le> CHR ''9'')"

definition is_name_byte :: "char \<Rightarrow> bool" where
  "is_name_byte b \<longleftrightarrow> is_alnum b \<or> b = CHR ''_'' \<or> b = CHR ''.''"

definition emit_var :: "int \<Rightarrow> cstate \<Rightarrow> cstate" where
  "emit_var bindType st =
     (if bindType = NAMED then st\<lparr>rebound := rebound st @ '':'' @ pname st\<rparr>
      else if bindType = QUESTION \<or> bindType = UNKNOWN then st\<lparr>rebound := rebound st @ ''?''\<rparr>
      else if bindType = DOLLAR then
        st\<lparr>rebound := rebound st @ ''$'' @ itoa (currentVar st), currentVar := Suc (currentVar st)\<rparr>
      else if bindType = AT then
        st\<lparr>rebound := rebound st @ ''@p'' @ itoa (currentVar st), currentVar := Suc (currentVar st)\<rparr>
      else st)"

definition syntax_error :: "nat \<Rightarrow> go_error" where
  "syntax_error i =
     Errorf ''sqlx: unexpected `:` while reading named param at %d: %w'' [FInt (int i)] (Some (Sentinel ErrSyntax))"

definition compile_step :: "int \<Rightarrow> string \<Rightarrow> nat \<Rightarrow> char \<Rightarrow> cstate \<Rightarrow> go_error + cstate" where
  "compile_step bindType qs i b st =
    (let last = length qs - 1 in
     if b = CHR '':'' then
       if inName st \<and> 0 < i \<and> qs ! (i - 1) = CHR '':'' then
         Inr (st\<lparr>rebound := rebound st @ '':'', inName := False\<rparr>)
       else if inName st then Inl (syntax_error i)
       else Inr (st\<lparr>inName := True, pname := []\<rparr>)
     else if inName st \<and> 0 < i \<and> b = CHR ''='' \<and> pname st = [] then
       Inr (st\<lparr>rebound := rebound st @ '':='', inName := False\<rparr>)
     else if inName st \<and> is_name_byte b \<and> i \<noteq> last then
       Inr (st\<lparr>pname := pname st @ [b]\<rparr>)
     else if inName st then
       let nm = (if i = last \<and> is_alnum b then pname st @ [b] else pname st);
           st' = emit_var bindType (st\<lparr>inName := False, pname := nm, pnames := pnames st @ [nm]\<rparr>)
       in if i \<noteq> last then Inr (st'\<lparr>rebound := rebound st' @ [b]\<rparr>)
          else if \<not> is_alnum b then Inr (st'\<lparr>rebound := rebound st' @ [b]\<rparr>)
          else Inr st'
     else Inr (st\<lparr>rebound := rebound st @ [b]\<rparr>))"

function compile_loop :: "int \<Rightarrow> string \<Rightarrow> nat \<Rightarrow> cstate \<Rightarrow> (go_error \<times> cstate) + cstate" where
  "compile_loop bindType qs i st =
    (if i < length qs then
       case compile_step bindType qs i (qs ! i) st of
         Inl e \<Rightarrow> Inl (e, st)
       | Inr st' \<Rightarrow> compile_loop bindType qs (Suc i) st'
     else Inr st)"
  by pat_completeness auto
termination
  by (relation "measure (\<lambda>(b, qs, i, st). length qs - i)") auto

declare compile_loop.simps [simp del]

definition init_cstate :: cstate where
  "init_cstate = \<lparr>rebound = [], inName = False, currentVar = 1, pname = [], pnames = []\<rparr>"

text \<open>A compilation without the cache: the query and the names; on an error the query is empty.\<close>

definition compile_query :: "int \<Rightarrow> string \<Rightarrow> (string \<times> string list) result" where
  "compile_query bindType qs =
     (case compile_loop bindType qs 0 init_cstate of
        Inl (e, st) \<Rightarrow> Err ([], pnames st) e
      | Inr st \<Rightarrow> Ok (rebound st, pnames st))"

subsection \<open>The reference: tokens\<close>

text \<open>
  \<open>Dangling\<close> is a \<open>:\<close> that ends the query; \<open>Trailing nm c\<close> a parameter that ends the query in
  \<open>c\<close>, an underscore or a dot, which the code does not count as part of the name there.
\<close>

datatype token = Text string | Param string | Escape | Assign | Dangling | Trailing string char

definition name_part :: "string \<Rightarrow> string" where
  "name_part cs = takeWhile is_name_byte cs"

definition after_name :: "string \<Rightarrow> string" where
  "after_name cs = dropWhile is_name_byte cs"

lemma length_after_name: "length (after_name cs) \<le> length cs"
  by (simp add: after_name_def length_dropWhile_le)

lemma name_after: "name_part cs @ after_name cs = cs"
  by (simp add: name_part_def after_name_def)

function tokenize :: "string \<Rightarrow> token list option" where
  "tokenize [] = Some []"
| "tokenize (c # cs) =
    (if c \<noteq> CHR '':'' then map_option ((#) (Text [c])) (tokenize cs)
     else case cs of
        [] \<Rightarrow> Some [Dangling]
      | d # ds \<Rightarrow>
          if d = CHR '':'' then map_option ((#) Escape) (tokenize ds)
          else if d = CHR ''='' then map_option ((#) Assign) (tokenize ds)
          else (case after_name cs of
              [] \<Rightarrow> if is_alnum (last cs) then Some [Param cs] else Some [Trailing (butlast cs) (last cs)]
            | e # es \<Rightarrow>
                if e = CHR '':'' then None
                else map_option (\<lambda>ts. Param (name_part cs) # Text [e] # ts) (tokenize es)))"
  by pat_completeness auto
termination
proof (relation "measure length", goal_cases)
  case (5 c cs d ds e es)
  then show ?case using length_after_name [of cs] by simp
qed auto

declare tokenize.simps(2) [simp del]

definition var_text :: "int \<Rightarrow> nat \<Rightarrow> string \<Rightarrow> string" where
  "var_text bindType k nm =
     (if bindType = NAMED then '':'' @ nm
      else if bindType = QUESTION \<or> bindType = UNKNOWN then ''?''
      else if bindType = DOLLAR then ''$'' @ itoa k
      else if bindType = AT then ''@p'' @ itoa k
      else [])"

fun print_tokens :: "int \<Rightarrow> nat \<Rightarrow> token list \<Rightarrow> string" where
  "print_tokens bt k [] = []"
| "print_tokens bt k (Text s # ts) = s @ print_tokens bt k ts"
| "print_tokens bt k (Param nm # ts) = var_text bt k nm @ print_tokens bt (Suc k) ts"
| "print_tokens bt k (Escape # ts) = '':'' @ print_tokens bt k ts"
| "print_tokens bt k (Assign # ts) = '':='' @ print_tokens bt k ts"
| "print_tokens bt k (Dangling # ts) = print_tokens bt k ts"
| "print_tokens bt k (Trailing nm c # ts) = var_text bt k nm @ [c] @ print_tokens bt (Suc k) ts"

fun token_names :: "token list \<Rightarrow> string list" where
  "token_names [] = []"
| "token_names (Param nm # ts) = nm # token_names ts"
| "token_names (Trailing nm c # ts) = nm # token_names ts"
| "token_names (_ # ts) = token_names ts"

text \<open>The source text of tokens.\<close>

fun source_of :: "token list \<Rightarrow> string" where
  "source_of [] = []"
| "source_of (Text s # ts) = s @ source_of ts"
| "source_of (Param nm # ts) = '':'' @ nm @ source_of ts"
| "source_of (Escape # ts) = ''::'' @ source_of ts"
| "source_of (Assign # ts) = '':='' @ source_of ts"
| "source_of (Dangling # ts) = '':'' @ source_of ts"
| "source_of (Trailing nm c # ts) = '':'' @ nm @ [c] @ source_of ts"

subsection \<open>The machine read from any position\<close>

definition loop_from :: "int \<Rightarrow> string \<Rightarrow> string \<Rightarrow> cstate \<Rightarrow> (go_error \<times> cstate) + cstate" where
  "loop_from bt pre rest st = compile_loop bt (pre @ rest) (length pre) st"

lemma loop_from_Nil [simp]: "loop_from bt pre [] st = Inr st"
  by (simp add: loop_from_def compile_loop.simps)

lemma loop_from_Cons:
  "loop_from bt pre (c # rest) st =
     (case compile_step bt (pre @ c # rest) (length pre) c st of
        Inl e \<Rightarrow> Inl (e, st)
      | Inr st' \<Rightarrow> loop_from bt (pre @ [c]) rest st')"
  unfolding loop_from_def
  by (subst compile_loop.simps) (simp add: nth_append split: sum.split)

lemma name_byte_not_special: "is_name_byte c \<Longrightarrow> c \<noteq> CHR '':'' \<and> c \<noteq> CHR ''='' \<and> c \<noteq> CHR ''?''"
  by (auto simp: is_name_byte_def is_alnum_def less_eq_char_def)

lemma alnum_name_byte: "is_alnum c \<Longrightarrow> is_name_byte c"
  by (simp add: is_name_byte_def)

lemma from_plain:
  assumes "\<not> inName st" and "c \<noteq> CHR '':''"
  shows "loop_from bt pre (c # rest) st = loop_from bt (pre @ [c]) rest (st\<lparr>rebound := rebound st @ [c]\<rparr>)"
  using assms by (simp add: loop_from_Cons compile_step_def Let_def)

lemma from_open:
  assumes "\<not> inName st"
  shows "loop_from bt pre (CHR '':'' # rest) st =
    loop_from bt (pre @ '':'') rest (st\<lparr>inName := True, pname := []\<rparr>)"
  using assms by (simp add: loop_from_Cons compile_step_def Let_def)

lemma from_escape:
  assumes "inName st"
  shows "loop_from bt (pre @ '':'') (CHR '':'' # rest) st =
    loop_from bt (pre @ ''::'') rest (st\<lparr>rebound := rebound st @ '':'', inName := False\<rparr>)"
  using assms by (simp add: loop_from_Cons compile_step_def Let_def nth_append)

lemma from_assign:
  assumes "inName st" and "pname st = []"
  shows "loop_from bt (pre @ '':'') (CHR ''='' # rest) st =
    loop_from bt (pre @ '':='') rest (st\<lparr>rebound := rebound st @ '':='', inName := False\<rparr>)"
  using assms by (simp add: loop_from_Cons compile_step_def Let_def)

lemma from_name:
  assumes "inName st" and "is_name_byte c" and "rest \<noteq> []"
  shows "loop_from bt pre (c # rest) st = loop_from bt (pre @ [c]) rest (st\<lparr>pname := pname st @ [c]\<rparr>)"
  using assms name_byte_not_special [of c]
  by (simp add: loop_from_Cons compile_step_def Let_def)

lemma from_names:
  assumes "inName st" and "\<forall>c \<in> set xs. is_name_byte c" and "rest \<noteq> []"
  shows "loop_from bt pre (xs @ rest) st = loop_from bt (pre @ xs) rest (st\<lparr>pname := pname st @ xs\<rparr>)"
  using assms by (induction xs arbitrary: pre st) (simp_all add: from_name)

lemma from_colon_error:
  assumes "inName st" and "pre \<noteq> []" and "List.last pre \<noteq> CHR '':''"
  shows "loop_from bt pre (CHR '':'' # rest) st = Inl (syntax_error (length pre), st)"
  using assms by (auto simp: loop_from_Cons compile_step_def Let_def nth_append last_conv_nth)

definition close_name :: "int \<Rightarrow> cstate \<Rightarrow> cstate" where
  "close_name bt st = emit_var bt (st\<lparr>inName := False, pnames := pnames st @ [pname st]\<rparr>)"

lemma from_end:
  assumes "inName st" and "\<not> is_name_byte c" and "c \<noteq> CHR '':''" and "c = CHR ''='' \<longrightarrow> pname st \<noteq> []"
  shows "loop_from bt pre (c # rest) st =
    loop_from bt (pre @ [c]) rest
      ((close_name bt st)\<lparr>rebound := rebound (close_name bt st) @ [c]\<rparr>)"
  using assms alnum_name_byte [of c]
  by (auto simp: loop_from_Cons compile_step_def Let_def close_name_def)

lemma from_last:
  assumes "inName st" and "is_name_byte c"
  shows "loop_from bt pre [c] st =
    (if is_alnum c then Inr (close_name bt (st\<lparr>pname := pname st @ [c]\<rparr>))
     else Inr ((close_name bt st)\<lparr>rebound := rebound (close_name bt st) @ [c]\<rparr>))"
  using assms name_byte_not_special [of c]
  by (cases st) (simp add: loop_from_Cons compile_step_def Let_def close_name_def)

lemma emit_var_fields [simp]:
  "rebound (emit_var bt st) = rebound st @ var_text bt (currentVar st) (pname st)"
  "inName (emit_var bt st) = inName st"
  "pname (emit_var bt st) = pname st"
  "pnames (emit_var bt st) = pnames st"
  by (simp_all add: emit_var_def var_text_def)

lemma currentVar_emit:
  "currentVar (emit_var bt st) =
     (if bt = DOLLAR \<or> bt = AT then Suc (currentVar st) else currentVar st)"
  by (simp add: emit_var_def bindtype_defs)

lemma print_tokens_unnumbered:
  "bt \<noteq> DOLLAR \<Longrightarrow> bt \<noteq> AT \<Longrightarrow> print_tokens bt k ts = print_tokens bt k' ts"
proof (induction bt k ts arbitrary: k' rule: print_tokens.induct)
  case (3 bt k nm ts)
  then show ?case using "3.IH" [of "Suc k'"] by (simp add: var_text_def)
next
  case (7 bt k nm c ts)
  then show ?case using "7.IH" [of "Suc k'"] by (simp add: var_text_def)
qed auto

lemma print_tokens_emit:
  "print_tokens bt (currentVar (emit_var bt st)) ts = print_tokens bt (Suc (currentVar st)) ts"
  using print_tokens_unnumbered by (simp add: currentVar_emit)

text \<open>What a run of the machine from a position outside a name must amount to.\<close>

definition run_matches :: "int \<Rightarrow> cstate \<Rightarrow> token list option \<Rightarrow> (go_error \<times> cstate) + cstate \<Rightarrow> bool" where
  "run_matches bt st toks r \<longleftrightarrow>
     (case toks of
        None \<Rightarrow> (\<exists>i st'. r = Inl (syntax_error i, st'))
      | Some ts \<Rightarrow>
          (\<exists>st'. r = Inr st' \<and> rebound st' = rebound st @ print_tokens bt (currentVar st) ts \<and>
             pnames st' = pnames st @ token_names ts))"

lemma run_matches_cong:
  assumes "run_matches bt st' toks r"
    and "\<And>ts. toks = Some ts \<Longrightarrow>
      rebound st' @ print_tokens bt (currentVar st') ts = rebound st @ print_tokens bt (currentVar st) (pre @ ts) \<and>
      pnames st' @ token_names ts = pnames st @ token_names (pre @ ts)"
  shows "run_matches bt st (map_option ((@) pre) toks) r"
  using assms by (cases toks) (auto simp: run_matches_def)

lemma append_singleton_eq [simp]: "(@) [x] = (#) x"
  by (simp add: fun_eq_iff)

lemma append_pair_eq [simp]: "(@) [x, y] = (\<lambda>zs. x # y # zs)"
  by (simp add: fun_eq_iff)

lemma dropWhile_hd: "dropWhile P xs = e # es \<Longrightarrow> \<not> P e"
  by (metis hd_dropWhile list.distinct(1) list.sel(1))

lemma loop_from_tokenize:
  "\<not> inName st \<Longrightarrow> run_matches bt st (tokenize rest) (loop_from bt pre rest st)"
proof (induction rest arbitrary: pre st rule: tokenize.induct)
  case 1
  then show ?case by (simp add: run_matches_def)
next
  case (2 c cs)
  let ?open = "st\<lparr>inName := True, pname := []\<rparr>"
  consider (plain) "c \<noteq> CHR '':''" | (dangling) "c = CHR '':''" "cs = []"
    | (escape) ds where "c = CHR '':''" "cs = CHR '':'' # ds"
    | (assign) ds where "c = CHR '':''" "cs = CHR ''='' # ds"
    | (param) d ds where "c = CHR '':''" "cs = d # ds" "d \<noteq> CHR '':''" "d \<noteq> CHR ''=''"
    by (cases cs) auto
  then show ?case
  proof cases
    case plain
    with "2.IH"(1) [OF plain, of "st\<lparr>rebound := rebound st @ [c]\<rparr>" "pre @ [c]"] "2.prems"
    have "run_matches bt (st\<lparr>rebound := rebound st @ [c]\<rparr>) (tokenize cs) (loop_from bt pre (c # cs) st)"
      by (simp add: from_plain)
    then have "run_matches bt st (map_option ((@) [Text [c]]) (tokenize cs)) (loop_from bt pre (c # cs) st)"
      by (rule run_matches_cong) simp
    with plain show ?thesis by (simp add: tokenize.simps(2))
  next
    case dangling
    with "2.prems" show ?thesis
      by (simp add: tokenize.simps(2) from_open run_matches_def)
  next
    case (escape ds)
    let ?st = "?open\<lparr>rebound := rebound st @ '':'', inName := False\<rparr>"
    have "run_matches bt ?st (tokenize ds) (loop_from bt pre (c # cs) st)"
      using "2.IH"(2) [of "CHR '':''" ds ?st "pre @ ''::''"] "2.prems" escape
      by (simp add: from_open from_escape)
    then have "run_matches bt st (map_option ((@) [Escape]) (tokenize ds)) (loop_from bt pre (c # cs) st)"
      by (rule run_matches_cong) simp
    with escape show ?thesis by (simp add: tokenize.simps(2))
  next
    case (assign ds)
    let ?st = "?open\<lparr>rebound := rebound st @ '':='', inName := False\<rparr>"
    have "run_matches bt ?st (tokenize ds) (loop_from bt pre (c # cs) st)"
      using "2.IH"(3) [of "CHR ''=''" ds ?st "pre @ '':=''"] "2.prems" assign
      by (simp add: from_open from_assign)
    then have "run_matches bt st (map_option ((@) [Assign]) (tokenize ds)) (loop_from bt pre (c # cs) st)"
      by (rule run_matches_cong) simp
    with assign show ?thesis by (simp add: tokenize.simps(2))
  next
    case (param d ds)
    note opened = from_open [OF "2.prems", of bt pre cs]
    show ?thesis
    proof (cases "after_name cs")
      case Nil
      then have all: "\<forall>x \<in> set cs. is_name_byte x"
        by (simp add: after_name_def dropWhile_eq_Nil_conv)
      have cs: "cs = butlast cs @ [last cs]" and lst: "is_name_byte (last cs)"
        and ini: "\<forall>x \<in> set (butlast cs). is_name_byte x"
        using param all by (auto dest: in_set_butlastD)
      have "loop_from bt pre (c # cs) st =
          loop_from bt (pre @ '':'' @ butlast cs) [last cs] (?open\<lparr>pname := butlast cs\<rparr>)"
        using opened param(1) from_names [of ?open "butlast cs" "[last cs]" bt "pre @ '':''"] ini cs by simp
      also have "\<dots> = (if is_alnum (last cs) then Inr (close_name bt (?open\<lparr>pname := cs\<rparr>))
          else Inr ((close_name bt (?open\<lparr>pname := butlast cs\<rparr>))
            \<lparr>rebound := rebound (close_name bt (?open\<lparr>pname := butlast cs\<rparr>)) @ [last cs]\<rparr>))"
        using from_last [of "?open\<lparr>pname := butlast cs\<rparr>" "last cs"] lst cs by simp
      finally show ?thesis
        using param Nil by (simp add: tokenize.simps(2) run_matches_def close_name_def)
    next
      case (Cons e es)
      have e: "\<not> is_name_byte e"
        using Cons by (auto simp: after_name_def dest: dropWhile_hd)
      have cs: "cs = name_part cs @ e # es"
        using name_after [of cs] Cons by simp
      have np: "\<forall>x \<in> set (name_part cs). is_name_byte x"
        by (auto simp: name_part_def dest: set_takeWhileD)
      let ?nm = "?open\<lparr>pname := name_part cs\<rparr>"
      have run: "loop_from bt pre (c # cs) st = loop_from bt (pre @ '':'' @ name_part cs) (e # es) ?nm"
        using opened param(1) from_names [of ?open "name_part cs" "e # es" bt "pre @ '':''"] np cs by simp
      have ne: "name_part cs \<noteq> []" if "e = CHR '':'' \<or> e = CHR ''=''"
        using cs param that by auto
      show ?thesis
      proof (cases "e = CHR '':''")
        case True
        then have "List.last (pre @ '':'' @ name_part cs) \<noteq> CHR '':''"
          using ne np name_byte_not_special last_in_set by fastforce
        with run True show ?thesis
          using param Cons from_colon_error [of ?nm "pre @ '':'' @ name_part cs" bt es]
          by (auto simp: tokenize.simps(2) run_matches_def)
      next
        case False
        let ?st = "(close_name bt ?nm)\<lparr>rebound := rebound (close_name bt ?nm) @ [e]\<rparr>"
        have "loop_from bt pre (c # cs) st = loop_from bt (pre @ '':'' @ name_part cs @ [e]) es ?st"
          using run from_end [of ?nm e bt "pre @ '':'' @ name_part cs" es] e False ne by simp
        moreover have "run_matches bt ?st (tokenize es) (loop_from bt (pre @ '':'' @ name_part cs @ [e]) es ?st)"
          using "2.IH"(4) [of d ds e es ?st] param Cons False by (simp add: close_name_def)
        ultimately have "run_matches bt st (map_option ((@) [Param (name_part cs), Text [e]]) (tokenize es))
            (loop_from bt pre (c # cs) st)"
          by (intro run_matches_cong [where st' = ?st]) (simp_all add: close_name_def print_tokens_emit)
        with param Cons False show ?thesis
          by (simp add: tokenize.simps(2))
      qed
    qed
  qed
qed

lemma compile_query_tokens:
  "case tokenize qs of
     None \<Rightarrow> (\<exists>ns i. compile_query bt qs = Err ([], ns) (syntax_error i) \<and> errors_is (syntax_error i) ErrSyntax)
   | Some ts \<Rightarrow> compile_query bt qs = Ok (print_tokens bt 1 ts, token_names ts)"
proof -
  have "run_matches bt init_cstate (tokenize qs) (compile_loop bt qs 0 init_cstate)"
    using loop_from_tokenize [of init_cstate bt qs "[]"] by (simp add: loop_from_def init_cstate_def)
  then show ?thesis
    by (cases "tokenize qs") (auto simp: run_matches_def compile_query_def init_cstate_def syntax_error_def)
qed

text \<open>C5: compiling is tokenizing and printing. A query that tokenizes compiles, for every bindvar
  type, to its tokens printed for that type and to the names of its parameters in order; a query
  that does not is the only one refused, with an error wrapping \<open>ErrSyntax\<close> and an empty query.\<close>

theorem compile_query_tokenize:
  "case tokenize qs of
     None \<Rightarrow> (\<exists>ns i. compile_query bt qs = Err ([], ns) (syntax_error i) \<and> errors_is (syntax_error i) ErrSyntax)
   | Some ts \<Rightarrow> compile_query bt qs = Ok (print_tokens bt 1 ts, token_names ts)"
  by (rule compile_query_tokens)

subsection \<open>What compiled queries have in common\<close>

text \<open>The successful tokenizations as a relation, for rule induction.\<close>

inductive lexed :: "string \<Rightarrow> token list \<Rightarrow> bool" where
  lexed_Nil: "lexed [] []"
| lexed_Text: "c \<noteq> CHR '':'' \<Longrightarrow> lexed cs ts \<Longrightarrow> lexed (c # cs) (Text [c] # ts)"
| lexed_Dangling: "lexed '':'' [Dangling]"
| lexed_Escape: "lexed cs ts \<Longrightarrow> lexed (''::'' @ cs) (Escape # ts)"
| lexed_Assign: "lexed cs ts \<Longrightarrow> lexed ('':='' @ cs) (Assign # ts)"
| lexed_Last: "\<forall>x \<in> set nm. is_name_byte x \<Longrightarrow> nm \<noteq> [] \<Longrightarrow> is_alnum (last nm) \<Longrightarrow>
    lexed ('':'' @ nm) [Param nm]"
| lexed_Trailing: "\<forall>x \<in> set nm. is_name_byte x \<Longrightarrow> is_name_byte c \<Longrightarrow> \<not> is_alnum c \<Longrightarrow>
    lexed ('':'' @ nm @ [c]) [Trailing nm c]"
| lexed_Param: "\<forall>x \<in> set nm. is_name_byte x \<Longrightarrow> \<not> is_name_byte e \<Longrightarrow> e \<noteq> CHR '':'' \<Longrightarrow>
    (nm = [] \<Longrightarrow> e \<noteq> CHR ''='') \<Longrightarrow> lexed es ts \<Longrightarrow>
    lexed ('':'' @ nm @ e # es) (Param nm # Text [e] # ts)"

lemma lexed_of_name:
  assumes cs: "cs = d # ds" "d \<noteq> CHR '':''" "d \<noteq> CHR ''=''"
    and IH: "\<And>e es ts. after_name cs = e # es \<Longrightarrow> tokenize es = Some ts \<Longrightarrow> lexed es ts"
    and ts: "tokenize (CHR '':'' # cs) = Some ts"
  shows "lexed (CHR '':'' # cs) ts"
proof (cases "after_name cs")
  case Nil
  then have all: "\<forall>x \<in> set cs. is_name_byte x"
    by (simp add: after_name_def dropWhile_eq_Nil_conv)
  have ne: "cs \<noteq> []" using cs(1) by simp
  show ?thesis
  proof (cases "is_alnum (last cs)")
    case True
    with Nil cs ts have "ts = [Param cs]" by (simp add: tokenize.simps(2))
    with lexed_Last [OF all ne True] show ?thesis by simp
  next
    case False
    with Nil cs ts have "ts = [Trailing (butlast cs) (last cs)]" by (simp add: tokenize.simps(2))
    moreover have "lexed ('':'' @ butlast cs @ [last cs]) [Trailing (butlast cs) (last cs)]"
      using all ne False by (intro lexed_Trailing) (auto dest: in_set_butlastD)
    ultimately show ?thesis using ne by simp
  qed
next
  case (Cons e es)
  have split: "name_part cs @ e # es = cs" and e: "\<not> is_name_byte e"
    and np: "\<forall>x \<in> set (name_part cs). is_name_byte x"
    using Cons name_after [of cs] by (auto simp: after_name_def name_part_def dest: dropWhile_hd set_takeWhileD)
  from Cons cs ts obtain ts' where ts': "e \<noteq> CHR '':''" "tokenize es = Some ts'"
      "ts = Param (name_part cs) # Text [e] # ts'"
    by (auto simp: tokenize.simps(2) split: if_splits)
  have "lexed ('':'' @ name_part cs @ e # es) (Param (name_part cs) # Text [e] # ts')"
    using np e ts'(1) IH [OF Cons ts'(2)] split cs(1,3) by (intro lexed_Param) auto
  with ts'(3) split show ?thesis by simp
qed

lemma tokenize_lexed: "tokenize qs = Some ts \<Longrightarrow> lexed qs ts"
proof (induction qs arbitrary: ts rule: tokenize.induct)
  case 1
  then show ?case by (simp add: lexed_Nil)
next
  case (2 c cs)
  consider (plain) "c \<noteq> CHR '':''" | (dangling) "c = CHR '':''" "cs = []"
    | (escape) ds where "c = CHR '':''" "cs = CHR '':'' # ds"
    | (assign) ds where "c = CHR '':''" "cs = CHR ''='' # ds"
    | (param) d ds where "c = CHR '':''" "cs = d # ds" "d \<noteq> CHR '':''" "d \<noteq> CHR ''=''"
    by (cases cs) auto
  then show ?case
  proof cases
    case plain
    with "2.prems" "2.IH"(1) show ?thesis by (auto simp: tokenize.simps(2) intro: lexed_Text)
  next
    case dangling
    with "2.prems" show ?thesis by (auto simp: tokenize.simps(2) intro: lexed_Dangling)
  next
    case (escape ds)
    with "2.prems" obtain ts' where ts': "tokenize ds = Some ts'" "ts = Escape # ts'"
      by (auto simp: tokenize.simps(2))
    from lexed_Escape [OF "2.IH"(2) [OF _ escape(2) refl ts'(1)]] escape ts' show ?thesis by simp
  next
    case (assign ds)
    with "2.prems" obtain ts' where ts': "tokenize ds = Some ts'" "ts = Assign # ts'"
      by (auto simp: tokenize.simps(2))
    from lexed_Assign [OF "2.IH"(3) [OF _ assign(2) _ refl ts'(1)]] assign ts' show ?thesis by simp
  next
    case (param d ds)
    have "lexed es ts'" if "after_name cs = e # es" "tokenize es = Some ts'" for e es ts'
      using that "2.prems" param "2.IH"(4) [OF _ param(2) _ _ that(1)]
      by (auto simp: tokenize.simps(2) split: if_splits)
    with param "2.prems" show ?thesis
      using lexed_of_name [OF param(2-4)] by blast
  qed
qed

lemma lexed_source: "lexed qs ts \<Longrightarrow> source_of ts = qs"
  by (induction rule: lexed.induct) simp_all

lemma lexed_name_bytes: "lexed qs ts \<Longrightarrow> nm \<in> set (token_names ts) \<Longrightarrow> \<forall>c \<in> set nm. is_name_byte c"
  by (induction rule: lexed.induct) auto

lemma name_bytes_no_qmark: "\<forall>x \<in> set nm. is_name_byte x \<Longrightarrow> CHR ''?'' \<notin> set nm"
  using name_byte_not_special by blast

lemma name_bytes_count: "\<forall>x \<in> set nm. is_name_byte x \<Longrightarrow> count_list nm CHR ''?'' = 0"
  by (simp add: count_list_notin name_bytes_no_qmark)

lemma compile_queryE:
  assumes "compile_query bt qs = Ok (q, ns)"
  obtains ts where "tokenize qs = Some ts" and "lexed qs ts"
    and "q = print_tokens bt 1 ts" and "ns = token_names ts"
proof (cases "tokenize qs")
  case None
  with assms compile_query_tokens [of bt qs] show ?thesis by auto
next
  case (Some ts)
  with assms compile_query_tokens [of bt qs] show ?thesis
    using tokenize_lexed that by auto
qed

lemma compile_query_Some:
  "tokenize qs = Some ts \<Longrightarrow> compile_query bt qs = Ok (print_tokens bt 1 ts, token_names ts)"
  using compile_query_tokens [of bt qs] by simp

lemma var_text_QUESTION [simp]: "var_text QUESTION k nm = ''?''"
  by (simp add: var_text_def bindtype_defs)

lemma lexed_qmarks:
  "lexed qs ts \<Longrightarrow>
     count_list (print_tokens QUESTION k ts) CHR ''?'' = count_list qs CHR ''?'' + length (token_names ts)"
proof (induction arbitrary: k rule: lexed.induct)
  case (lexed_Trailing nm c)
  then show ?case using name_byte_not_special [of c] by (simp add: name_bytes_count)
qed (simp_all add: name_bytes_count)

text \<open>A query compiled for \<open>QUESTION\<close> has one \<open>?\<close> for every name it returns, besides the \<open>?\<close>s
  the query already had; the names are the same for every bindvar type. So a positional mark of
  the compiled query stands for a name exactly when the source query has no \<open>?\<close> of its own.\<close>

lemma compile_query_marks:
  assumes "compile_query QUESTION qs = Ok (q, ns)"
  shows "count_list q CHR ''?'' = count_list qs CHR ''?'' + length ns \<and>
    (\<exists>q'. compile_query bt qs = Ok (q', ns))"
  using assms by (auto elim!: compile_queryE simp: lexed_qmarks compile_query_Some)

lemma compile_query_marks_witness:
  "compile_query QUESTION ''a=:x AND b=:y2'' = Ok (''a=? AND b=?'', [''x'', ''y2'']) \<and>
   count_list ''a=? AND b=?'' CHR ''?'' = 2 \<and>
   (\<exists>q'. compile_query AT ''a=:x AND b=:y2'' = Ok (q', [''x'', ''y2'']))"
proof -
  have c: "compile_query QUESTION ''a=:x AND b=:y2'' = Ok (''a=? AND b=?'', [''x'', ''y2''])"
    by code_simp
  from compile_query_marks [OF c, of AT] c show ?thesis by simp
qed

lemma number_pieces_prefix:
  "c \<notin> set s \<Longrightarrow> number_pieces ph k (split_on c (s @ r)) = s @ number_pieces ph k (split_on c r)"
proof (induction s)
  case (Cons x s)
  obtain p ps where "split_on c (s @ r) = p # ps" by (cases "split_on c (s @ r)") auto
  with Cons show ?case by (cases ps) auto
qed simp

lemma number_pieces_text:
  "c \<noteq> e \<Longrightarrow> number_pieces ph k (split_on c (e # r)) = e # number_pieces ph k (split_on c r)"
  using number_pieces_prefix [of c "[e]"] by simp

lemma number_pieces_mark:
  "number_pieces ph k (split_on c (c # r)) = ph k @ number_pieces ph (Suc k) (split_on c r)"
  by (simp add: number_pieces_Cons)

lemma lexed_numbered:
  assumes "lexed qs ts" and "CHR ''?'' \<notin> set qs"
    and bt: "bt = DOLLAR \<or> bt = AT"
  shows "print_tokens bt k ts =
    number_pieces (placeholder bt) k (split_on CHR ''?'' (print_tokens QUESTION k' ts))"
proof -
  have vt: "var_text bt j nm = placeholder bt j" for j nm
    using bt by (auto simp: var_text_def placeholder_def rebind_mark_def bindtype_defs)
  show ?thesis
    using assms(1,2)
  proof (induction arbitrary: k k' rule: lexed.induct)
    case (lexed_Trailing nm c)
    then have "split_on CHR ''?'' [c] = [[c]]" by auto
    then show ?case by (simp add: vt number_pieces_mark del: split_on.simps)
  qed (simp_all add: vt number_pieces_mark number_pieces_text split_on_no_sep del: split_on.simps)
qed

text \<open>C33: compiling straight to \<open>$n\<close> or \<open>@pn\<close> is the same as compiling to \<open>?\<close> and then rebinding,
  for every query without a \<open>?\<close> of its own.\<close>

theorem compile_then_rebind:
  assumes "compile_query QUESTION qs = Ok (q, ns)"
    and "CHR ''?'' \<notin> set qs" and "bt = DOLLAR \<or> bt = AT"
  shows "compile_query bt qs = Ok (Rebind bt q, ns)"
proof -
  from assms(1) obtain ts where ts: "tokenize qs = Some ts" "lexed qs ts"
      "q = print_tokens QUESTION 1 ts" "ns = token_names ts"
    by (rule compile_queryE)
  have "bt \<noteq> QUESTION" "bt \<noteq> UNKNOWN" using assms(3) by (auto simp: bindtype_defs)
  then have "Rebind bt q = number_pieces (placeholder bt) 1 (split_on CHR ''?'' q)"
    by (simp add: Rebind_def rebind_loop_pieces)
  also have "\<dots> = print_tokens bt 1 ts"
    using lexed_numbered [OF ts(2) assms(2,3)] ts(3) by metis
  finally show ?thesis using ts by (simp add: compile_query_Some)
qed

theorem compile_then_rebind_witness:
  "compile_query QUESTION ''a=:x AND b=:y2'' = Ok (''a=? AND b=?'', [''x'', ''y2'']) \<and>
   CHR ''?'' \<notin> set ''a=:x AND b=:y2'' \<and>
   compile_query DOLLAR ''a=:x AND b=:y2'' = Ok (''a=$1 AND b=$2'', [''x'', ''y2''])"
proof -
  have c: "compile_query QUESTION ''a=:x AND b=:y2'' = Ok (''a=? AND b=?'', [''x'', ''y2''])"
    by code_simp
  have r: "Rebind DOLLAR ''a=? AND b=?'' = ''a=$1 AND b=$2''"
    by code_simp
  from compile_then_rebind [OF c, of DOLLAR] c r show ?thesis by simp
qed

lemma source_length_NAMED:
  "length (source_of ts) = length (print_tokens NAMED k ts) + count_list ts Escape + count_list ts Dangling"
proof -
  have "var_text NAMED j nm = '':'' @ nm" for j nm by (simp add: var_text_def)
  then show ?thesis
  proof (induction ts arbitrary: k)
    case (Cons t ts)
    then show ?case
      using Cons.IH [of k] Cons.IH [of "Suc k"] by (cases t) simp_all
  qed simp
qed

lemma source_of_NAMED:
  "Escape \<notin> set ts \<Longrightarrow> Dangling \<notin> set ts \<Longrightarrow> print_tokens NAMED k ts = source_of ts"
proof -
  have "var_text NAMED j nm = '':'' @ nm" for j nm by (simp add: var_text_def)
  then show "Escape \<notin> set ts \<Longrightarrow> Dangling \<notin> set ts \<Longrightarrow> ?thesis"
    by (induction ts arbitrary: k rule: source_of.induct) simp_all
qed

text \<open>C40: compiling for \<open>NAMED\<close> gives the query back unchanged exactly when it has no \<open>::\<close> escape
  and does not end in a bare colon.\<close>

theorem compile_named_identity:
  "tokenize qs = Some ts \<Longrightarrow>
     compile_query NAMED qs = Ok (qs, token_names ts) \<longleftrightarrow> Escape \<notin> set ts \<and> Dangling \<notin> set ts"
  using lexed_source [OF tokenize_lexed, of qs ts] source_length_NAMED [of ts 1] source_of_NAMED [of ts 1]
  by (auto simp: compile_query_Some count_list_0_iff)

theorem compile_named_identity_witness:
  "tokenize ''x := :y,'' = Some [Text ''x'', Text '' '', Assign, Text '' '', Param ''y'', Text '',''] \<and>
   compile_query NAMED ''x := :y,'' = Ok (''x := :y,'', [''y''])"
proof -
  have t: "tokenize ''x := :y,'' = Some [Text ''x'', Text '' '', Assign, Text '' '', Param ''y'', Text '','']"
    by code_simp
  from compile_named_identity [OF t] t show ?thesis by simp
qed

lemma tokenize_plain:
  "c \<noteq> CHR '':'' \<Longrightarrow> tokenize (c # cs) = map_option ((#) (Text [c])) (tokenize cs)"
  by (simp add: tokenize.simps(2))

lemma tokenize_name:
  "cs \<noteq> [] \<Longrightarrow> hd cs \<noteq> CHR '':'' \<Longrightarrow> hd cs \<noteq> CHR ''='' \<Longrightarrow>
    tokenize (CHR '':'' # cs) =
      (case after_name cs of
         [] \<Rightarrow> if is_alnum (last cs) then Some [Param cs] else Some [Trailing (butlast cs) (last cs)]
       | e # es \<Rightarrow>
           if e = CHR '':'' then None
           else map_option (\<lambda>ts. Param (name_part cs) # Text [e] # ts) (tokenize es))"
  by (subst tokenize.simps(2), cases cs) (simp_all split: list.split)

lemma tokenize_text:
  "CHR '':'' \<notin> set pre \<Longrightarrow>
     tokenize (pre @ r) = map_option ((@) (map (\<lambda>c. Text [c]) pre)) (tokenize r)"
proof (induction pre)
  case Nil
  show ?case by (cases "tokenize r") simp_all
next
  case (Cons a pre)
  then show ?case by (cases "tokenize r") (auto simp: tokenize_plain)
qed

lemma print_text: "print_tokens bt k (map (\<lambda>c. Text [c]) s @ ts) = s @ print_tokens bt k ts"
  by (induction s) simp_all

lemma names_text: "token_names (map (\<lambda>c. Text [c]) s @ ts) = token_names ts"
  by (induction s) simp_all

text \<open>A parameter whose name ends the query in an underscore or a dot loses that byte: the name
  returned is cut short, and the byte is left behind in the query text. Anywhere else in a query
  the byte belongs to the name.\<close>

lemma compile_trailing_underscore:
  assumes "CHR '':'' \<notin> set pre" and "\<forall>x \<in> set nm. is_name_byte x" and "c = CHR ''_'' \<or> c = CHR ''.''"
  shows "compile_query bt (pre @ '':'' @ nm @ [c]) = Ok (pre @ var_text bt 1 nm @ [c], [nm]) \<and>
    compile_query bt (pre @ '':'' @ nm @ [c] @ '' '') = Ok (pre @ var_text bt 1 (nm @ [c]) @ '' '', [nm @ [c]])"
proof -
  have c: "is_name_byte c" "\<not> is_alnum c" "\<not> is_name_byte CHR '' ''"
    using assms(3) by (auto simp: is_name_byte_def is_alnum_def less_eq_char_def)
  have hd: "is_name_byte (hd (nm @ [c] @ r))" for r
    using assms(2) c(1) by (cases nm) auto
  note nd = name_byte_not_special [OF hd]
  have all: "after_name (nm @ [c]) = []" "after_name (nm @ [c] @ '' '') = '' ''"
      "name_part (nm @ [c] @ '' '') = nm @ [c]"
    using assms(2) c by (auto simp: after_name_def name_part_def dropWhile_append takeWhile_append)
  have "tokenize ('':'' @ nm @ [c]) = Some [Trailing nm c]"
    using tokenize_name [of "nm @ [c]"] all(1) nd [of "[]"] c(2) by simp
  moreover have "tokenize ('':'' @ nm @ [c] @ '' '') = Some [Param (nm @ [c]), Text '' '']"
    using tokenize_name [of "nm @ [c] @ '' ''"] all(2,3) nd [of "'' ''"] by simp
  ultimately show ?thesis
    using tokenize_text [OF assms(1)]
    by (simp_all add: compile_query_Some print_text names_text)
qed

lemma compile_trailing_underscore_witness:
  "compile_query QUESTION ''id = :user_'' = Ok (''id = ?_'', [''user''])"
  using compile_trailing_underscore [of "''id = ''" "''user''" "CHR ''_''" QUESTION]
  by (simp add: is_name_byte_def is_alnum_def less_eq_char_def)

end
