(* ===== verification/Bind_Cache.thy ===== *)
theory Bind_Cache
  imports Bind_Compile
begin

text \<open>
  The compile cache of \<open>internal/bind/bind.go\<close> with its aliasing: a \<open>[]string\<close> is a reference to
  a backing array, the cache keeps the reference \<open>compileNamedQuery\<close> returns, and the public
  \<open>CompileNamedQuery\<close> hands out a copy, because its callers may write to what they get
  (\<open>NamedStmt.Params\<close> is exported).  Reachability over these operations and the callers' writes
  shows that the copy is enough: no later compilation is ever wrong.
\<close>

subsection \<open>The cache and the slices\<close>

type_synonym compile_key = "string \<times> int"

text \<open>A \<open>[]string\<close>: \<^const>\<open>None\<close> is the nil slice, \<open>Some r\<close> the array at \<open>r\<close>.\<close>

type_synonym slice_ref = "nat option"

record cworld =
  compileCache :: "(compile_key, string \<times> slice_ref) sync_map"
  arrays :: "nat \<Rightarrow> string list"
  next_array :: nat

definition read_slice :: "cworld \<Rightarrow> slice_ref \<Rightarrow> string list" where
  "read_slice w s = (case s of None \<Rightarrow> [] | Some r \<Rightarrow> arrays w r)"

text \<open>A fresh slice holding \<open>ns\<close>; the slice that nothing was appended to stays nil.\<close>

definition new_slice :: "cworld \<Rightarrow> string list \<Rightarrow> cworld \<times> slice_ref" where
  "new_slice w ns =
     (if ns = [] then (w, None)
      else (w\<lparr>arrays := (arrays w)(next_array w := ns), next_array := Suc (next_array w)\<rparr>, Some (next_array w)))"

text \<open>What \<open>compileNamedQuery\<close> does after it missed the cache.\<close>

definition compile_and_store ::
  "cworld \<Rightarrow> string \<Rightarrow> int \<Rightarrow> cworld \<times> (string \<times> slice_ref) result" where
  "compile_and_store w qs bindType =
     (case compile_query bindType qs of
        Ok (q, ns) \<Rightarrow>
          let (w1, ref) = new_slice w ns
          in (w1\<lparr>compileCache := sync_store (compileCache w1) (qs, bindType) (q, ref)\<rparr>, Ok (q, ref))
      | Err (q, ns) e \<Rightarrow> let (w1, ref) = new_slice w ns in (w1, Err (q, ref) e)
      | Panic \<Rightarrow> (w, Panic))"

definition compileNamedQuery ::
  "cworld \<Rightarrow> string \<Rightarrow> int \<Rightarrow> cworld \<times> (string \<times> slice_ref) result" where
  "compileNamedQuery w qs bindType =
     (case sync_load (compileCache w) (qs, bindType) of
        Some res \<Rightarrow> (w, Ok res)
      | None \<Rightarrow> compile_and_store w qs bindType)"

definition CompileNamedQuery ::
  "cworld \<Rightarrow> string \<Rightarrow> int \<Rightarrow> cworld \<times> (string \<times> slice_ref) result" where
  "CompileNamedQuery w qs bindType =
     (let (w1, r) = compileNamedQuery w qs bindType in
      case r of
        Ok (q, ref) \<Rightarrow>
          if read_slice w1 ref = [] then (w1, r)
          else let (w2, ref2) = new_slice w1 (read_slice w1 ref) in (w2, Ok (q, ref2))
      | _ \<Rightarrow> (w1, r))"

definition init_cworld :: cworld where
  "init_cworld = \<lparr>compileCache = sync_empty, arrays = (\<lambda>_. []), next_array = 0\<rparr>"

text \<open>What a result says once its slice is read.\<close>

fun deref_result :: "cworld \<Rightarrow> (string \<times> slice_ref) result \<Rightarrow> (string \<times> string list) result" where
  "deref_result w (Ok (q, ref)) = Ok (q, read_slice w ref)"
| "deref_result w (Err (q, ref) e) = Err (q, read_slice w ref) e"
| "deref_result w Panic = Panic"

subsection \<open>Runs\<close>

text \<open>
  The state is the world and the arrays the callers hold. A caller holds what the public
  function returned to it and may write any element of it; the code inside the package calls
  the uncached function and only reads.
\<close>

definition owned_by_result :: "(string \<times> slice_ref) result \<Rightarrow> nat set" where
  "owned_by_result r = (case r of Ok (q, Some a) \<Rightarrow> {a} | Err (q, Some a) e \<Rightarrow> {a} | _ \<Rightarrow> {})"

inductive cache_step :: "cworld \<times> nat set \<Rightarrow> cworld \<times> nat set \<Rightarrow> bool" where
  public_call: "CompileNamedQuery w qs bt = (w', r) \<Longrightarrow>
    cache_step (w, own) (w', own \<union> owned_by_result r)"
| internal_call: "compileNamedQuery w qs bt = (w', r) \<Longrightarrow> cache_step (w, own) (w', own)"
| caller_write: "a \<in> own \<Longrightarrow> cache_step (w, own) (w\<lparr>arrays := (arrays w)(a := (arrays w a)[i := s])\<rparr>, own)"

inductive cache_reachable :: "cworld \<times> nat set \<Rightarrow> bool" where
  start: "cache_reachable (init_cworld, {})"
| step: "cache_reachable s \<Longrightarrow> cache_step s t \<Longrightarrow> cache_reachable t"

definition entry_ok :: "cworld \<Rightarrow> nat set \<Rightarrow> compile_key \<Rightarrow> string \<times> slice_ref \<Rightarrow> bool" where
  "entry_ok w own k v \<longleftrightarrow>
     compile_query (snd k) (fst k) = Ok (fst v, read_slice w (snd v)) \<and>
     (\<forall>a. snd v = Some a \<longrightarrow> a < next_array w \<and> a \<notin> own \<and> arrays w a \<noteq> [])"

definition cache_inv :: "cworld \<times> nat set \<Rightarrow> bool" where
  "cache_inv s \<longleftrightarrow>
     sync_memo.agrees (compileCache (fst s)) (entry_ok (fst s) (snd s)) \<and> (\<forall>a \<in> snd s. a < next_array (fst s))"

lemma entry_ok_fresh:
  "entry_ok w own k v \<Longrightarrow>
     entry_ok (w\<lparr>arrays := (arrays w)(next_array w := ns), next_array := Suc (next_array w)\<rparr>)
       (own \<union> (if hold then {next_array w} else {})) k v"
  by (cases "snd v") (auto simp: entry_ok_def read_slice_def)

lemma entry_ok_write:
  "entry_ok w own k v \<Longrightarrow> a \<in> own \<Longrightarrow> entry_ok (w\<lparr>arrays := (arrays w)(a := xs)\<rparr>) own k v"
  by (cases "snd v") (auto simp: entry_ok_def read_slice_def)

lemma entry_ok_cache [simp]: "entry_ok (w\<lparr>compileCache := c\<rparr>) own = entry_ok w own"
  by (intro ext) (auto simp: entry_ok_def read_slice_def split: option.splits)

lemma read_slice_cache [simp]: "read_slice (w\<lparr>compileCache := c\<rparr>) s = read_slice w s"
  by (simp add: read_slice_def split: option.split)

lemma new_slice_read: "new_slice w ns = (w', ref) \<Longrightarrow> read_slice w' ref = ns"
  by (auto simp: new_slice_def read_slice_def split: if_splits)

lemma new_slice_inv:
  assumes "new_slice w ns = (w', ref)" and "cache_inv (w, own)"
  shows "cache_inv (w', own)"
    and "cache_inv (w', own \<union> (case ref of None \<Rightarrow> {} | Some a \<Rightarrow> {a}))"
    and "compileCache w' = compileCache w"
    and "\<And>a. ref = Some a \<Longrightarrow> a < next_array w' \<and> a \<notin> own \<and> arrays w' a \<noteq> []"
  using assms entry_ok_fresh [of w own _ _ ns False] entry_ok_fresh [of w own _ _ ns True]
  by (auto simp: new_slice_def cache_inv_def intro: less_SucI
      elim!: sync_memo.agrees_mono split: if_splits)

text \<open>A result read through its slice is right, and no caller holds its array.\<close>

definition result_ok :: "cworld \<times> nat set \<Rightarrow> compile_key \<Rightarrow> (string \<times> slice_ref) result \<Rightarrow> bool" where
  "result_ok s k r \<longleftrightarrow> deref_result (fst s) r = compile_query (snd k) (fst k) \<and>
     (\<forall>q a. r = Ok (q, Some a) \<or> (\<exists>e. r = Err (q, Some a) e) \<longrightarrow> a < next_array (fst s) \<and> a \<notin> snd s \<and> arrays (fst s) a \<noteq> [])"

lemma cache_hit_ok:
  assumes "cache_inv s" and "sync_load (compileCache (fst s)) k = Some res"
  shows "result_ok s k (Ok res)"
proof -
  have "entry_ok (fst s) (snd s) k res" using assms by (auto simp: cache_inv_def dest: sync_memo.agrees_hit)
  then show ?thesis by (cases res) (auto simp: entry_ok_def result_ok_def)
qed

lemma compile_and_store_correct:
  assumes "compile_and_store w qs bt = (w', r)" and inv: "cache_inv (w, own)"
  shows "cache_inv (w', own) \<and> result_ok (w', own) (qs, bt) r"
proof (cases "compile_query bt qs")
  case (Ok v)
  obtain q ns where v: "v = (q, ns)" by (cases v)
  obtain w1 ref where w1: "new_slice w ns = (w1, ref)" by (cases "new_slice w ns")
  note fresh = new_slice_inv [OF w1 inv] new_slice_read [OF w1]
  have "entry_ok w1 own (qs, bt) (q, ref)"
    using Ok v fresh by (simp add: entry_ok_def)
  with fresh(1) have "cache_inv (w1\<lparr>compileCache := sync_store (compileCache w1) (qs, bt) (q, ref)\<rparr>, own)"
    by (simp add: cache_inv_def sync_memo.agrees_store)
  then show ?thesis
    using assms(1) Ok v w1 fresh(4,5) by (auto simp: compile_and_store_def result_ok_def)
next
  case (Err v e)
  obtain q ns where v: "v = (q, ns)" by (cases v)
  obtain w1 ref where w1: "new_slice w ns = (w1, ref)" by (cases "new_slice w ns")
  show ?thesis
    using assms(1) Err v w1 new_slice_inv(1,4) [OF w1 inv] new_slice_read [OF w1]
    by (auto simp: compile_and_store_def result_ok_def)
next
  case Panic
  with assms show ?thesis by (auto simp: compile_and_store_def result_ok_def)
qed

lemma compileNamedQuery_correct:
  assumes "compileNamedQuery w qs bt = (w', r)" and inv: "cache_inv (w, own)"
  shows "cache_inv (w', own)" and "deref_result w' r = compile_query bt qs"
    and "\<And>q a. r = Ok (q, Some a) \<Longrightarrow> a \<notin> own \<and> arrays w' a \<noteq> []"
proof -
  have "cache_inv (w', own) \<and> result_ok (w', own) (qs, bt) r"
    using assms compile_and_store_correct [OF _ inv] cache_hit_ok [OF inv, of "(qs, bt)"]
    by (cases "sync_load (compileCache w) (qs, bt)") (auto simp: compileNamedQuery_def)
  then show "cache_inv (w', own)" and "deref_result w' r = compile_query bt qs"
    and "\<And>q a. r = Ok (q, Some a) \<Longrightarrow> a \<notin> own \<and> arrays w' a \<noteq> []"
    by (auto simp: result_ok_def)
qed

lemma compileNamedQuery_errD:
  assumes "compileNamedQuery w qs bt = (w', Err (q, ref) e)" and "cache_inv (w, own)"
  shows "cache_inv (w', own \<union> (case ref of None \<Rightarrow> {} | Some a \<Rightarrow> {a}))"
proof -
  from assms(1) obtain ns where "new_slice w ns = (w', ref)"
    by (auto simp: compileNamedQuery_def compile_and_store_def Let_def split: option.splits result.splits prod.splits)
  from new_slice_inv(2) [OF this assms(2)] show ?thesis .
qed

lemma CompileNamedQuery_correct:
  assumes "CompileNamedQuery w qs bt = (w', r)" and inv: "cache_inv (w, own)"
  shows "cache_inv (w', own \<union> owned_by_result r)" and "deref_result w' r = compile_query bt qs"
proof -
  obtain w1 r1 where call: "compileNamedQuery w qs bt = (w1, r1)"
    by (cases "compileNamedQuery w qs bt")
  note c = compileNamedQuery_correct [OF call inv]
  have "cache_inv (w', own \<union> owned_by_result r) \<and> deref_result w' r = compile_query bt qs"
  proof (cases r1)
    case (Ok v)
    obtain q ref where v: "v = (q, ref)" by (cases v)
    show ?thesis
    proof (cases "read_slice w1 ref = []")
      case True
      have "ref = None"
        using c(3) [of q] Ok v True by (cases ref) (auto simp: read_slice_def)
      then show ?thesis
        using assms(1) call Ok v c True by (auto simp: CompileNamedQuery_def owned_by_result_def)
    next
      case False
      obtain w2 ref2 where w2: "new_slice w1 (read_slice w1 ref) = (w2, ref2)"
        by (cases "new_slice w1 (read_slice w1 ref)")
      have "r = Ok (q, ref2)" "w' = w2"
        using assms(1) call Ok v False w2 by (simp_all add: CompileNamedQuery_def)
      then show ?thesis
        using new_slice_inv(2) [OF w2 c(1)] new_slice_read [OF w2] c(2) Ok v
        by (cases ref2) (simp_all add: owned_by_result_def)
    qed
  next
    case (Err v e)
    obtain q ref where v: "v = (q, ref)" by (cases v)
    with assms call Err have "r = Err (q, ref) e" "w' = w1"
      by (simp_all add: CompileNamedQuery_def)
    with compileNamedQuery_errD [of w qs bt w1 q ref e own] call Err v inv c(2) show ?thesis
      by (cases ref) (simp_all add: owned_by_result_def)
  next
    case Panic
    with assms call c show ?thesis by (simp add: CompileNamedQuery_def owned_by_result_def)
  qed
  then show "cache_inv (w', own \<union> owned_by_result r)" and "deref_result w' r = compile_query bt qs"
    by auto
qed

lemma cache_step_inv: "cache_step s t \<Longrightarrow> cache_inv s \<Longrightarrow> cache_inv t"
proof (induction rule: cache_step.induct)
  case (public_call w qs bt w' r own)
  then show ?case by (rule CompileNamedQuery_correct(1))
next
  case (internal_call w qs bt w' r own)
  then show ?case by (rule compileNamedQuery_correct(1))
next
  case (caller_write a own w i s)
  then show ?case
    by (auto simp: cache_inv_def elim!: sync_memo.agrees_mono intro: entry_ok_write)
qed

lemma cache_reachable_inv: "cache_reachable s \<Longrightarrow> cache_inv s"
proof (induction rule: cache_reachable.induct)
  case start
  show ?case by (simp add: cache_inv_def init_cworld_def sync_memo.agrees_empty)
next
  case (step s t)
  then show ?case by (blast intro: cache_step_inv)
qed

text \<open>The compile cache is never poisoned. After any sequence of compilations, through the
  public or the internal function, and of writes by callers to the name slices the public
  function gave them, both functions return, for every query and bindvar type, exactly what a
  compilation without a cache returns.\<close>

lemma compile_cache_transparent:
  assumes "cache_reachable (w, own)"
  shows "(case compileNamedQuery w qs bt of (w', r) \<Rightarrow> deref_result w' r = compile_query bt qs) \<and>
    (case CompileNamedQuery w qs bt of (w', r) \<Rightarrow> deref_result w' r = compile_query bt qs)"
  using compileNamedQuery_correct(2) [of w qs bt _ _ own] CompileNamedQuery_correct(2) [of w qs bt _ _ own]
    cache_reachable_inv [OF assms]
  by (auto split: prod.splits)

text \<open>A run with a hostile caller: it compiles, overwrites the names it got, and compiles again.\<close>

definition hostile_world :: cworld where
  "hostile_world =
     (let w1 = fst (CompileNamedQuery init_cworld ''a=:x '' QUESTION)
      in w1\<lparr>arrays := (arrays w1)(1 := (arrays w1 1)[0 := ''POISONED''])\<rparr>)"

lemma hostile_first_call:
  "owned_by_result (snd (CompileNamedQuery init_cworld ''a=:x '' QUESTION)) = {1}"
  by code_simp

lemma hostile_reachable: "cache_reachable (hostile_world, {1})"
proof -
  obtain w1 r where call: "CompileNamedQuery init_cworld ''a=:x '' QUESTION = (w1, r)"
    by (cases "CompileNamedQuery init_cworld ''a=:x '' QUESTION")
  have "cache_step (init_cworld, {}) (w1, {1})"
    using cache_step.public_call [OF call, of "{}"] hostile_first_call call by simp
  then have "cache_reachable (w1, {1})"
    by (rule cache_reachable.step [OF cache_reachable.start])
  then show ?thesis
    using cache_step.caller_write [of 1 "{1}" w1 0 "''POISONED''"] call
    by (auto simp: hostile_world_def intro: cache_reachable.step)
qed

lemma compile_cache_transparent_witness:
  "cache_reachable (hostile_world, {1}) \<and> arrays hostile_world 1 = [''POISONED''] \<and>
   (case CompileNamedQuery hostile_world ''a=:x '' QUESTION of
      (w', r) \<Rightarrow> deref_result w' r = Ok (''a=? '', [''x'']))"
proof -
  have "arrays hostile_world 1 = [''POISONED'']" by code_simp
  moreover have "compile_query QUESTION ''a=:x '' = Ok (''a=? '', [''x''])" by code_simp
  ultimately show ?thesis
    using compile_cache_transparent [OF hostile_reachable, where qs = "''a=:x ''" and bt = QUESTION] hostile_reachable
    by simp
qed

text \<open>The copy is what does it. A caller of the internal function that wrote to the slice it
  got would change what every later compilation of that query returns.\<close>

lemma internal_names_shared:
  assumes "compile_query bt qs = Ok (q, n # ns)" and "s \<noteq> n"
  shows "\<exists>w a. compileNamedQuery init_cworld qs bt = (w, Ok (q, Some a)) \<and>
    (let w' = w\<lparr>arrays := (arrays w)(a := (arrays w a)[0 := s])\<rparr> in
     case compileNamedQuery w' qs bt of (w'', r) \<Rightarrow> deref_result w'' r = Ok (q, s # ns))"
  using assms
  by (simp add: compileNamedQuery_def compile_and_store_def init_cworld_def sync_load_def sync_store_def sync_empty_def
      new_slice_def read_slice_def)

lemma internal_names_shared_witness:
  "\<exists>w a. compileNamedQuery init_cworld ''a=:x '' QUESTION = (w, Ok (''a=? '', Some a)) \<and>
    (let w' = w\<lparr>arrays := (arrays w)(a := (arrays w a)[0 := ''EVIL''])\<rparr> in
     case compileNamedQuery w' ''a=:x '' QUESTION of (w'', r) \<Rightarrow> deref_result w'' r = Ok (''a=? '', [''EVIL'']))"
proof -
  have "compile_query QUESTION ''a=:x '' = Ok (''a=? '', [''x''])" by code_simp
  from internal_names_shared [OF this, of "''EVIL''"] show ?thesis by simp
qed

end
