(* ===== verification/Reflect_Read.thy ===== *)
theory Reflect_Read
  imports Reflectx_TypeMap
begin

text \<open>
  Reading a field by an index path without touching the value: \<open>FieldByIndexesReadOnly\<close> of
  \<open>internal/reflectx/reflectx.go\<close> over the values of \<open>Go_Types\<close>.  An \<open>rvalue\<close> is a
  \<open>reflect.Value\<close>: the value, its static type and its read-only flag; \<^const>\<open>None\<close> is a panic.
\<close>

subsection \<open>\<open>reflect.Value\<close>\<close>

text \<open>The read-only part of the flag: obtained through an exported field only, through an embedded
  unexported field last, or through another unexported field anywhere.\<close>

datatype ro_flag = NoRO | EmbedRO | StickyRO

record rvalue =
  rv_val :: gval
  rv_type :: gtype
  rv_ro :: ro_flag

definition field_ro :: "ro_flag \<Rightarrow> gfield \<Rightarrow> ro_flag" where
  "field_ro r f =
     (if r = StickyRO then StickyRO
      else if fexported f then NoRO
      else if fanonymous f then EmbedRO else StickyRO)"

text \<open>\<open>Value.Field\<close>; it panics on anything but a struct and on an index out of range.\<close>

definition value_field :: "tenv \<Rightarrow> rvalue \<Rightarrow> nat \<Rightarrow> rvalue option" where
  "value_field E v i =
     (case (rv_type v, rv_val v) of
        (TStruct s, VStruct s' fs) \<Rightarrow>
          (case struct_of E s of
             None \<Rightarrow> None
           | Some d \<Rightarrow>
               if i < length (sfields d) \<and> i < length fs
               then Some \<lparr>rv_val = fs ! i, rv_type = ftype (sfields d ! i), rv_ro = field_ro (rv_ro v) (sfields d ! i)\<rparr>
               else None)
      | _ \<Rightarrow> None)"

text \<open>\<open>Value.Elem\<close> of a pointer; the zero \<open>Value\<close> of a nil pointer is \<^const>\<open>None\<close>.\<close>

definition value_elem :: "rvalue \<Rightarrow> rvalue option" where
  "value_elem v =
     (case (ptr_elem (rv_type v), rv_val v) of
        (Some e, VPtr _ (Some x)) \<Rightarrow> Some (v\<lparr>rv_val := x, rv_type := e\<rparr>)
      | _ \<Rightarrow> None)"

definition is_nil_ptr :: "rvalue \<Rightarrow> bool" where
  "is_nil_ptr v \<longleftrightarrow> kind_of (rv_type v) = KPtr \<and> (case rv_val v of VPtr _ (Some _) \<Rightarrow> False | _ \<Rightarrow> True)"

definition Indirect :: "rvalue \<Rightarrow> rvalue option" where
  "Indirect v = (if kind_of (rv_type v) = KPtr then value_elem v else Some v)"

text \<open>\<open>Value.Interface\<close>; it panics when the value came through an unexported field.\<close>

definition value_interface :: "rvalue \<Rightarrow> gval option" where
  "value_interface v = (if rv_ro v = NoRO then Some (rv_val v) else None)"

text \<open>\<open>reflect.Zero\<close>.  No struct contains itself, so \<open>visited\<close> never stops it on Go's types.\<close>

fun zero_scalar :: "basic \<Rightarrow> string" where
  "zero_scalar BString = []"
| "zero_scalar BBool = ''false''"
| "zero_scalar _ = ''0''"

function (sequential) zero_val :: "tenv \<Rightarrow> string list \<Rightarrow> gtype \<Rightarrow> gtype \<Rightarrow> gval" where
  "zero_val E vis ty (TBasic b) = VBasic ty (zero_scalar b)"
| "zero_val E vis ty (TPtr e) = VPtr e None"
| "zero_val E vis ty (TSlice e) = VSeq ty []"
| "zero_val E vis ty (TArray n e) = VSeq ty (replicate n (zero_val E vis e e))"
| "zero_val E vis ty (TMap k v) = VMap ty []"
| "zero_val E vis ty (TStruct s) =
     (if s \<in> set vis then VStruct s []
      else case struct_of E s of
        None \<Rightarrow> VStruct s []
      | Some d \<Rightarrow> VStruct s (map (\<lambda>t. zero_val E (s # vis) t t) (map ftype (sfields d))))"
| "zero_val E vis ty (TIface n) = VNil"
| "zero_val E vis ty (TNamed n u) = zero_val E vis ty u"
| "zero_val E vis ty (TOther n) = VOther ty []"
  by pat_completeness auto
termination
  by (relation "measures [\<lambda>(E, vis, ty, t). unvisited E vis, \<lambda>(E, vis, ty, t). size t]")
    (auto simp: unvisited_Cons)

definition Zero :: "tenv \<Rightarrow> gtype \<Rightarrow> rvalue" where
  "Zero E t = \<lparr>rv_val = zero_val E [] t t, rv_type = t, rv_ro = NoRO\<rparr>"

text \<open>\<open>reflect.ValueOf\<close>; \<^const>\<open>None\<close> is the zero \<open>Value\<close> of the nil interface.\<close>

definition ValueOf :: "gval \<Rightarrow> rvalue option" where
  "ValueOf v = map_option (\<lambda>t. \<lparr>rv_val = v, rv_type = t, rv_ro = NoRO\<rparr>) (type_of v)"

subsection \<open>\<open>FieldByIndexesReadOnly\<close>\<close>

fun FieldByIndexesReadOnly :: "tenv \<Rightarrow> rvalue \<Rightarrow> nat list \<Rightarrow> rvalue option" where
  "FieldByIndexesReadOnly E v [] = Some v"
| "FieldByIndexesReadOnly E v (i # is) =
     (let v1 = (if is_nil_ptr v
                then (case ptr_elem (rv_type v) of None \<Rightarrow> v | Some e \<Rightarrow> Zero E e)
                else v) in
      case Indirect v1 of
        None \<Rightarrow> None
      | Some v2 \<Rightarrow>
          (case value_field E v2 i of
             None \<Rightarrow> None
           | Some v3 \<Rightarrow> FieldByIndexesReadOnly E v3 is))"

subsection \<open>Typed values\<close>

text \<open>A value of a type; an interface holds any value that is typed by its own type.\<close>

function (sequential) typed :: "tenv \<Rightarrow> gtype \<Rightarrow> gval \<Rightarrow> bool" where
  "typed E t VNil = (kind_of t = KIface)"
| "typed E t (VBasic t' s) =
     (kind_of t = KIface \<or> (t' = t \<and> (case kind_of t of KBasic b \<Rightarrow> True | _ \<Rightarrow> False)))"
| "typed E t (VPtr e p) =
     (kind_of t = KIface \<or> (ptr_elem t = Some e \<and> (case p of None \<Rightarrow> True | Some v \<Rightarrow> typed E e v)))"
| "typed E t (VStruct s fs) =
     (kind_of t = KIface \<or>
      (t = TStruct s \<and>
       (case struct_of E s of
          None \<Rightarrow> False
        | Some d \<Rightarrow> length fs = length (sfields d) \<and>
            list_all (\<lambda>(f, v). typed E (ftype f) v) (zip (sfields d) fs))))"
| "typed E t (VSeq t' vs) =
     (kind_of t = KIface \<or>
      (t' = t \<and> (kind_of t = KSlice \<or> kind_of t = KArray)))"
| "typed E t (VMap t' m) = (kind_of t = KIface \<or> (t' = t \<and> kind_of t = KMap))"
| "typed E t (VOther t' s) = (kind_of t = KIface \<or> (t' = t \<and> kind_of t = KOther))"
  by pat_completeness auto
termination
  by (relation "measure (\<lambda>(E, t, v). size v)")
    (auto simp: less_Suc_eq_le dest!: set_zip_rightD intro: size_list_estimation')

lemma typed_structE:
  assumes "typed E (TStruct s) v"
  obtains fs d where "v = VStruct s fs" "struct_of E s = Some d" "length fs = length (sfields d)"
    "\<And>i. i < length fs \<Longrightarrow> typed E (ftype (sfields d ! i)) (fs ! i)"
  using assms by (cases v) (fastforce simp: list_all_length split: option.splits)+

text \<open>Every struct type has a zero value: Go rejects a struct that contains itself.\<close>

definition zero_ok :: "tenv \<Rightarrow> bool" where
  "zero_ok E \<longleftrightarrow> list_all (\<lambda>(s, d). typed E (TStruct s) (zero_val E [] (TStruct s) (TStruct s))) (structs E)"

lemma zero_ok_struct:
  "zero_ok E \<Longrightarrow> struct_of E s = Some d \<Longrightarrow> typed E (TStruct s) (zero_val E [] (TStruct s) (TStruct s))"
proof -
  assume "zero_ok E" and "struct_of E s = Some d"
  then have "(s, d) \<in> set (structs E)" by (auto simp: struct_of_def dest: map_of_SomeD)
  with \<open>zero_ok E\<close> show ?thesis unfolding zero_ok_def list_all_iff by blast
qed

lemma kind_ptr: "ptr_elem t = Some e \<Longrightarrow> kind_of t = KPtr"
  using ptr_elem_kind by blast

lemma kind_not_ptr: "ptr_elem t = None \<Longrightarrow> kind_of t \<noteq> KPtr"
  using ptr_elem_kind [of t] by auto

text \<open>What the loop body reaches before it takes the field.\<close>

lemma read_struct:
  assumes "zero_ok E" and "typed E (rv_type v) (rv_val v)" and "Deref (rv_type v) = TStruct s"
    and "struct_of E s = Some d"
  obtains v2 where "rv_type v2 = TStruct s" "typed E (TStruct s) (rv_val v2)"
    "Indirect (if is_nil_ptr v then (case ptr_elem (rv_type v) of None \<Rightarrow> v | Some e \<Rightarrow> Zero E e) else v) = Some v2"
proof (cases "ptr_elem (rv_type v)")
  case None
  then have "rv_type v = TStruct s" using assms(3) by (simp add: Deref_def)
  then show thesis
    using that [of v] assms(2) by (simp add: Indirect_def is_nil_ptr_def)
next
  case (Some e)
  then have e: "e = TStruct s" using assms(3) by (simp add: Deref_def)
  note k = kind_ptr [OF Some]
  show thesis
  proof (cases "is_nil_ptr v")
    case True
    then show ?thesis
      using that [of "Zero E e"] zero_ok_struct [OF assms(1,4)] e Some by (simp add: Indirect_def Zero_def)
  next
    case False
    then obtain e' x where x: "rv_val v = VPtr e' (Some x)"
      using k by (auto simp: is_nil_ptr_def split: gval.splits option.splits)
    then have "typed E (TStruct s) x" using assms(2) Some e k by auto
    then show ?thesis
      using that [of "v\<lparr>rv_val := x, rv_type := e\<rparr>"] x False Some e k
      by (simp add: Indirect_def value_elem_def)
  qed
qed

lemma value_field_typed:
  assumes "rv_type v = TStruct s" and "typed E (TStruct s) (rv_val v)" and "struct_of E s = Some d"
    and "i < length (sfields d)"
  obtains v3 where "value_field E v i = Some v3" "rv_type v3 = ftype (sfields d ! i)"
    "typed E (rv_type v3) (rv_val v3)"
  using assms(2)
proof (rule typed_structE)
  fix fs d' assume "rv_val v = VStruct s fs" "struct_of E s = Some d'" "length fs = length (sfields d')"
    "\<And>i. i < length fs \<Longrightarrow> typed E (ftype (sfields d' ! i)) (fs ! i)"
  with assms that show thesis by (simp add: value_field_def)
qed

lemma read_path:
  assumes "zero_ok E" and "walk E t ix = Some (ss, t')" and "typed E (rv_type v) (rv_val v)" and "Deref (rv_type v) = t"
  shows "\<exists>r. FieldByIndexesReadOnly E v ix = Some r \<and> Deref (rv_type r) = t' \<and> typed E (rv_type r) (rv_val r)"
  using assms(2-4)
proof (induction ix arbitrary: t ss v)
  case (Cons i js)
  obtain s d ss' where w: "t = TStruct s" "struct_of E s = Some d" "i < length (sfields d)"
      "walk E (Deref (ftype (sfields d ! i))) js = Some (ss', t')"
    using Cons.prems(1) by (elim walk_ConsE)
  obtain v2 where v2: "rv_type v2 = TStruct s" "typed E (TStruct s) (rv_val v2)"
      "Indirect (if is_nil_ptr v then (case ptr_elem (rv_type v) of None \<Rightarrow> v | Some e \<Rightarrow> Zero E e) else v) = Some v2"
    using read_struct [OF assms(1) Cons.prems(2) _ w(2)] Cons.prems(3) w(1) by auto
  obtain v3 where v3: "value_field E v2 i = Some v3" "rv_type v3 = ftype (sfields d ! i)"
      "typed E (rv_type v3) (rv_val v3)"
    using value_field_typed [OF v2(1,2) w(2,3)] by auto
  from Cons.IH [OF w(4) v3(3)] v3(2) have
    "\<exists>r. FieldByIndexesReadOnly E v3 js = Some r \<and> Deref (rv_type r) = t' \<and> typed E (rv_type r) (rv_val r)"
    by simp
  with v2(3) v3(1) show ?case by (simp add: Let_def)
qed simp

text \<open>
  C31. Reading by a mapped name is type safe: for every value of the mapped type (or a pointer to
  it, nil or not) \<open>FieldByIndexesReadOnly\<close> along the index path the mapper gives never panics,
  nil pointers on the way included, and yields a value of the field's type.
\<close>

theorem read_mapped_field:
  assumes "zero_ok E" and "mapType E m t = Some sm" and "sm_names sm k = Some fi"
    and "typed E (rv_type v) (rv_val v)" and "Deref (rv_type v) = t"
  shows "\<exists>r. FieldByIndexesReadOnly E v (fi_index fi) = Some r \<and> Deref (rv_type r) = fi_target fi \<and>
    typed E (rv_type r) (rv_val r)"
  using read_path [OF assms(1) _ assms(4,5)] mapType_names_ok [OF assms(2,3)] by (auto simp: info_ok_def)

text \<open>A sample value: a person with an address whose \<open>Zip\<close> is nil, and no next person.\<close>

definition sample_value :: gval where
  "sample_value =
     VStruct ''Person''
       [VStruct ''Base'' [VBasic (TBasic BInt64) ''7''], VBasic (TBasic BString) ''Ann'',
        VStruct ''Address'' [VBasic (TBasic BString) ''Oslo'', VPtr (TBasic BString) None],
        VPtr (TStruct ''Person'') None]"

lemma sample_zero_ok: "zero_ok sample_types"
  by code_simp

lemma sample_value_typed: "typed sample_types (TStruct ''Person'') sample_value"
  by code_simp

theorem read_mapped_field_witness:
  "\<exists>r. FieldByIndexesReadOnly sample_types
      \<lparr>rv_val = VPtr (TStruct ''Person'') None, rv_type = TPtr (TStruct ''Person''), rv_ro = NoRO\<rparr> [2, 0] = Some r \<and>
    typed sample_types (rv_type r) (rv_val r)"
proof -
  from sample_person_fields obtain fi where fi: "sm_names sample_person ''city'' = Some fi" "fi_index fi = [2, 0]"
    by auto
  show ?thesis
    using read_mapped_field [OF sample_zero_ok sample_person fi(1),
        of "\<lparr>rv_val = VPtr (TStruct ''Person'') None, rv_type = TPtr (TStruct ''Person''), rv_ro = NoRO\<rparr>"] fi(2)
    by (auto simp: Deref_def)
qed

end
