(* ===== verification/Bind_Named.thy ===== *)
theory Bind_Named
  imports Bind_Cache Reflect_Read
begin

text \<open>
  Binding the names of a compiled query to values (\<open>internal/bind/bind.go\<close>): from a map
  (\<open>bindMapArgs\<close>), from a struct through the mapper's traversal (\<open>bindArgs\<close>) or directly into a
  prepared list (\<open>bindStructDirect\<close>), and for every row of a slice (\<open>bindArray\<close>); \<open>bindNamedMapper\<close>
  chooses.  The compile cache is threaded through; \<open>type_map\<close> stands for \<open>Mapper.TypeMap\<close>, to
  which it is equal.  A Go panic is \<^const>\<open>Panic\<close>.
\<close>

subsection \<open>Values by name\<close>

text \<open>\<open>for v.Kind() == reflect.Pointer { v = v.Elem() }\<close>; \<^const>\<open>None\<close> is the zero \<open>Value\<close> behind a nil pointer.\<close>

lemma value_elem_size: "value_elem v = Some w \<Longrightarrow> size (rv_val w) < size (rv_val v)"
  by (auto simp: value_elem_def split: option.splits gval.splits)

function deref_value :: "rvalue \<Rightarrow> rvalue option" where
  "deref_value v =
     (if kind_of (rv_type v) = KPtr
      then (case value_elem v of None \<Rightarrow> None | Some w \<Rightarrow> deref_value w)
      else Some v)"
  by pat_completeness auto
termination
  by (relation "measure (\<lambda>v. size (rv_val v))") (auto dest: value_elem_size)

declare deref_value.simps [simp del]

definition struct_value :: "gval \<Rightarrow> rvalue option" where
  "struct_value arg = Option.bind (ValueOf arg) deref_value"

text \<open>\<open>FieldByIndexesReadOnly(v, t).Interface()\<close>.\<close>

definition read_any :: "tenv \<Rightarrow> rvalue \<Rightarrow> nat list \<Rightarrow> gval option" where
  "read_any E v ix = Option.bind (FieldByIndexesReadOnly E v ix) value_interface"

definition name_not_found :: "string \<Rightarrow> string \<Rightarrow> gval \<Rightarrow> go_error" where
  "name_not_found f name arg = Errorf f [FStr name, fmt_T arg] (Some (Sentinel ErrNamedPropertyNotFound))"

abbreviation arg_not_found :: "string \<Rightarrow> gval \<Rightarrow> go_error" where
  "arg_not_found \<equiv> name_not_found ''sqlx: could not find name %q in %T: %w''"

definition bindArgs :: "tenv \<Rightarrow> mapper \<Rightarrow> string list \<Rightarrow> gval \<Rightarrow> gval list result" where
  "bindArgs E m names arg =
     (case struct_value arg of
        None \<Rightarrow> Panic
      | Some v \<Rightarrow>
          TraversalsByNameFunc E m (rv_type v) names
            (\<lambda>i t arglist.
               if length t = 0 then Err arglist (arg_not_found (names ! i) arg)
               else (case read_any E v t of None \<Rightarrow> Panic | Some x \<Rightarrow> Ok (arglist @ [x])))
            [])"

fun bindMapArgs_loop :: "string list \<Rightarrow> (string \<Rightarrow> gval option) \<Rightarrow> gval list \<Rightarrow> gval list result" where
  "bindMapArgs_loop [] arg arglist = Ok arglist"
| "bindMapArgs_loop (name # names) arg arglist =
     (case arg name of
        None \<Rightarrow> Err arglist (Errorf ''sqlx: could not find name %q in map: %w'' [FStr name]
                  (Some (Sentinel ErrNamedPropertyNotFound)))
      | Some val \<Rightarrow> bindMapArgs_loop names arg (arglist @ [val]))"

definition bindMapArgs :: "string list \<Rightarrow> (string \<Rightarrow> gval option) \<Rightarrow> gval list result" where
  "bindMapArgs names arg = bindMapArgs_loop names arg []"

fun bindStructDirect_loop ::
  "tenv \<Rightarrow> struct_map \<Rightarrow> rvalue \<Rightarrow> gval \<Rightarrow> nat \<Rightarrow> string list \<Rightarrow> gval list \<Rightarrow> gval list result" where
  "bindStructDirect_loop E tm v arg i [] arglist = Ok arglist"
| "bindStructDirect_loop E tm v arg i (name # names) arglist =
     (case sm_names tm name of
        None \<Rightarrow> Err arglist (arg_not_found name arg)
      | Some fi \<Rightarrow>
          (case read_any E v (fi_index fi) of
             None \<Rightarrow> Panic
           | Some x \<Rightarrow>
               if length arglist \<le> i then Panic
               else bindStructDirect_loop E tm v arg (Suc i) names (arglist[i := x])))"

definition bindStructDirect :: "tenv \<Rightarrow> mapper \<Rightarrow> string list \<Rightarrow> gval \<Rightarrow> gval list \<Rightarrow> gval list result" where
  "bindStructDirect E m names arg arglist =
     (case struct_value arg of
        None \<Rightarrow> Panic
      | Some v \<Rightarrow>
          (case type_map E m (rv_type v) of
             None \<Rightarrow> Panic
           | Some tm \<Rightarrow> bindStructDirect_loop E tm v arg 0 names arglist))"

text \<open>\<open>convertMapStringInterface\<close>; a nil argument has no type to ask and panics.\<close>

definition convertMapStringInterface :: "gval \<Rightarrow> (string \<Rightarrow> gval option) option result" where
  "convertMapStringInterface v =
     (case type_of v of
        None \<Rightarrow> Panic
      | Some t \<Rightarrow>
          if underlying t = string_map then
            (case v of VMap _ kvs \<Rightarrow> Ok (Some (map_of kvs)) | _ \<Rightarrow> Ok None)
          else Ok None)"

definition bindAnyArgs :: "tenv \<Rightarrow> mapper \<Rightarrow> string list \<Rightarrow> gval \<Rightarrow> gval list result" where
  "bindAnyArgs E m names arg =
     (case convertMapStringInterface arg of
        Ok (Some maparg) \<Rightarrow> bindMapArgs names maparg
      | Ok None \<Rightarrow> bindArgs E m names arg
      | _ \<Rightarrow> Panic)"

subsection \<open>Queries\<close>

type_synonym bound = "cworld \<times> (string \<times> gval list) result"

definition bindStruct :: "tenv \<Rightarrow> cworld \<Rightarrow> int \<Rightarrow> string \<Rightarrow> gval \<Rightarrow> mapper \<Rightarrow> bound" where
  "bindStruct E w bindType query arg m =
     (let (w1, r) = compileNamedQuery w query bindType in
      case r of
        Err _ e \<Rightarrow> (w1, Err ([], []) (Errorf ''sqlx: error compiling named query: %w'' [] (Some e)))
      | Panic \<Rightarrow> (w1, Panic)
      | Ok (bound, ref) \<Rightarrow>
          let names = read_slice w1 ref in
          (w1, case bindStructDirect E m names arg (replicate (length names) VNil) of
                 Err _ e \<Rightarrow> Err ([], []) (Errorf ''sqlx: error binding args: %w'' [] (Some e))
               | Panic \<Rightarrow> Panic
               | Ok arglist \<Rightarrow> Ok (bound, arglist)))"

definition mismatch :: "string \<Rightarrow> fmt_arg list \<Rightarrow> go_error" where
  "mismatch f as = Errorf f as (Some (Sentinel ErrBindMismatch))"

text \<open>The loop over the rows. Each row is dereferenced to its end; its callback fails or appends.\<close>

fun bindArray_rows ::
  "tenv \<Rightarrow> mapper \<Rightarrow> string list \<Rightarrow> rvalue list \<Rightarrow> gval list \<Rightarrow> gval list result" where
  "bindArray_rows E m names [] arglist = Ok arglist"
| "bindArray_rows E m names (row # rows) arglist =
     (case deref_value row of
        None \<Rightarrow> Panic
      | Some val \<Rightarrow>
          (case TraversalsByNameFunc E m (rv_type val) names
              (\<lambda>idx t arglist.
                 if length t = 0 then
                   (case value_interface val of
                      None \<Rightarrow> Panic
                    | Some x \<Rightarrow>
                        Err arglist (name_not_found ''sqlx: could not find name %q in slice element %T: %w''
                          (names ! idx) x))
                 else (case read_any E val t of None \<Rightarrow> Panic | Some x \<Rightarrow> Ok (arglist @ [x])))
              arglist of
             Panic \<Rightarrow> Panic
           | Err al e \<Rightarrow> Err al (Errorf ''sqlx: error in traversal during bindArray: %w'' [] (Some e))
           | Ok arglist' \<Rightarrow> bindArray_rows E m names rows arglist'))"

text \<open>Step 3: the text between the \<open>(\<close> before the first mark and the \<open>)\<close> after the last, once per row.\<close>

definition expand_group :: "nat \<Rightarrow> string \<Rightarrow> string result" where
  "expand_group n unbound =
     (case (index_byte unbound CHR ''?'', last_index_byte unbound CHR ''?'') of
        (Some firstQ, Some lastQ) \<Rightarrow>
          (case (last_index_byte (take firstQ unbound) CHR ''('', index_byte (drop lastQ unbound) CHR '')'') of
             (Some openP, Some close0) \<Rightarrow>
               let closeP = close0 + lastQ;
                   singleGroup = drop openP (take (closeP + 1) unbound);
                   replacement = join '', '' (replicate n singleGroup)
               in Ok (take openP unbound @ replacement @ drop (closeP + 1) unbound)
           | _ \<Rightarrow> Err [] (mismatch ''sqlx: slice binding is only valid for queries where parameters are enclosed in parentheses, like INSERT: %w'' []))
      | _ \<Rightarrow> Ok unbound)"

definition elem_rvalues :: "gtype \<Rightarrow> gval list \<Rightarrow> rvalue list" where
  "elem_rvalues t vs = map (\<lambda>x. \<lparr>rv_val = x, rv_type = t, rv_ro = NoRO\<rparr>) vs"

fun seq_elem :: "gtype \<Rightarrow> gtype option" where
  "seq_elem (TSlice t) = Some t"
| "seq_elem (TArray _ t) = Some t"
| "seq_elem (TNamed _ u) = seq_elem u"
| "seq_elem _ = None"

definition bindArray :: "tenv \<Rightarrow> cworld \<Rightarrow> int \<Rightarrow> string \<Rightarrow> gval \<Rightarrow> mapper \<Rightarrow> bound" where
  "bindArray E w bindType query arg m =
     (case arg of
        VSeq ty vs \<Rightarrow>
          (case seq_elem ty of
             None \<Rightarrow> (w, Panic)
           | Some et \<Rightarrow>
          if length vs = 0 then
            (w, Err ([], []) (Errorf ''sqlx: bindArray cannot bind an empty slice: %w'' [] (Some (Sentinel ErrNoRows))))
          else
            (let (w1, r) = compileNamedQuery w query QUESTION in
             case r of
               Err _ e \<Rightarrow> (w1, Err ([], []) e)
             | Panic \<Rightarrow> (w1, Panic)
             | Ok (unbound, ref) \<Rightarrow>
                 let names = read_slice w1 ref in
                 if length names = 0 then
                   (w1, Err ([], []) (mismatch ''sqlx: no named parameters found in slice binding: %w'' []))
                 else
                   (w1, case bindArray_rows E m names (elem_rvalues et vs) [] of
                      Panic \<Rightarrow> Panic
                    | Err _ e \<Rightarrow> Err ([], []) e
                    | Ok arglist \<Rightarrow>
                        (case expand_group (length vs) unbound of
                           Panic \<Rightarrow> Panic
                         | Err _ e \<Rightarrow> Err ([], []) e
                         | Ok newQuery \<Rightarrow> Ok (Rebind bindType newQuery, arglist)))))
      | _ \<Rightarrow> (w, Err ([], []) (mismatch ''sqlx: bindArray expects an array or slice, got %T: %w'' [fmt_T arg])))"

definition bindNamedMapper :: "tenv \<Rightarrow> cworld \<Rightarrow> int \<Rightarrow> string \<Rightarrow> gval \<Rightarrow> mapper \<Rightarrow> bound" where
  "bindNamedMapper E w bindType query arg m =
     (case type_of arg of
        None \<Rightarrow> (w, Panic)
      | Some t0 \<Rightarrow>
          let t = deref_all t0; k = kind_of t in
          if k = KStruct then bindStruct E w bindType query arg m
          else if k = KMap \<and> (case map_key t of None \<Rightarrow> False | Some kt \<Rightarrow> kind_of kt = KBasic BString) then
            (case convertMapStringInterface arg of
               Ok (Some mp) \<Rightarrow>
                 (let (w1, r) = compileNamedQuery w query bindType in
                  case r of
                    Err _ e \<Rightarrow> (w1, Err ([], []) (Errorf ''sqlx: error in compileNamedQuery (map): %w'' [] (Some e)))
                  | Panic \<Rightarrow> (w1, Panic)
                  | Ok (bound, ref) \<Rightarrow>
                      (w1, case bindMapArgs (read_slice w1 ref) mp of
                         Err arglist e \<Rightarrow> Err (bound, arglist) (Errorf ''sqlx: error in bindMapArgs: %w'' [] (Some e))
                       | Panic \<Rightarrow> Panic
                       | Ok arglist \<Rightarrow> Ok (bound, arglist)))
             | Ok None \<Rightarrow>
                 (w, Err ([], []) (Errorf ''sqlx: unsupported map type %T: %w'' [fmt_T arg]
                   (Some (Sentinel ErrUnsupportedType))))
             | _ \<Rightarrow> (w, Panic))
          else if k = KArray \<or> k = KSlice then bindArray E w bindType query arg m
          else bindStruct E w bindType query arg m)"

definition bindDefaultMapper :: mapper where
  "bindDefaultMapper = NewMapperFunc ''db'' ToLower"

definition BindNamed :: "tenv \<Rightarrow> cworld \<Rightarrow> int \<Rightarrow> string \<Rightarrow> gval \<Rightarrow> bound" where
  "BindNamed E w bindType query arg = bindNamedMapper E w bindType query arg bindDefaultMapper"

definition Named :: "tenv \<Rightarrow> cworld \<Rightarrow> string \<Rightarrow> gval \<Rightarrow> bound" where
  "Named E w query arg = bindNamedMapper E w QUESTION query arg bindDefaultMapper"

definition BindAnyArgs :: "tenv \<Rightarrow> string list \<Rightarrow> gval \<Rightarrow> mapper \<Rightarrow> gval list result" where
  "BindAnyArgs E names arg m = bindAnyArgs E m names arg"

subsection \<open>The contract of a binder\<close>

text \<open>
  What the three ways to bind a list of names share: names are taken in order, the value of each
  is appended, the first name without a value is an error that keeps what was appended, and a
  value that cannot be read panics.  \<open>get n\<close> is \<^const>\<open>None\<close> for a name that is not found and
  \<open>Some None\<close> for the panic.
\<close>

locale name_binder =
  fixes bind :: "string list \<Rightarrow> gval list \<Rightarrow> gval list result"
    and get :: "string \<Rightarrow> gval option option"
    and err :: "string \<Rightarrow> go_error"
  assumes bind_Nil: "bind [] acc = Ok acc"
    and bind_Cons: "bind (n # ns) acc =
      (case get n of None \<Rightarrow> Err acc (err n) | Some None \<Rightarrow> Panic | Some (Some x) \<Rightarrow> bind ns (acc @ [x]))"
begin

definition found :: "string \<Rightarrow> gval \<Rightarrow> bool" where
  "found n x \<longleftrightarrow> get n = Some (Some x)"

lemma bind_Ok_iff: "bind ns acc = Ok as \<longleftrightarrow> (\<exists>xs. as = acc @ xs \<and> list_all2 found ns xs)"
proof (induction ns arbitrary: acc)
  case Nil
  show ?case by (auto simp: bind_Nil)
next
  case (Cons n ns)
  then show ?case
    by (auto simp: bind_Cons found_def list_all2_Cons1 split: option.splits)
qed

lemma bind_Err_iff:
  "bind ns acc = Err as e \<longleftrightarrow>
     (\<exists>pre n post xs. ns = pre @ n # post \<and> list_all2 found pre xs \<and> get n = None \<and> as = acc @ xs \<and> e = err n)"
proof (induction ns arbitrary: acc)
  case Nil
  show ?case by (simp add: bind_Nil)
next
  case (Cons m ns)
  show ?case
  proof (cases "get m")
    case None
    then show ?thesis
      by (auto simp: bind_Cons found_def list_all2_Cons1 Cons_eq_append_conv)
  next
    case (Some r)
    show ?thesis
    proof (cases r)
      case None
      with Some show ?thesis
        by (auto simp: bind_Cons found_def list_all2_Cons1 Cons_eq_append_conv)
    next
      case x: (Some x)
      have "(\<exists>pre n post xs. m # ns = pre @ n # post \<and> list_all2 found pre xs \<and> get n = None \<and> as = acc @ xs \<and> e = err n) \<longleftrightarrow>
          (\<exists>pre n post xs. ns = pre @ n # post \<and> list_all2 found pre xs \<and> get n = None \<and> as = (acc @ [x]) @ xs \<and> e = err n)"
        (is "?L \<longleftrightarrow> ?R")
      proof
        assume ?L
        then obtain pre n post xs where l: "m # ns = pre @ n # post" "list_all2 found pre xs" "get n = None"
            "as = acc @ xs" "e = err n" by blast
        then obtain pre' where "pre = m # pre'" using Some by (cases pre) auto
        with l Some x show ?R
          by (fastforce simp: list_all2_Cons1 found_def)
      next
        assume ?R
        then obtain pre n post xs where r: "ns = pre @ n # post" "list_all2 found pre xs" "get n = None"
            "as = (acc @ [x]) @ xs" "e = err n" by blast
        have "m # ns = (m # pre) @ n # post" "list_all2 found (m # pre) (x # xs)" "as = acc @ (x # xs)"
          using r Some x by (simp_all add: found_def)
        with r show ?L by blast
      qed
      with Some x Cons.IH [of "acc @ [x]"] show ?thesis by (simp add: bind_Cons)
    qed
  qed
qed

lemma bind_Panic_iff:
  "bind ns acc = Panic \<longleftrightarrow> (\<exists>pre n post. ns = pre @ n # post \<and> (\<forall>k \<in> set pre. \<exists>x. found k x) \<and> get n = Some None)"
proof (induction ns arbitrary: acc)
  case Nil
  show ?case by (simp add: bind_Nil)
next
  case (Cons m ns)
  show ?case
  proof (cases "\<exists>x. get m = Some (Some x)")
    case False
    then consider "get m = None" | "get m = Some None" by (cases "get m") auto
    then show ?thesis
    proof cases
      case 1
      then show ?thesis by (auto simp: bind_Cons found_def Cons_eq_append_conv)
    next
      case 2
      then have "m # ns = [] @ m # ns \<and> (\<forall>k \<in> set []. \<exists>x. found k x) \<and> get m = Some None" by simp
      with 2 show ?thesis by (simp only: bind_Cons option.case) blast
    qed
  next
    case True
    then obtain x where x: "get m = Some (Some x)" by blast
    have "(\<exists>pre n post. m # ns = pre @ n # post \<and> (\<forall>k \<in> set pre. \<exists>x. found k x) \<and> get n = Some None) \<longleftrightarrow>
        (\<exists>pre n post. ns = pre @ n # post \<and> (\<forall>k \<in> set pre. \<exists>x. found k x) \<and> get n = Some None)"
      (is "?L \<longleftrightarrow> ?R")
    proof
      assume ?L
      then obtain pre n post where "m # ns = pre @ n # post" "\<forall>k \<in> set pre. \<exists>x. found k x" "get n = Some None" by blast
      with x show ?R by (cases pre) auto
    next
      assume ?R
      then obtain pre n post where r: "ns = pre @ n # post" "\<forall>k \<in> set pre. \<exists>x. found k x" "get n = Some None" by blast
      then have "m # ns = (m # pre) @ n # post" "\<forall>k \<in> set (m # pre). \<exists>x. found k x"
        using x by (auto simp: found_def)
      with r show ?L by blast
    qed
    with x Cons.IH show ?thesis by (simp add: bind_Cons)
  qed
qed

end

subsection \<open>The binders\<close>

definition missing_in_map :: "string \<Rightarrow> go_error" where
  "missing_in_map name =
     Errorf ''sqlx: could not find name %q in map: %w'' [FStr name] (Some (Sentinel ErrNamedPropertyNotFound))"

interpretation map_bind: name_binder
  "\<lambda>ns acc. bindMapArgs_loop ns arg acc" "\<lambda>n. map_option Some (arg n)" missing_in_map for arg
  by unfold_locales (simp_all add: missing_in_map_def split: option.split)

text \<open>The value of a name in a struct: \<^const>\<open>None\<close> unless the mapper knows the name.\<close>

definition struct_get :: "tenv \<Rightarrow> struct_map \<Rightarrow> rvalue \<Rightarrow> string \<Rightarrow> gval option option" where
  "struct_get E tm v n = map_option (\<lambda>fi. read_any E v (fi_index fi)) (sm_names tm n)"

text \<open>The traversal with the callback of \<open>bindArgs\<close> and \<open>bindArray\<close>, its error as a parameter.\<close>

fun struct_bind ::
  "tenv \<Rightarrow> struct_map \<Rightarrow> rvalue \<Rightarrow> (string \<Rightarrow> go_error) \<Rightarrow> string list \<Rightarrow> gval list \<Rightarrow> gval list result" where
  "struct_bind E tm v err [] acc = Ok acc"
| "struct_bind E tm v err (n # ns) acc =
     (case struct_get E tm v n of
        None \<Rightarrow> Err acc (err n)
      | Some None \<Rightarrow> Panic
      | Some (Some x) \<Rightarrow> struct_bind E tm v err ns (acc @ [x]))"

interpretation struct_bind: name_binder "struct_bind E tm v err" "struct_get E tm v" err for E tm v err
  by unfold_locales simp_all

lemma traverse_struct_bind:
  assumes "\<And>n fi. sm_names tm n = Some fi \<Longrightarrow> fi_index fi \<noteq> []"
  shows "traverse_names tm
      (\<lambda>i t acc. if length t = 0 then Err acc (err ((pre @ ns) ! i))
         else (case read_any E v t of None \<Rightarrow> Panic | Some x \<Rightarrow> Ok (acc @ [x]))) (length pre) ns acc =
    struct_bind E tm v err ns acc"
proof (induction ns arbitrary: pre acc)
  case (Cons n ns)
  show ?case
  proof (cases "sm_names tm n")
    case None
    then show ?thesis by (simp add: struct_get_def)
  next
    case (Some fi)
    with assms [OF Some] Cons.IH [of "pre @ [n]", unfolded append_assoc append_Cons append_Nil] show ?thesis
      by (auto simp: struct_get_def split: option.split)
  qed
qed simp

lemma bindArgs_struct_bind:
  "bindArgs E m names arg =
     (case struct_value arg of
        None \<Rightarrow> Panic
      | Some v \<Rightarrow>
          (case type_map E m (rv_type v) of
             None \<Rightarrow> Panic
           | Some tm \<Rightarrow> struct_bind E tm v (\<lambda>n. arg_not_found n arg) names []))"
proof -
  have "traverse_names tm (\<lambda>i t arglist. if length t = 0 then Err arglist (arg_not_found (names ! i) arg)
        else (case read_any E v t of None \<Rightarrow> Panic | Some x \<Rightarrow> Ok (arglist @ [x]))) 0 names [] =
      struct_bind E tm v (\<lambda>n. arg_not_found n arg) names []"
    if "type_map E m (rv_type v) = Some tm" for v tm
    using traverse_struct_bind [of tm "\<lambda>n. arg_not_found n arg" "[]" names E v "[]", unfolded append_Nil]
      type_map_index [OF that] by simp
  then show ?thesis
    by (simp add: bindArgs_def TraversalsByNameFunc_def split: option.split)
qed

subsection \<open>Structs\<close>

lemma direct_struct_bind:
  "length rest = length ns \<Longrightarrow>
   bindStructDirect_loop E tm v arg (length acc) ns (acc @ rest) =
     (case struct_bind E tm v (\<lambda>n. arg_not_found n arg) ns acc of
        Ok as \<Rightarrow> Ok as
      | Err as e \<Rightarrow> Err (as @ drop (length as) (acc @ rest)) e
      | Panic \<Rightarrow> Panic)"
proof (induction ns arbitrary: acc rest)
  case Nil
  then show ?case by simp
next
  case (Cons n ns)
  then obtain y rest' where rest: "rest = y # rest'" "length rest' = length ns"
    by (cases rest) auto
  show ?case
  proof (cases "struct_get E tm v n")
    case None
    then show ?thesis by (simp add: struct_get_def)
  next
    case (Some r)
    then obtain fi where fi: "sm_names tm n = Some fi" "r = read_any E v (fi_index fi)"
      by (auto simp: struct_get_def)
    show ?thesis
    proof (cases r)
      case None
      with Some fi show ?thesis by simp
    next
      case x: (Some x)
      have "bindStructDirect_loop E tm v arg (Suc (length acc)) ns ((acc @ rest)[length acc := x]) =
          (case struct_bind E tm v (\<lambda>n. arg_not_found n arg) ns (acc @ [x]) of
             Ok as \<Rightarrow> Ok as
           | Err as e \<Rightarrow> Err (as @ drop (length as) (acc @ x # rest')) e
           | Panic \<Rightarrow> Panic)"
        using Cons.IH [OF rest(2), of "acc @ [x]", unfolded append_assoc append_Cons append_Nil] rest(1)
        by (simp add: list_update_append)
      moreover have "drop (length as) (acc @ x # rest') = drop (length as) (acc @ y # rest')"
        if "struct_bind E tm v (\<lambda>n. arg_not_found n arg) ns (acc @ [x]) = Err as e" for as e
        using that by (auto simp: struct_bind.bind_Err_iff)
      moreover have "read_any E v (fi_index fi) = Some x" using fi x by simp
      ultimately show ?thesis
        using Some fi(1) x rest(1) by (auto split: result.split)
    qed
  qed
qed

lemma direct_is_bindArgs:
  "bindStructDirect E m names arg (replicate (length names) VNil) =
    (case bindArgs E m names arg of
       Ok as \<Rightarrow> Ok as
     | Err as e \<Rightarrow> Err (as @ replicate (length names - length as) VNil) e
     | Panic \<Rightarrow> Panic)"
  using direct_struct_bind [of "replicate (length names) VNil" names E _ _ arg "[]"]
  by (auto simp: bindStructDirect_def bindArgs_struct_bind split: option.split result.split)

text \<open>
  C30. The fast path of \<open>bindStruct\<close> is the slow one: for every argument, mapper and name list
  \<open>bindStructDirect\<close>, which writes into a list of the names' length, succeeds exactly when
  \<open>bindArgs\<close> does, with the same values in the same places, and otherwise fails at the same name
  with the same error or panics alike.
\<close>

theorem bindStructDirect_is_bindArgs:
  "bindStructDirect E m names arg (replicate (length names) VNil) =
    (case bindArgs E m names arg of
       Ok as \<Rightarrow> Ok as
     | Err as e \<Rightarrow> Err (as @ replicate (length names - length as) VNil) e
     | Panic \<Rightarrow> Panic)"
  by (rule direct_is_bindArgs)

text \<open>
  Binding a struct or a map by name, completely: \<open>BindAnyArgs\<close> succeeds exactly when every
  name has a value, and then returns as many values as names, the k-th being the value of the
  k-th name (the map's entry, or the struct's field the mapper knows under that name).
\<close>

lemma BindAnyArgs_values:
  "BindAnyArgs E names arg m = Ok as \<longleftrightarrow>
    (case convertMapStringInterface arg of
       Ok (Some kvs) \<Rightarrow> list_all2 (\<lambda>n x. kvs n = Some x) names as
     | Ok None \<Rightarrow>
         (\<exists>v tm. struct_value arg = Some v \<and> type_map E m (rv_type v) = Some tm \<and>
            list_all2 (\<lambda>n x. \<exists>fi. sm_names tm n = Some fi \<and> read_any E v (fi_index fi) = Some x) names as)
     | _ \<Rightarrow> False)"
proof -
  have "(\<lambda>n x. map_option Some (kvs n) = Some (Some x)) = (\<lambda>n x. kvs n = Some x)" for kvs :: "string \<Rightarrow> gval option"
    by (intro ext) auto
  moreover have "(\<lambda>n x. struct_get E tm v n = Some (Some x)) =
      (\<lambda>n x. \<exists>fi. sm_names tm n = Some fi \<and> read_any E v (fi_index fi) = Some x)" for tm v
    by (intro ext) (auto simp: struct_get_def)
  ultimately show ?thesis
    by (auto simp: BindAnyArgs_def bindAnyArgs_def bindMapArgs_def map_bind.bind_Ok_iff bindArgs_struct_bind
        struct_bind.bind_Ok_iff map_bind.found_def [abs_def] struct_bind.found_def [abs_def]
        split: result.split option.split)
qed

subsection \<open>Queries bound to a struct or a map\<close>

text \<open>Compilation through the cache, in a world any run may have left.\<close>

lemma compile_cached:
  assumes "cache_inv (w, own)" and "compileNamedQuery w query bt = (w1, r)"
  shows "cache_inv (w1, own)"
    and "r = Ok (q, ref) \<Longrightarrow> compile_query bt query = Ok (q, read_slice w1 ref)"
    and "r = Err v e \<Longrightarrow> \<exists>v'. compile_query bt query = Err v' e"
    and "r = Panic \<Longrightarrow> compile_query bt query = Panic"
proof -
  note c = compileNamedQuery_correct [OF assms(2,1)]
  show "cache_inv (w1, own)" by (rule c)
  show "r = Ok (q, ref) \<Longrightarrow> compile_query bt query = Ok (q, read_slice w1 ref)"
    and "r = Panic \<Longrightarrow> compile_query bt query = Panic"
    using c(2) by auto
  show "r = Err v e \<Longrightarrow> \<exists>v'. compile_query bt query = Err v' e"
    using c(2) by (cases v) (metis deref_result.simps(2))
qed

text \<open>What binding does, without a cache: compile, then bind the names; an error keeps its class.\<close>

definition bound_class :: "int \<Rightarrow> string \<Rightarrow> (string list \<Rightarrow> gval list result) \<Rightarrow> (string \<times> gval list) result_view" where
  "bound_class bt query bind =
     (case compile_query bt query of
        Ok (q, names) \<Rightarrow> map_view (Pair q) (result_class (bind names))
      | Err _ e \<Rightarrow> Fails (errors_is e)
      | Panic \<Rightarrow> Panics)"

lemma bindStruct_class:
  assumes "cache_inv (w, own)" and "bindStruct E w bt query arg m = (w1, r)"
  shows "cache_inv (w1, own) \<and> result_class r = bound_class bt query (\<lambda>names. bindArgs E m names arg)"
proof -
  obtain w2 r2 where c: "compileNamedQuery w query bt = (w2, r2)" by (cases "compileNamedQuery w query bt")
  note cc = compile_cached [OF assms(1) c]
  show ?thesis
  proof (cases r2)
    case (Ok v)
    obtain q0 ref where v: "v = (q0, ref)" by (cases v)
    from cc(2) [of q0 ref] Ok v have "compile_query bt query = Ok (q0, read_slice w2 ref)" by simp
    then show ?thesis
      using cc(1) c Ok v assms(2)
      by (cases "bindArgs E m (read_slice w2 ref) arg") (auto simp: bindStruct_def Let_def direct_is_bindArgs bound_class_def)
  next
    case (Err v e)
    then show ?thesis using cc(1) c cc(3) [of v e] assms(2) by (auto simp: bindStruct_def bound_class_def)
  next
    case Panic
    then show ?thesis using cc(1) c cc(4) assms(2) by (auto simp: bindStruct_def bound_class_def)
  qed
qed

lemma string_map_type:
  "underlying t = string_map \<Longrightarrow>
     ptr_elem t = None \<and> kind_of t = KMap \<and> map_key t = Some (TBasic BString)"
  by (induction t) auto

lemma deref_all_string_map: "underlying t = string_map \<Longrightarrow> deref_all t = t"
  by (subst deref_all.simps) (simp add: string_map_type)

text \<open>An argument that names one set of values: a struct behind any pointers, or a \<open>map[string]any\<close>.\<close>

definition single_arg :: "gval \<Rightarrow> bool" where
  "single_arg arg \<longleftrightarrow>
     (case arg of VMap t kvs \<Rightarrow> underlying t = string_map
      | _ \<Rightarrow> (case type_of arg of None \<Rightarrow> False | Some t \<Rightarrow> kind_of (deref_all t) = KStruct))"

lemma struct_not_map:
  assumes "type_of arg = Some t" and "kind_of (deref_all t) = KStruct"
  shows "convertMapStringInterface arg = Ok None"
proof -
  have "underlying t \<noteq> string_map"
    using assms(2) deref_all_string_map [of t] string_map_type [of t] by auto
  with assms(1) show ?thesis by (simp add: convertMapStringInterface_def)
qed

lemma bindNamedMapper_map:
  assumes "cache_inv (w, own)" and "underlying t = string_map" and "bindNamedMapper E w bt query (VMap t kvs) m = (w1, r)"
  shows "cache_inv (w1, own) \<and> result_class r = bound_class bt query (\<lambda>names. bindMapArgs names (map_of kvs))"
proof -
  obtain w2 r2 where c: "compileNamedQuery w query bt = (w2, r2)" by (cases "compileNamedQuery w query bt")
  note cc = compile_cached [OF assms(1) c]
  have b: "bindNamedMapper E w bt query (VMap t kvs) m =
      (case r2 of
         Err _ e \<Rightarrow> (w2, Err ([], []) (Errorf ''sqlx: error in compileNamedQuery (map): %w'' [] (Some e)))
       | Panic \<Rightarrow> (w2, Panic)
       | Ok (bound, ref) \<Rightarrow>
           (w2, case bindMapArgs (read_slice w2 ref) (map_of kvs) of
              Err arglist e \<Rightarrow> Err (bound, arglist) (Errorf ''sqlx: error in bindMapArgs: %w'' [] (Some e))
            | Panic \<Rightarrow> Panic
            | Ok arglist \<Rightarrow> Ok (bound, arglist)))"
    using c string_map_type [OF assms(2)] deref_all_string_map [OF assms(2)] assms(2)
    by (simp add: bindNamedMapper_def Let_def convertMapStringInterface_def)
  show ?thesis
  proof (cases r2)
    case (Ok v)
    obtain q0 ref where v: "v = (q0, ref)" by (cases v)
    from cc(2) [of q0 ref] Ok v have "compile_query bt query = Ok (q0, read_slice w2 ref)" by simp
    then show ?thesis
      using cc(1) Ok v assms(3)
      by (cases "bindMapArgs (read_slice w2 ref) (map_of kvs)") (auto simp: b bound_class_def)
  next
    case (Err v e)
    then show ?thesis using cc(1) cc(3) [of v e] assms(3) by (auto simp: b bound_class_def)
  next
    case Panic
    then show ?thesis using cc(1) cc(4) assms(3) by (auto simp: b bound_class_def)
  qed
qed

lemma bindNamedMapper_class:
  assumes inv: "cache_inv (w, own)" and "single_arg arg" and "bindNamedMapper E w bt query arg m = (w1, r)"
  shows "cache_inv (w1, own) \<and> result_class r = bound_class bt query (\<lambda>names. BindAnyArgs E names arg m)"
proof -
  consider (mp) t kvs where "arg = VMap t kvs" "underlying t = string_map"
    | (st) t where "type_of arg = Some t" "kind_of (deref_all t) = KStruct"
    using assms(2) by (auto simp: single_arg_def split: gval.splits option.splits)
  then show ?thesis
  proof cases
    case mp
    with bindNamedMapper_map [OF inv mp(2)] assms(3) show ?thesis
      by (simp add: BindAnyArgs_def bindAnyArgs_def convertMapStringInterface_def)
  next
    case st
    then have "bindNamedMapper E w bt query arg m = bindStruct E w bt query arg m"
      by (simp add: bindNamedMapper_def)
    with bindStruct_class [OF inv] struct_not_map [OF st] assms(3) show ?thesis
      by (simp add: BindAnyArgs_def bindAnyArgs_def)
  qed
qed

lemma bound_class_Ok: "bound_class bt query bind = Gives (q, as) \<longleftrightarrow>
    (\<exists>names. compile_query bt query = Ok (q, names) \<and> bind names = Ok as)"
  by (auto simp: bound_class_def result_class_Gives split: result.split)

lemma bindNamedMapper_Ok_iff:
  assumes "cache_reachable (w, own)" and "single_arg arg"
  shows "snd (bindNamedMapper E w bt query arg m) = Ok (q, as) \<longleftrightarrow>
    (\<exists>names. compile_query bt query = Ok (q, names) \<and> BindAnyArgs E names arg m = Ok as)"
  using bindNamedMapper_class [OF cache_reachable_inv [OF assms(1)] assms(2), of E bt query m]
  by (metis bound_class_Ok prod.collapse result_class_Gives)

text \<open>
  C10. \<open>BindNamed\<close> for a struct or a map, on every branch: whatever compilations ran before, it compiles the query, then
  takes a value for each of its names in their order; its result is the compiled query with these values, or an error
  \<open>errors.Is\<close> cannot tell from the one of the step that failed, or a panic where reading a value panics.
\<close>

theorem bindNamedMapper_values:
  assumes "cache_reachable (w, own)" and "single_arg arg"
  shows "result_class (snd (bindNamedMapper E w bt query arg m)) =
    (case compile_query bt query of
       Err _ e \<Rightarrow> Fails (errors_is e)
     | Panic \<Rightarrow> Panics
     | Ok (q, names) \<Rightarrow>
         (case BindAnyArgs E names arg m of
            Err _ e \<Rightarrow> Fails (errors_is e)
          | Panic \<Rightarrow> Panics
          | Ok as \<Rightarrow> Gives (q, as)))"
proof -
  obtain w1 r where b: "bindNamedMapper E w bt query arg m = (w1, r)" by (cases "bindNamedMapper E w bt query arg m")
  from bindNamedMapper_class [OF cache_reachable_inv [OF assms(1)] assms(2) b] b show ?thesis
    by (simp add: bound_class_def split: result.split)
qed

theorem bindNamedMapper_values_witness:
  "snd (BindNamed sample_types init_cworld DOLLAR ''city=:home.city AND id=:id '' (VPtr (TStruct ''Person'') (Some sample_value))) =
     Ok (''city=$1 AND id=$2 '', [VBasic (TBasic BString) ''Oslo'', VBasic (TBasic BInt64) ''7'']) \<and>
   result_class (snd (BindNamed sample_types init_cworld DOLLAR ''id=:id AND z=:nope '' (VPtr (TStruct ''Person'') (Some sample_value)))) =
     Fails (\<lambda>k. k = ErrNamedPropertyNotFound)"
proof -
  let ?arg = "VPtr (TStruct ''Person'') (Some sample_value)"
  let ?ok = "''city=:home.city AND id=:id ''" and ?missing = "''id=:id AND z=:nope ''"
  have s: "single_arg ?arg"
    by (simp add: single_arg_def deref_all.simps [of "TPtr t" for t] deref_all.simps [of "TStruct t" for t])
  have c: "compile_query DOLLAR ?ok = Ok (''city=$1 AND id=$2 '', [''home.city'', ''id''])"
    "compile_query DOLLAR ?missing = Ok (''id=$1 AND z=$2 '', [''id'', ''nope''])"
    by code_simp+
  have b: "result_class (BindAnyArgs sample_types [''home.city'', ''id''] ?arg bindDefaultMapper) =
      Gives [VBasic (TBasic BString) ''Oslo'', VBasic (TBasic BInt64) ''7'']"
    "result_class (BindAnyArgs sample_types [''id'', ''nope''] ?arg bindDefaultMapper) = Fails (\<lambda>k. k = ErrNamedPropertyNotFound)"
    by code_simp+
  show ?thesis
    using bindNamedMapper_values [OF cache_reachable.start s, of sample_types DOLLAR ?ok bindDefaultMapper]
      bindNamedMapper_values [OF cache_reachable.start s, of sample_types DOLLAR ?missing bindDefaultMapper] c b
    by (auto simp: BindNamed_def result_class_Gives split: result.splits elim!: result_class_elims)
qed

end
