(* ===== verification/Bind_Batch.thy ===== *)
theory Bind_Batch
  imports Bind_Named
begin

text \<open>
  Batch binding (\<open>bindArray\<close>): the parenthesised group of marks is repeated once per row and the
  rows' values are laid out row after row.  The lemmas on \<open>expand_group\<close> say where the group is
  found; the theorems, that marks and values agree, what a plain \<open>VALUES (...)\<close> becomes, and what
  a call inside the group becomes.
\<close>

subsection \<open>The repeated group\<close>

lemma last_index_after:
  assumes "index_byte s c = Some f" and "last_index_byte s c = Some l"
  shows "f \<le> l"
proof (rule ccontr)
  assume "\<not> f \<le> l"
  then have "f \<ge> Suc l" by simp
  moreover have "s ! f = c" "f < length s" using index_byte_nth [OF assms(1)] index_byte_SomeD(1) [OF assms(1)] by auto
  ultimately have "c \<in> set (drop (Suc l) s)"
    using nth_mem [of "f - Suc l" "drop (Suc l) s"] by simp
  with last_index_byte_Some [OF assms(2)] show False by simp
qed

lemma count_join_replicate:
  "c \<notin> set sep \<Longrightarrow> count_list (join sep (replicate n g)) c = n * count_list g c"
  by (simp add: count_list_join sum_list_replicate)

text \<open>All marks of the query lie in the group, so expansion multiplies their number.\<close>

lemma expand_group_marks:
  assumes "expand_group n u = Ok nq" and "0 < count_list u CHR ''?''"
  shows "count_list nq CHR ''?'' = n * count_list u CHR ''?''"
proof -
  have "CHR ''?'' \<in> set u" using assms(2) by (auto simp: count_list_0_iff intro: ccontr)
  then obtain f l where f: "index_byte u CHR ''?'' = Some f" and l: "last_index_byte u CHR ''?'' = Some l"
    by (metis index_byte_None_iff last_index_byte_None_iff not_Some_eq)
  note fl = last_index_after [OF f l]
  from assms(1) f l obtain p c where
      p: "last_index_byte (take f u) CHR ''('' = Some p" and
      c: "index_byte (drop l u) CHR '')'' = Some c" and
      nq: "nq = take p u @ join '', '' (replicate n (drop p (take (c + l + 1) u))) @ drop (c + l + 1) u"
    by (auto simp: expand_group_def Let_def split: option.splits)
  have pf: "p < f" using last_index_byte_Some [OF p] by simp
  have "take p u = take p (take f u)" using pf by simp
  then have pre: "CHR ''?'' \<notin> set (take p u)"
    using index_byte_SomeD(3) [OF f] set_take_subset [of p "take f u"] by auto
  have "drop (c + l + 1) u = drop c (drop (Suc l) u)" by (simp add: ac_simps)
  then have post: "CHR ''?'' \<notin> set (drop (c + l + 1) u)"
    using last_index_byte_Some [OF l] set_drop_subset [of c "drop (Suc l) u"] by auto
  let ?g = "drop p (take (c + l + 1) u)"
  have tp: "take p (take (c + l + 1) u) = take p u" using pf fl by simp
  have "u = (take p (take (c + l + 1) u) @ ?g) @ drop (c + l + 1) u"
    by (simp only: append_take_drop_id)
  then have u: "u = take p u @ ?g @ drop (c + l + 1) u"
    unfolding tp append_assoc .
  have "count_list (take p u @ ?g @ drop (c + l + 1) u) CHR ''?'' = count_list ?g CHR ''?''"
    by (simp only: count_list_append count_list_notin [OF pre] count_list_notin [OF post] add_0 add_0_right)
  then have "count_list u CHR ''?'' = count_list ?g CHR ''?''"
    by (rule trans [OF arg_cong [OF u, of "\<lambda>s. count_list s CHR ''?''"]])
  moreover have "count_list (join '', '' (replicate n g)) CHR ''?'' = n * count_list g CHR ''?''" for g
    by (rule count_join_replicate) simp
  ultimately show ?thesis
    unfolding nq count_list_append count_list_notin [OF pre] count_list_notin [OF post] by simp
qed

text \<open>Where the group is found: the innermost open parenthesis before the first mark and the next
  closing one after the last.\<close>

lemma take_length_append: "take (length xs) (xs @ ys) = xs"
  by simp

lemma drop_length_append: "drop (length xs) (xs @ ys) = ys"
  by simp

lemma last_index_byte_prefix:
  "c \<notin> set ys \<Longrightarrow> last_index_byte (xs @ ys) c = last_index_byte xs c"
proof (induction xs)
  case (Cons x xs)
  then show ?case by (cases "last_index_byte xs c") simp_all
qed simp

lemma expand_group_at:
  assumes "CHR ''?'' \<notin> set pre" and "CHR ''?'' \<notin> set post"
    and "CHR ''?'' \<notin> set a" and "CHR ''('' \<notin> set a"
    and "CHR ''?'' \<notin> set b" and "CHR '')'' \<notin> set b"
    and "mid = ''?'' \<or> (\<exists>x. mid = ''?'' @ x @ ''?'')"
  shows "expand_group n (pre @ ''('' @ a @ mid @ b @ '')'' @ post) =
    Ok (pre @ join '', '' (replicate n (''('' @ a @ mid @ b @ '')'')) @ post)"
proof -
  let ?u = "pre @ ''('' @ a @ mid @ b @ '')'' @ post"
  let ?pa = "pre @ ''('' @ a"
  obtain m where mid: "mid = CHR ''?'' # m" using assms(7) by auto
  obtain m' where mid': "mid = m' @ ''?''" using assms(7) by auto
  have f: "index_byte ?u CHR ''?'' = Some (length ?pa)"
    using index_byte_append_notin [of "CHR ''?''" ?pa "mid @ b @ '')'' @ post"] assms(1,3)
    by (simp add: mid)
  have l: "last_index_byte ?u CHR ''?'' = Some (length (?pa @ m'))"
    using last_index_byte_snoc_part [of "CHR ''?''" "b @ '')'' @ post" "?pa @ m'"] assms(2,5)
    by (simp add: mid')
  have o: "last_index_byte (take (length ?pa) ?u) CHR ''('' = Some (length pre)"
    using last_index_byte_snoc_part [OF assms(4), of pre] by simp
  have "drop (length (?pa @ m')) ?u = ''?'' @ b @ '')'' @ post" by (simp add: mid')
  then have c: "index_byte (drop (length (?pa @ m')) ?u) CHR '')'' = Some (Suc (length b))"
    using index_byte_append_notin [of "CHR '')''" "''?'' @ b" "'')'' @ post"] assms(6) by simp
  have n: "Suc (length b) + length (?pa @ m') + 1 = length (?pa @ mid @ b @ '')'')"
    by (simp add: mid')
  have u: "?u = (?pa @ mid @ b @ '')'') @ post" by simp
  have t: "take (Suc (length b) + length (?pa @ m') + 1) ?u = ?pa @ mid @ b @ '')''"
      "drop (Suc (length b) + length (?pa @ m') + 1) ?u = post"
    unfolding n u by (rule take_length_append drop_length_append)+
  show ?thesis
    unfolding expand_group_def f l prod.case option.case o c Let_def t by simp
qed

subsection \<open>Rows\<close>

definition row_values :: "tenv \<Rightarrow> mapper \<Rightarrow> string list \<Rightarrow> rvalue \<Rightarrow> gval list \<Rightarrow> bool" where
  "row_values E m names row vals \<longleftrightarrow>
     (\<exists>v tm. deref_value row = Some v \<and> type_map E m (rv_type v) = Some tm \<and>
        list_all2 (\<lambda>n x. struct_get E tm v n = Some (Some x)) names vals)"

lemma row_struct_bind:
  assumes "type_map E m (rv_type v) = Some tm" and "value_interface v = Some x"
  shows "TraversalsByNameFunc E m (rv_type v) names
     (\<lambda>idx t arglist.
        if length t = 0 then
          (case value_interface v of
             None \<Rightarrow> Panic
           | Some x \<Rightarrow> Err arglist (name_not_found f (names ! idx) x))
        else (case read_any E v t of None \<Rightarrow> Panic | Some x \<Rightarrow> Ok (arglist @ [x])))
     acc = struct_bind E tm v (\<lambda>n. name_not_found f n x) names acc"
  using traverse_struct_bind [of tm "\<lambda>n. name_not_found f n x" "[]" names E v acc, unfolded append_Nil]
    type_map_index [OF assms(1)] unfolding TraversalsByNameFunc_def assms option.case by simp

lemma deref_value_ro: "deref_value v = Some w \<Longrightarrow> rv_ro w = rv_ro v"
proof (induction v rule: deref_value.induct)
  case (1 v)
  then show ?case
    by (subst (asm) (2) deref_value.simps)
      (auto simp: value_elem_def split: if_splits option.splits gval.splits)
qed

lemma bindArray_rows_Ok:
  assumes "\<forall>row \<in> set rows. rv_ro row = NoRO"
  shows "bindArray_rows E m names rows acc = Ok as \<longleftrightarrow>
    (\<exists>vals. list_all2 (row_values E m names) rows vals \<and> as = acc @ concat vals)"
  using assms
proof (induction rows arbitrary: acc)
  case Nil
  show ?case by auto
next
  case (Cons row rows)
  show ?case
  proof (cases "deref_value row")
    case None
    then show ?thesis by (auto simp: row_values_def list_all2_Cons1)
  next
    case (Some v)
    have "rv_ro v = NoRO" using deref_value_ro [OF Some] Cons.prems by simp
    then have vi: "value_interface v = Some (rv_val v)" by (simp add: value_interface_def)
    show ?thesis
    proof (cases "type_map E m (rv_type v)")
      case None
      with Some show ?thesis
        by (auto simp: row_values_def list_all2_Cons1 TraversalsByNameFunc_def)
    next
      case tm: (Some tm)
      let ?bind = "struct_bind E tm v
        (\<lambda>n. name_not_found ''sqlx: could not find name %q in slice element %T: %w'' n (rv_val v)) names acc"
      have rv: "row_values E m names row xs \<longleftrightarrow> ?bind = Ok (acc @ xs)" for xs
        using Some tm by (simp add: row_values_def struct_bind.bind_Ok_iff struct_bind.found_def [abs_def])
      have "?bind = Ok r \<Longrightarrow> \<exists>xs. r = acc @ xs" for r
        by (auto simp: struct_bind.bind_Ok_iff)
      then have "bindArray_rows E m names (row # rows) acc = Ok as \<longleftrightarrow>
          (\<exists>xs. row_values E m names row xs \<and> bindArray_rows E m names rows (acc @ xs) = Ok as)"
        using Some row_struct_bind [OF tm vi] unfolding rv by (cases ?bind) auto
      also have "\<dots> \<longleftrightarrow> (\<exists>xs vals. row_values E m names row xs \<and> list_all2 (row_values E m names) rows vals \<and>
          as = acc @ concat (xs # vals))"
        using Cons.IH Cons.prems by simp
      also have "\<dots> \<longleftrightarrow> (\<exists>vals. list_all2 (row_values E m names) (row # rows) vals \<and> as = acc @ concat vals)"
        unfolding list_all2_Cons1 by blast
      finally show ?thesis .
    qed
  qed
qed

lemma row_values_length: "row_values E m names row xs \<Longrightarrow> length xs = length names"
  by (auto simp: row_values_def dest: list_all2_lengthD)

lemma rows_length:
  "list_all2 (row_values E m names) rows vals \<Longrightarrow> length (concat vals) = length rows * length names"
  by (induction rows arbitrary: vals) (auto simp: list_all2_Cons1 row_values_length)

lemma elem_rvalues_ro [simp]: "\<forall>row \<in> set (elem_rvalues t vs). rv_ro row = NoRO"
  by (auto simp: elem_rvalues_def)

lemma length_elem_rvalues [simp]: "length (elem_rvalues t vs) = length vs"
  by (simp add: elem_rvalues_def)

lemma bindArray_Ok_iff:
  assumes "cache_inv (w, own)"
  shows "snd (bindArray E w bt query (VSeq ty vs) m) = Ok (q, as) \<longleftrightarrow>
    (\<exists>et names u nq vals. seq_elem ty = Some et \<and> vs \<noteq> [] \<and> compile_query QUESTION query = Ok (u, names) \<and> names \<noteq> [] \<and>
       list_all2 (row_values E m names) (elem_rvalues et vs) vals \<and> as = concat vals \<and>
       expand_group (length vs) u = Ok nq \<and> q = Rebind bt nq)"
proof (cases "seq_elem ty = None \<or> vs = []")
  case True
  then show ?thesis by (cases "seq_elem ty") (auto simp: bindArray_def)
next
  case False
  then obtain et where et: "seq_elem ty = Some et" "vs \<noteq> []" by auto
  obtain w1 r where c: "compileNamedQuery w query QUESTION = (w1, r)" by (cases "compileNamedQuery w query QUESTION")
  note cc = compile_cached(2-4) [OF assms c]
  show ?thesis
  proof (cases r)
    case (Ok v)
    obtain u ref where v: "v = (u, ref)" by (cases v)
    from cc(1) [of u ref] Ok v have cq: "compile_query QUESTION query = Ok (u, read_slice w1 ref)" by simp
    have rows: "bindArray_rows E m (read_slice w1 ref) (elem_rvalues et vs) [] = Ok as \<longleftrightarrow>
        (\<exists>vals. list_all2 (row_values E m (read_slice w1 ref)) (elem_rvalues et vs) vals \<and> as = concat vals)" for as
      by (simp add: bindArray_rows_Ok)
    have "snd (bindArray E w bt query (VSeq ty vs) m) = Ok (q, as) \<longleftrightarrow>
        read_slice w1 ref \<noteq> [] \<and> bindArray_rows E m (read_slice w1 ref) (elem_rvalues et vs) [] = Ok as \<and>
        (\<exists>nq. expand_group (length vs) u = Ok nq \<and> q = Rebind bt nq)"
      using et c Ok v by (auto simp: bindArray_def Let_def split: result.split)
    then show ?thesis unfolding rows using et cq by auto
  next
    case (Err v e)
    then show ?thesis using et c cc(2) [of v e] by (auto simp: bindArray_def)
  next
    case Panic
    then show ?thesis using et c cc(3) by (simp add: bindArray_def)
  qed
qed

text \<open>
  C11. A batch that binds has exactly one value for each mark it sends to the database: for every
  query without a \<open>?\<close> of its own the values are the rows' values one row after the other, as many
  as rows times names, and the expanded query has that many marks for \<open>Rebind\<close> to number.
\<close>

theorem bindArray_marks_match_values:
  assumes "cache_reachable (w, own)" and "CHR ''?'' \<notin> set query"
    and "snd (bindArray E w bt query (VSeq ty vs) m) = Ok (q, as)"
  shows "\<exists>et names nq vals. seq_elem ty = Some et \<and> list_all2 (row_values E m names) (elem_rvalues et vs) vals \<and>
    as = concat vals \<and> length as = length vs * length names \<and>
    q = Rebind bt nq \<and> count_list nq CHR ''?'' = length as"
proof -
  from assms(3) obtain et names u nq vals where b: "seq_elem ty = Some et" "vs \<noteq> []"
      "compile_query QUESTION query = Ok (u, names)" "names \<noteq> []"
      "list_all2 (row_values E m names) (elem_rvalues et vs) vals" "as = concat vals"
      "expand_group (length vs) u = Ok nq" "q = Rebind bt nq"
    unfolding bindArray_Ok_iff [OF cache_reachable_inv [OF assms(1)]] by blast
  have u: "count_list u CHR ''?'' = length names"
    using b(3) assms(2) by (auto elim!: compile_queryE simp: lexed_qmarks count_list_notin)
  have "count_list nq CHR ''?'' = length vs * length names"
    using expand_group_marks [OF b(7)] u b(4) by simp
  moreover have "length as = length vs * length names"
    using rows_length [OF b(5)] b(6) by simp
  ultimately show ?thesis using b by auto
qed

text \<open>
  A plain batch insert: when the compiled query is \<open>pre ( a ? ... ? b ) post\<close>, with no mark outside
  the parentheses, no open parenthesis between the group's start and its first mark and no closing one
  between the last mark and its end, the group is repeated once per row, separated by commas, the
  marks are numbered through, and the values follow row by row.
\<close>

lemma bindArray_plain_insert:
  assumes "cache_reachable (w, own)"
    and "compile_query QUESTION query = Ok (pre @ ''('' @ a @ mid @ b @ '')'' @ post, names)"
    and "CHR ''?'' \<notin> set (pre @ a @ b @ post)" and "CHR ''('' \<notin> set a" and "CHR '')'' \<notin> set b"
    and "mid = ''?'' \<or> (\<exists>x. mid = ''?'' @ x @ ''?'')"
    and "seq_elem ty = Some et" and "vs \<noteq> []" and "names \<noteq> []"
    and "list_all2 (row_values E m names) (elem_rvalues et vs) vals"
  shows "snd (bindArray E w bt query (VSeq ty vs) m) =
    Ok (Rebind bt (pre @ join '', '' (replicate (length vs) (''('' @ a @ mid @ b @ '')'')) @ post), concat vals)"
  using assms expand_group_at [of pre post a b mid "length vs"]
  unfolding bindArray_Ok_iff [OF cache_reachable_inv [OF assms(1)]] by auto

definition sample_rows :: gval where
  "sample_rows = VSeq (TSlice (TStruct ''Base'')) [VStruct ''Base'' [VBasic (TBasic BInt64) ''1''], VStruct ''Base'' [VBasic (TBasic BInt64) ''2'']]"

lemma sample_rows_values:
  "list_all2 (row_values sample_types bindDefaultMapper [''id''])
     (elem_rvalues (TStruct ''Base'') [VStruct ''Base'' [VBasic (TBasic BInt64) ''1''], VStruct ''Base'' [VBasic (TBasic BInt64) ''2'']])
     [[VBasic (TBasic BInt64) ''1''], [VBasic (TBasic BInt64) ''2'']]"
proof -
  have bound: "bindArray_rows sample_types bindDefaultMapper [''id'']
     (elem_rvalues (TStruct ''Base'') [VStruct ''Base'' [VBasic (TBasic BInt64) d]]) [] =
       Ok [VBasic (TBasic BInt64) d]" if "d = ''1'' \<or> d = ''2''" for d
    using that by (elim disjE) (simp_all only:, code_simp+)
  have row: "row_values sample_types bindDefaultMapper [''id'']
      \<lparr>rv_val = VStruct ''Base'' [VBasic (TBasic BInt64) d], rv_type = TStruct ''Base'', rv_ro = NoRO\<rparr>
      [VBasic (TBasic BInt64) d]" if "d = ''1'' \<or> d = ''2''" for d
  proof -
    have "\<forall>row \<in> set (elem_rvalues (TStruct ''Base'') [VStruct ''Base'' [VBasic (TBasic BInt64) d]]). rv_ro row = NoRO"
      by (simp add: elem_rvalues_def)
    from bound [OF that, unfolded bindArray_rows_Ok [OF this]] obtain vals where
      "list_all2 (row_values sample_types bindDefaultMapper [''id''])
         (elem_rvalues (TStruct ''Base'') [VStruct ''Base'' [VBasic (TBasic BInt64) d]]) vals"
      "[VBasic (TBasic BInt64) d] = [] @ concat vals" by blast
    then show ?thesis by (cases vals) (simp_all add: elem_rvalues_def)
  qed
  show ?thesis by (simp add: elem_rvalues_def row)
qed

lemma bindArray_plain_insert_witness:
  "snd (bindArray sample_types init_cworld DOLLAR ''INSERT INTO b (id) VALUES (:id)'' sample_rows bindDefaultMapper) =
     Ok (''INSERT INTO b (id) VALUES ($1), ($2)'', [VBasic (TBasic BInt64) ''1'', VBasic (TBasic BInt64) ''2''])"
proof -
  have c: "compile_query QUESTION ''INSERT INTO b (id) VALUES (:id)'' =
      Ok (''INSERT INTO b (id) VALUES '' @ ''('' @ [] @ ''?'' @ [] @ '')'' @ [], [''id''])"
    by code_simp
  have r: "Rebind DOLLAR (''INSERT INTO b (id) VALUES '' @ join '', '' (replicate 2 (''('' @ [] @ ''?'' @ [] @ '')'')) @ []) =
      ''INSERT INTO b (id) VALUES ($1), ($2)''"
    by code_simp
  show ?thesis
    using bindArray_plain_insert [OF cache_reachable.start c _ _ _ _ _ _ _ sample_rows_values, of "TSlice (TStruct ''Base'')" DOLLAR]
      r by (simp add: sample_rows_def numeral_2_eq_2)
qed

theorem bindArray_marks_match_values_witness:
  "\<exists>nq. ''INSERT INTO b (id) VALUES ($1), ($2)'' = Rebind DOLLAR nq \<and> count_list nq CHR ''?'' = 2"
proof -
  have "snd (bindArray sample_types init_cworld DOLLAR ''INSERT INTO b (id) VALUES (:id)'' sample_rows bindDefaultMapper) =
     Ok (''INSERT INTO b (id) VALUES ($1), ($2)'', [VBasic (TBasic BInt64) ''1'', VBasic (TBasic BInt64) ''2''])"
    by code_simp
  from bindArray_marks_match_values [OF cache_reachable.start _ this [unfolded sample_rows_def]]
  show ?thesis by auto
qed

subsection \<open>Where the group is not the one meant\<close>

text \<open>
  A function call around the first parameter breaks the batch: in \<open>pre ( f(?), ? )\<close> the group is
  taken to start at the call's own parenthesis, so each further row adds \<open>(?), ?)\<close>, and n rows
  leave n - 1 closing parentheses more than the query had.
\<close>

lemma expand_group_splits_call:
  assumes "CHR ''?'' \<notin> set pre" and "CHR ''?'' \<notin> set f"
  shows "\<exists>nq. expand_group n (pre @ ''('' @ f @ ''(?), ?)'') = Ok nq \<and>
    nq = pre @ ''('' @ f @ join '', '' (replicate n ''(?), ?)'') \<and>
    count_list nq CHR ''('' = count_list (pre @ f) CHR ''('' + 1 + n \<and>
    count_list nq CHR '')'' = count_list (pre @ f) CHR '')'' + 2 * n"
proof -
  have "expand_group n ((pre @ ''('' @ f) @ ''('' @ [] @ ''?), ?'' @ [] @ '')'' @ []) =
      Ok ((pre @ ''('' @ f) @ join '', '' (replicate n (''('' @ [] @ ''?), ?'' @ [] @ '')'')) @ [])"
    using assms by (intro expand_group_at) auto
  moreover have "count_list (join '', '' (replicate n g)) c = n * count_list g c" if "c \<notin> set '', ''" for g c
    using that by (rule count_join_replicate)
  ultimately show ?thesis by simp
qed

lemma expand_group_splits_call_witness:
  "expand_group 2 ''INSERT INTO t VALUES (lower(?), ?)'' = Ok ''INSERT INTO t VALUES (lower(?), ?), (?), ?)''"
proof -
  have p: "CHR ''?'' \<notin> set ''INSERT INTO t VALUES ''" "CHR ''?'' \<notin> set ''lower''" by simp_all
  from expand_group_splits_call [OF p, of 2] show ?thesis by (simp add: numeral_2_eq_2)
qed

text \<open>
  A batch of maps never binds: \<open>bindArray\<close> looks every row up through the mapper, which knows
  no names for a map type, so the first name is reported as not found although a single map with
  the same entries binds.
\<close>

lemma bindArray_rejects_maps:
  assumes "cache_reachable (w, own)" and "compile_query QUESTION query = Ok (u, n # names)"
    and "seq_elem ty = Some et" and "underlying et = string_map" and "type_of v = Some et"
  shows "\<exists>e. snd (bindArray E w bt query (VSeq ty (v # vs)) m) = Err ([], []) e \<and>
    errors_is e ErrNamedPropertyNotFound"
proof -
  obtain w1 r where c: "compileNamedQuery w query QUESTION = (w1, r)" by (cases "compileNamedQuery w query QUESTION")
  note cc = compile_cached(2-4) [OF cache_reachable_inv [OF assms(1)] c]
  obtain ref where r: "r = Ok (u, ref)" "read_slice w1 ref = n # names"
  proof (cases r)
    case (Ok p)
    then show thesis using that cc(1) [of "fst p" "snd p"] assms(2) by (cases p) auto
  next
    case (Err p e)
    then show thesis using cc(2) [of p e] assms(2) by auto
  next
    case Panic
    then show thesis using cc(3) assms(2) by simp
  qed
  note k = string_map_type [OF assms(4)]
  let ?row = "\<lparr>rv_val = v, rv_type = et, rv_ro = NoRO\<rparr>"
  have row: "deref_value ?row = Some ?row" by (subst deref_value.simps) (simp add: k)
  have tm: "type_map E m et = Some empty_struct_map"
    using k by (cases et) (auto simp: type_map_def Deref_def mapType_def)
  have empty: "sm_names empty_struct_map n = None" by (simp add: empty_struct_map_def)
  have "TraversalsByNameFunc E m et (n # names) fn acc = (case fn 0 [] acc of Ok s \<Rightarrow>
      traverse_names empty_struct_map fn 1 names s | r \<Rightarrow> r)" for fn :: "nat \<Rightarrow> nat list \<Rightarrow> gval list \<Rightarrow> gval list result" and acc
    by (auto simp: TraversalsByNameFunc_def tm empty split: result.split)
  then have "\<exists>al e. bindArray_rows E m (n # names) (elem_rvalues et (v # vs)) [] = Err al e \<and>
      errors_is e ErrNamedPropertyNotFound"
    by (simp add: elem_rvalues_def row value_interface_def name_not_found_def)
  then show ?thesis
    using c r assms(3) by (auto simp: bindArray_def)
qed

lemma bindArray_rejects_maps_witness:
  "\<exists>e. snd (bindArray sample_types init_cworld QUESTION ''INSERT INTO b (id) VALUES (:id)''
       (VSeq (TSlice string_map) [VMap string_map [(''id'', VNil)]]) bindDefaultMapper) = Err ([], []) e \<and>
     errors_is e ErrNamedPropertyNotFound"
proof -
  have c: "compile_query QUESTION ''INSERT INTO b (id) VALUES (:id)'' = Ok (''INSERT INTO b (id) VALUES (?)'', [''id''])"
    by code_simp
  show ?thesis
    using bindArray_rejects_maps [OF cache_reachable.start c, of "TSlice string_map" string_map "VMap string_map [(''id'', VNil)]"]
    by simp
qed

end
