(* ===== verification/Bind_In.thy ===== *)
theory Bind_In
  imports Bind_Rebind Go_Types
begin

text \<open>
  \<open>In\<close> of \<open>internal/bind/bind.go\<close>: a slice argument becomes one \<open>?\<close> per element.  The loop works
  with offsets into a query it re-slices; the specification cuts the query at its marks once and
  puts the expanded marks between the pieces.  A \<open>driver.Valuer\<close> is user code: \<open>valuer v\<close> is what
  its \<open>Value\<close> method returns, \<^const>\<open>None\<close> when \<open>v\<close> has none.
\<close>

type_synonym valuer = "gval \<Rightarrow> (gval \<times> go_error option) option"

subsection \<open>The code\<close>

definition asSliceForIn :: "gval \<Rightarrow> gval option" where
  "asSliceForIn i =
     (case type_of i of
        None \<Rightarrow> None
      | Some ty \<Rightarrow>
          let t = Deref ty in
          if kind_of t \<noteq> KSlice then None
          else if t = byte_slice then None
          else Some i)"

text \<open>\<open>Value.Len\<close> of what \<open>asSliceForIn\<close> accepts; \<^const>\<open>None\<close> is its panic on a pointer to a slice.\<close>

fun value_len :: "gval \<Rightarrow> nat option" where
  "value_len (VSeq t vs) = Some (length vs)"
| "value_len _ = None"

fun value_elems :: "gval \<Rightarrow> gval list" where
  "value_elems (VSeq t vs) = vs"
| "value_elems _ = []"

record arg_meta =
  am_v :: gval
  am_i :: gval
  am_length :: nat

text \<open>The first loop: the metadata, whether there was a slice, and the number of flat arguments.\<close>

fun in_meta :: "valuer \<Rightarrow> gval list \<Rightarrow> arg_meta list \<Rightarrow> bool \<Rightarrow> nat \<Rightarrow>
    (arg_meta list \<times> bool \<times> nat) result" where
  "in_meta valuer [] meta anySlices flat = Ok (meta, anySlices, flat)"
| "in_meta valuer (arg # args) meta anySlices flat =
     (let (arg', err) = (case valuer arg of None \<Rightarrow> (arg, None) | Some r \<Rightarrow> r) in
      case err of
        Some e \<Rightarrow> Err ([], anySlices, flat) (Errorf ''sqlx: error getting value from driver.Valuer: %w'' [] (Some e))
      | None \<Rightarrow>
          (case asSliceForIn arg' of
             Some v \<Rightarrow>
               (case value_len v of
                  None \<Rightarrow> Panic
                | Some n \<Rightarrow>
                    if n = 0 then
                      Err ([], True, flat)
                        (Errorf ''sqlx: empty slice passed to 'In' query: %w'' [] (Some (Sentinel ErrNoRows)))
                    else in_meta valuer args (meta @ [\<lparr>am_v = v, am_i = VNil, am_length = n\<rparr>]) True (flat + n))
           | None \<Rightarrow>
               in_meta valuer args (meta @ [\<lparr>am_v = VNil, am_i = arg', am_length = 0\<rparr>]) anySlices (flat + 1)))"

definition appendReflectSlice :: "gval list \<Rightarrow> gval \<Rightarrow> nat \<Rightarrow> gval list" where
  "appendReflectSlice args v vlen =
     (if type_of v \<in> {Some (TSlice any_type), Some (TSlice (TBasic BInt)), Some (TSlice (TBasic BString))}
      then args @ value_elems v
      else args @ map (\<lambda>si. value_elems v ! si) [0..<vlen])"

definition exceeds_error :: go_error where
  "exceeds_error = Errorf ''sqlx: number of bindVars exceeds arguments: %w'' [] (Some (Sentinel ErrBindMismatch))"

definition fewer_error :: go_error where
  "fewer_error = Errorf ''sqlx: number of bindVars less than number arguments: %w'' [] (Some (Sentinel ErrBindMismatch))"

function in_loop :: "arg_meta list \<Rightarrow> string \<Rightarrow> nat \<Rightarrow> nat \<Rightarrow> gval list \<Rightarrow> string \<Rightarrow>
    (string \<times> gval list) result" where
  "in_loop meta query offset arg newArgs buf =
     (case index_byte (drop offset query) CHR ''?'' of
        None \<Rightarrow>
          if arg < length meta then Err ([], []) fewer_error else Ok (buf @ query, newArgs)
      | Some i \<Rightarrow>
          if length meta \<le> arg then Err ([], []) exceeds_error
          else
            (let am = meta ! arg in
             if am_length am = 0 then
               in_loop meta query (offset + i + 1) (Suc arg) (newArgs @ [am_i am]) buf
             else
               in_loop meta (drop (offset + i + 1) query) 0 (Suc arg)
                 (appendReflectSlice newArgs (am_v am) (am_length am))
                 (buf @ take (offset + i + 1) query @ concat (replicate (am_length am - 1) '', ?''))))"
  by pat_completeness auto
termination
  by (relation "measure (\<lambda>(meta, query, offset, _). length query - offset)")
    (auto dest: index_byte_SomeD(1))

declare in_loop.simps [simp del]

definition In :: "valuer \<Rightarrow> string \<Rightarrow> gval list \<Rightarrow> (string \<times> gval list) result" where
  "In valuer query args =
     (case in_meta valuer args [] False 0 of
        Panic \<Rightarrow> Panic
      | Err _ e \<Rightarrow> Err ([], []) e
      | Ok (meta, anySlices, flatArgsCount) \<Rightarrow>
          if \<not> anySlices then Ok (query, args) else in_loop meta query 0 0 [] [])"

subsection \<open>The specification\<close>

text \<open>What one argument stands for: itself, or the elements of a slice that is expanded.\<close>

definition resolve :: "valuer \<Rightarrow> gval \<Rightarrow> gval" where
  "resolve valuer arg = (case valuer arg of None \<Rightarrow> arg | Some (v, _) \<Rightarrow> v)"

definition valuer_error :: "valuer \<Rightarrow> gval \<Rightarrow> go_error option" where
  "valuer_error valuer arg = (case valuer arg of None \<Rightarrow> None | Some (_, e) \<Rightarrow> e)"

definition expands :: "valuer \<Rightarrow> gval \<Rightarrow> bool" where
  "expands valuer arg \<longleftrightarrow> asSliceForIn (resolve valuer arg) \<noteq> None"

definition expansion :: "valuer \<Rightarrow> gval \<Rightarrow> gval list" where
  "expansion valuer arg =
     (if expands valuer arg then value_elems (resolve valuer arg) else [resolve valuer arg])"

definition marks :: "nat \<Rightarrow> string" where
  "marks n = join '', '' (replicate n ''?'')"

fun weave :: "string list \<Rightarrow> nat list \<Rightarrow> string" where
  "weave [] ns = []"
| "weave (p # ps) [] = p"
| "weave (p # ps) (n # ns) = p @ marks n @ weave ps ns"

text \<open>An argument \<open>In\<close> accepts: no error from \<open>Value\<close>, and a slice is not empty and not behind a pointer.\<close>

definition acceptable :: "valuer \<Rightarrow> gval \<Rightarrow> bool" where
  "acceptable valuer arg \<longleftrightarrow>
     valuer_error valuer arg = None \<and>
     (expands valuer arg \<longrightarrow> (\<exists>t v vs. resolve valuer arg = VSeq t (v # vs)))"

definition meta_of :: "valuer \<Rightarrow> gval \<Rightarrow> arg_meta" where
  "meta_of valuer arg =
     (if expands valuer arg
      then \<lparr>am_v = resolve valuer arg, am_i = VNil, am_length = length (value_elems (resolve valuer arg))\<rparr>
      else \<lparr>am_v = VNil, am_i = resolve valuer arg, am_length = 0\<rparr>)"

lemma in_meta_prefix:
  "list_all (acceptable valuer) args \<Longrightarrow>
   in_meta valuer (args @ more_args) meta any flat =
     in_meta valuer more_args (meta @ map (meta_of valuer) args) (any \<or> list_ex (expands valuer) args)
       (flat + sum_list (map (length \<circ> expansion valuer) args))"
proof (induction args arbitrary: meta any flat)
  case (Cons arg args)
  define v where "v = resolve valuer arg"
  have r: "(case valuer arg of None \<Rightarrow> (arg, None) | Some r \<Rightarrow> r) = (v, None)"
    using Cons.prems
    by (auto simp: acceptable_def valuer_error_def resolve_def v_def split: option.splits)
  show ?case
  proof (cases "asSliceForIn v")
    case None
    with r Cons show ?thesis
      by (simp add: meta_of_def expands_def expansion_def v_def)
  next
    case (Some w)
    then have w: "w = v" by (auto simp: asSliceForIn_def Let_def split: option.splits if_splits)
    from Some Cons.prems obtain t x xs where "v = VSeq t (x # xs)"
      by (auto simp: acceptable_def expands_def v_def)
    with Some w r Cons show ?thesis
      by (simp add: meta_of_def expands_def expansion_def v_def add.assoc)
  qed
qed simp

lemmas in_meta_acceptable = in_meta_prefix [where more_args = "[]", simplified]

subsection \<open>The loop meets the specification\<close>

lemma marks_Suc: "marks (Suc n) = ''?'' @ concat (replicate n '', ?'')"
proof (induction n)
  case 0
  show ?case by (simp add: marks_def)
next
  case (Suc n)
  then show ?case by (simp add: marks_def)
qed

lemma weave_Cons: "ps \<noteq> [] \<Longrightarrow> weave (p # ps) (n # ns) = p @ marks n @ weave ps ns"
  by simp

definition wf_meta :: "arg_meta \<Rightarrow> bool" where
  "wf_meta am \<longleftrightarrow> am_length am = 0 \<or> am_length am = length (value_elems (am_v am))"

definition meta_values :: "arg_meta \<Rightarrow> gval list" where
  "meta_values am = (if am_length am = 0 then [am_i am] else value_elems (am_v am))"

definition meta_marks :: "arg_meta \<Rightarrow> nat" where
  "meta_marks am = (if am_length am = 0 then 1 else am_length am)"

lemma append_elems: "appendReflectSlice args v (length (value_elems v)) = args @ value_elems v"
  by (simp add: appendReflectSlice_def map_nth)

lemma length_meta_values: "wf_meta am \<Longrightarrow> length (meta_values am) = meta_marks am"
  by (auto simp: wf_meta_def meta_values_def meta_marks_def)

lemma in_loop_spec:
  assumes "list_all wf_meta meta" and "off \<le> length q" and "arg \<le> length meta"
  shows "in_loop meta q off arg na buf =
    (let ps = split_on CHR ''?'' (drop off q); ms = drop arg meta in
     if length ms < length ps - 1 then Err ([], []) exceeds_error
     else if length ps - 1 < length ms then Err ([], []) fewer_error
     else Ok (buf @ take off q @ weave ps (map meta_marks ms), na @ concat (map meta_values ms)))"
  using assms
proof (induction meta q off arg na buf rule: in_loop.induct)
  case (1 meta q off arg na buf)
  show ?case
  proof (cases "index_byte (drop off q) CHR ''?''")
    case None
    with "1.prems" show ?thesis
      by (subst in_loop.simps) (auto simp: index_byte_None_iff split_on_no_sep)
  next
    case (Some i)
    note ix = index_byte_SomeD [OF Some]
    define rest where "rest = drop (off + i + 1) q"
    have split: "split_on CHR ''?'' (drop off q) = take i (drop off q) # split_on CHR ''?'' rest"
      using split_on_append_sep [OF ix(3)] ix(2) unfolding rest_def
      by (metis add.assoc add.commute drop_drop plus_1_eq_Suc)
    have pre: "take (off + i + 1) q = take off q @ take i (drop off q) @ ''?''"
      using take_add [of off "Suc i" q] take_Suc_conv_app_nth [OF ix(1)] index_byte_nth [OF Some]
      by simp
    show ?thesis
    proof (cases "arg < length meta")
      case False
      with Some "1.prems" show ?thesis
        by (subst in_loop.simps) (simp add: split length_split_on)
    next
      case True
      then have ms: "drop arg meta = meta ! arg # drop (Suc arg) meta"
        by (simp add: Cons_nth_drop_Suc)
      have wf: "wf_meta (meta ! arg)" using "1.prems"(1) True by (simp add: list_all_length)
      have bound: "off + i + 1 \<le> length q" using ix(1) by simp
      show ?thesis
      proof (cases "am_length (meta ! arg) = 0")
        case z: True
        have ih: "in_loop meta q (off + i + 1) (Suc arg) (na @ [am_i (meta ! arg)]) buf =
            (let ps = split_on CHR ''?'' rest; ms = drop (Suc arg) meta in
             if length ms < length ps - 1 then Err ([], []) exceeds_error
             else if length ps - 1 < length ms then Err ([], []) fewer_error
             else Ok (buf @ take (off + i + 1) q @ weave ps (map meta_marks ms),
                 (na @ [am_i (meta ! arg)]) @ concat (map meta_values ms)))"
          unfolding rest_def
          using "1.IH"(1) [OF Some _ refl z "1.prems"(1) bound] True by simp
        show ?thesis
          using Some True z
          by (subst in_loop.simps)
            (auto simp: Let_def ih [unfolded One_nat_def add_Suc_right add_0_right] split ms
              pre [unfolded One_nat_def add_Suc_right add_0_right]
              length_split_on meta_marks_def meta_values_def marks_Suc)
      next
        case nz: False
        let ?na = "appendReflectSlice na (am_v (meta ! arg)) (am_length (meta ! arg))"
        let ?buf = "buf @ take (off + i + 1) q @ concat (replicate (am_length (meta ! arg) - 1) '', ?'')"
        have ih: "in_loop meta rest 0 (Suc arg) ?na ?buf =
            (let ps = split_on CHR ''?'' rest; ms = drop (Suc arg) meta in
             if length ms < length ps - 1 then Err ([], []) exceeds_error
             else if length ps - 1 < length ms then Err ([], []) fewer_error
             else Ok (?buf @ weave ps (map meta_marks ms), ?na @ concat (map meta_values ms)))"
          unfolding rest_def
          using "1.IH"(2) [OF Some _ refl nz "1.prems"(1)] True
          by (simp only: not_le Suc_leI le0 take0 append_Nil drop_0 append_assoc simp_thms)
        have app: "?na = na @ meta_values (meta ! arg)"
          using wf nz append_elems by (simp add: wf_meta_def meta_values_def)
        obtain n where n: "am_length (meta ! arg) = Suc n" using nz by (cases "am_length (meta ! arg)") auto
        have mk: "marks (meta_marks (meta ! arg)) = ''?'' @ concat (replicate n '', ?'')"
          using nz n by (simp add: meta_marks_def marks_Suc)
        show ?thesis
          using Some True ih [unfolded app] mk n
            rest_def [unfolded One_nat_def add_Suc_right add_0_right, symmetric]
            app [unfolded n] pre [unfolded One_nat_def add_Suc_right add_0_right]
          by (subst in_loop.simps) (auto simp: Let_def split ms length_split_on)
      qed
    qed
  qed
qed

lemma In_spec:
  assumes "list_all (acceptable valuer) args"
  shows "In valuer query args =
    (if \<not> list_ex (expands valuer) args then Ok (query, args)
     else if length args < count_list query CHR ''?'' then Err ([], []) exceeds_error
     else if count_list query CHR ''?'' < length args then Err ([], []) fewer_error
     else Ok (weave (split_on CHR ''?'' query) (map (length \<circ> expansion valuer) args),
              concat (map (expansion valuer) args)))"
proof -
  let ?meta = "map (meta_of valuer) args"
  have nz: "expands valuer a \<Longrightarrow> value_elems (resolve valuer a) \<noteq> []" if "a \<in> set args" for a
    using assms that by (auto simp: list_all_iff acceptable_def)
  have wf: "list_all wf_meta ?meta"
    by (auto simp: list_all_iff wf_meta_def meta_of_def)
  have vals: "concat (map meta_values ?meta) = concat (map (expansion valuer) args)"
    using nz by (intro arg_cong [of _ _ concat]) (auto simp: meta_values_def meta_of_def expansion_def)
  have mk: "map meta_marks ?meta = map (length \<circ> expansion valuer) args"
    using nz by (auto simp: meta_marks_def meta_of_def expansion_def)
  show ?thesis
    using in_meta_acceptable [OF assms, of "[]" False 0] in_loop_spec [OF wf, of 0 query 0 "[]" "[]"]
    by (auto simp: In_def Let_def length_split_on vals [unfolded map_map] mk [unfolded map_map])
qed

text \<open>
  C6. \<open>In\<close> specified completely for acceptable arguments (no \<open>Value\<close> error, no empty slice, no
  pointer to a slice).  Without a slice the query and the arguments come back as they are.
  Otherwise the number of \<open>?\<close> must be the number of arguments, too many or too few give
  \<open>ErrBindMismatch\<close>; on success each \<open>?\<close> has become one mark per element of its argument, the text
  around the marks is unchanged, and the arguments are the elements in order.
\<close>

theorem In_expands:
  assumes "list_all (acceptable valuer) args"
  shows "In valuer query args =
    (if \<not> list_ex (expands valuer) args then Ok (query, args)
     else if length args < count_list query CHR ''?'' then Err ([], []) exceeds_error
     else if count_list query CHR ''?'' < length args then Err ([], []) fewer_error
     else Ok (weave (split_on CHR ''?'' query) (map (length \<circ> expansion valuer) args),
              concat (map (expansion valuer) args)))"
  by (rule In_spec [OF assms])

text \<open>Every mark of the result has exactly one argument.\<close>

lemma count_marks: "count_list (marks n) CHR ''?'' = n"
  by (cases n) (simp_all add: marks_Suc count_list_concat_replicate, simp add: marks_def)

lemma count_weave:
  "length ps = Suc (length ns) \<Longrightarrow> (\<forall>p \<in> set ps. CHR ''?'' \<notin> set p) \<Longrightarrow>
     count_list (weave ps ns) CHR ''?'' = sum_list ns"
proof (induction ps ns rule: weave.induct)
  case (2 p ps)
  then show ?case by (simp add: count_list_notin)
next
  case (3 p ps n ns)
  then show ?case by (simp add: count_marks count_list_notin)
qed simp

lemma In_Ok_count:
  assumes "list_all (acceptable valuer) args" and "list_ex (expands valuer) args"
    and "In valuer query args = Ok (q, as)"
  shows "count_list q CHR ''?'' = length as"
proof -
  from In_spec [OF assms(1), of query] assms(2,3)
  have c: "count_list query CHR ''?'' = length args"
      "q = weave (split_on CHR ''?'' query) (map (length \<circ> expansion valuer) args)"
      "as = concat (map (expansion valuer) args)"
    by (auto split: if_splits)
  then show ?thesis
    using count_weave [of "split_on CHR ''?'' query" "map (length \<circ> expansion valuer) args"]
      split_on_parts [of _ "CHR ''?''" query]
    by (auto simp: length_split_on length_concat comp_def)
qed

text \<open>A sample: \<open>SELECT ... WHERE id IN (?) AND s = ?\<close> with \<open>[]int{1, 2, 3}\<close> and a string.\<close>

definition sample_ints :: "string list \<Rightarrow> gval" where
  "sample_ints ds = VSeq (TSlice (TBasic BInt)) (map (VBasic (TBasic BInt)) ds)"

theorem In_expands_witness:
  "In (\<lambda>_. None) ''id IN (?) AND s = ?'' [sample_ints [''1'', ''2'', ''3''], VBasic (TBasic BString) ''x''] =
     Ok (''id IN (?, ?, ?) AND s = ?'',
       [VBasic (TBasic BInt) ''1'', VBasic (TBasic BInt) ''2'', VBasic (TBasic BInt) ''3'',
        VBasic (TBasic BString) ''x''])"
proof -
  let ?args = "[sample_ints [''1'', ''2'', ''3''], VBasic (TBasic BString) ''x'']"
  have ok: "list_all (acceptable (\<lambda>_. None)) ?args"
    by (simp add: acceptable_def valuer_error_def resolve_def expands_def asSliceForIn_def sample_ints_def Deref_def)
  have ex: "list_ex (expands (\<lambda>_. None)) ?args"
    "count_list ''id IN (?) AND s = ?'' CHR ''?'' = length ?args"
    "weave (split_on CHR ''?'' ''id IN (?) AND s = ?'') (map (length \<circ> expansion (\<lambda>_. None)) ?args) =
       ''id IN (?, ?, ?) AND s = ?''"
    "concat (map (expansion (\<lambda>_. None)) ?args) =
       [VBasic (TBasic BInt) ''1'', VBasic (TBasic BInt) ''2'', VBasic (TBasic BInt) ''3'',
        VBasic (TBasic BString) ''x'']"
    by code_simp+
  show ?thesis
    unfolding In_expands [OF ok] using ex by simp
qed

text \<open>
  \<open>In\<close> followed by \<open>Rebind\<close>, as callers of a numbered dialect do: the expanded query still has
  one mark per argument, and rebinding replaces the k-th of them by the k-th placeholder, so
  placeholder and argument numbers agree.
\<close>

lemma In_then_Rebind:
  assumes "list_all (acceptable valuer) args" and "list_ex (expands valuer) args"
    and "In valuer query args = Ok (q, as)" and "bt \<noteq> QUESTION" and "bt \<noteq> UNKNOWN"
  shows "Rebind bt q = number_pieces (placeholder bt) 1 (split_on CHR ''?'' q) \<and>
    length (split_on CHR ''?'' q) = Suc (length as) \<and> CHR ''?'' \<notin> set (Rebind bt q)"
  using assms(4,5) In_Ok_count [OF assms(1-3)] rebind_no_qmark [OF assms(4,5)]
  by (simp add: length_split_on Rebind_def rebind_loop_pieces)

lemma In_then_Rebind_witness:
  "Rebind DOLLAR ''a IN (?, ?)'' = ''a IN ($1, $2)'' \<and>
   length (split_on CHR ''?'' ''a IN (?, ?)'') = Suc (length [VBasic (TBasic BInt) ''1'', VBasic (TBasic BInt) ''2''])"
proof -
  let ?args = "[sample_ints [''1'', ''2'']]"
  have ok: "list_all (acceptable (\<lambda>_. None)) ?args"
    by (simp add: acceptable_def valuer_error_def resolve_def expands_def asSliceForIn_def sample_ints_def Deref_def)
  have ex: "list_ex (expands (\<lambda>_. None)) ?args" by code_simp
  have call: "In (\<lambda>_. None) ''a IN (?)'' ?args =
      Ok (''a IN (?, ?)'', [VBasic (TBasic BInt) ''1'', VBasic (TBasic BInt) ''2''])" by code_simp
  have b: "DOLLAR \<noteq> QUESTION" "DOLLAR \<noteq> UNKNOWN" by (simp_all add: bindtype_defs)
  have "number_pieces (placeholder DOLLAR) 1 (split_on CHR ''?'' ''a IN (?, ?)'') = ''a IN ($1, $2)''"
    by code_simp
  with In_then_Rebind [OF ok ex call b] show ?thesis by simp
qed

subsection \<open>Errors\<close>

lemma asSliceForIn_same: "asSliceForIn v = Some w \<Longrightarrow> w = v"
  by (auto simp: asSliceForIn_def Let_def split: option.splits if_splits)

text \<open>
  C36. The first argument that is not acceptable decides, whatever the query and the arguments after it: a failing
  \<open>Value\<close> is reported with its error wrapped, an empty slice is \<open>sql.ErrNoRows\<close>, and a pointer to a
  slice makes \<open>In\<close> panic, since \<open>asSliceForIn\<close> looks through the pointer but returns it.
\<close>

theorem In_rejects:
  assumes "list_all (acceptable valuer) args" and "\<not> acceptable valuer bad"
  shows "In valuer query (args @ bad # rest) =
    (case valuer_error valuer bad of
       Some e \<Rightarrow> Err ([], []) (Errorf ''sqlx: error getting value from driver.Valuer: %w'' [] (Some e))
     | None \<Rightarrow>
         (case resolve valuer bad of
            VSeq t [] \<Rightarrow> Err ([], []) (Errorf ''sqlx: empty slice passed to 'In' query: %w'' [] (Some (Sentinel ErrNoRows)))
          | _ \<Rightarrow> Panic))"
proof (cases "valuer_error valuer bad")
  case (Some e)
  then obtain v where "valuer bad = Some (v, Some e)"
    by (auto simp: valuer_error_def split: option.splits)
  with Some show ?thesis
    by (simp add: In_def in_meta_prefix [OF assms(1)])
next
  case None
  then have r: "(case valuer bad of None \<Rightarrow> (bad, None) | Some r \<Rightarrow> r) = (resolve valuer bad, None)"
    by (auto simp: valuer_error_def resolve_def split: option.splits)
  from None assms(2) obtain w where w: "asSliceForIn (resolve valuer bad) = Some w"
    by (auto simp: acceptable_def expands_def)
  note same = asSliceForIn_same [OF w]
  have "\<nexists>t v vs. resolve valuer bad = VSeq t (v # vs)"
    using None assms(2) by (auto simp: acceptable_def)
  with None r w same show ?thesis
    by (cases "resolve valuer bad")
      (auto simp: In_def in_meta_prefix [OF assms(1)] Let_def neq_Nil_conv split: list.split)
qed

theorem In_rejects_witness:
  "In (\<lambda>_. None) ''a IN (?)'' [VPtr (TSlice (TBasic BInt)) (Some (sample_ints [''1'']))] = Panic \<and>
   (\<exists>e. In (\<lambda>_. None) ''a IN (?)'' [VNil, sample_ints []] = Err ([], []) e \<and> errors_is e ErrNoRows)"
proof -
  let ?p = "VPtr (TSlice (TBasic BInt)) (Some (sample_ints [''1'']))"
  note defs = Let_def acceptable_def valuer_error_def resolve_def expands_def asSliceForIn_def sample_ints_def Deref_def
  have "\<not> acceptable (\<lambda>_. None) ?p" "\<not> acceptable (\<lambda>_. None) (sample_ints [])"
      "list_all (acceptable (\<lambda>_. None)) [VNil]"
    by (simp_all add: defs)
  then show ?thesis
    using In_rejects [of "\<lambda>_. None" "[]" ?p "''a IN (?)''" "[]"]
      In_rejects [of "\<lambda>_. None" "[VNil]" "sample_ints []" "''a IN (?)''" "[]"]
    by (simp add: valuer_error_def resolve_def) (simp add: sample_ints_def)
qed

end
