(* ===== verification/Handles.thy ===== *)
theory Handles
  imports Rows_Scan Bind_Batch Bind_In
begin

text \<open>
  The handles of the package: \<open>DB\<close>, \<open>Tx\<close>, \<open>Conn\<close>, \<open>Stmt\<close> and \<open>NamedStmt\<close> (\<open>db.go\<close>, \<open>tx.go\<close>, \<open>conn.go\<close>, \<open>stmt.go\<close>,
  \<open>named_stmt.go\<close>) and the functions of \<open>helpers.go\<close> they call.  What \<open>database/sql\<close> and the driver
  below it answer is a parameter, a record of functions on a world of any type; the
  state a method works on is that world, the driver table, the compile cache, the engine's globals and
  memory.  A \<open>(T, error)\<close> is a \<open>result\<close>, its nil pointers \<^const>\<open>None\<close>; a function returning only an
  error gives the error, and \<^const>\<open>None\<close> for a panic.
\<close>

subsection \<open>\<open>database/sql\<close>\<close>

text \<open>A context; \<open>Background\<close> is \<open>context.Background()\<close>.\<close>

datatype ctx = Background | Ctx nat

text \<open>The objects queries are sent to: a \<open>*sql.DB\<close>, \<open>*sql.Tx\<close>, \<open>*sql.Conn\<close>, or a value of a caller's own type.\<close>

datatype sql_handle = HDB nat | HTx nat | HConn nat | HUser nat

type_synonym sql_result = nat

type_synonym tx_options = "string option"

record 'w sql_api =
  sql_Open :: "string \<Rightarrow> string \<Rightarrow> 'w \<Rightarrow> 'w \<times> (go_error + nat)"
  sql_Ping :: "ctx \<Rightarrow> nat \<Rightarrow> 'w \<Rightarrow> 'w \<times> go_error option"
  sql_Close :: "nat \<Rightarrow> 'w \<Rightarrow> 'w \<times> go_error option"
  sql_BeginTx :: "ctx \<Rightarrow> sql_handle \<Rightarrow> tx_options \<Rightarrow> 'w \<Rightarrow> 'w \<times> (go_error + nat)"
  sql_Conn :: "ctx \<Rightarrow> nat \<Rightarrow> 'w \<Rightarrow> 'w \<times> (go_error + nat)"
  sql_Query :: "ctx \<Rightarrow> sql_handle \<Rightarrow> string \<Rightarrow> gval list \<Rightarrow> 'w \<Rightarrow> 'w \<times> (go_error + sql_rows)"
  sql_Exec :: "ctx \<Rightarrow> sql_handle \<Rightarrow> string \<Rightarrow> gval list \<Rightarrow> 'w \<Rightarrow> 'w \<times> sql_result option \<times> go_error option"
  sql_Prepare :: "ctx \<Rightarrow> sql_handle \<Rightarrow> string \<Rightarrow> 'w \<Rightarrow> 'w \<times> (go_error + nat)"
  stmt_Query :: "ctx \<Rightarrow> nat \<Rightarrow> gval list \<Rightarrow> 'w \<Rightarrow> 'w \<times> (go_error + sql_rows)"
  stmt_Exec :: "ctx \<Rightarrow> nat \<Rightarrow> gval list \<Rightarrow> 'w \<Rightarrow> 'w \<times> sql_result option \<times> go_error option"
  stmt_Close :: "nat \<Rightarrow> 'w \<Rightarrow> 'w \<times> go_error option"
  tx_Stmt :: "ctx \<Rightarrow> nat \<Rightarrow> nat \<Rightarrow> 'w \<Rightarrow> 'w \<times> nat"
  user_Queryx :: "ctx \<Rightarrow> nat \<Rightarrow> string \<Rightarrow> gval list \<Rightarrow> 'w \<Rightarrow> 'w \<times> sqlx_rows option result"
  api_types :: tenv
  api_conv :: conv

text \<open>The world, the package's globals and memory.\<close>

record 'w sys =
  sy_world :: 'w
  sy_binds :: binds
  sy_cache :: cworld
  sy_engine :: engine
  sy_mem :: memory
  sy_vals :: vals

definition do_query ::
  "'w sql_api \<Rightarrow> 'w sys \<Rightarrow> ctx \<Rightarrow> sql_handle \<Rightarrow> string \<Rightarrow> gval list \<Rightarrow> 'w sys \<times> (go_error + sql_rows)" where
  "do_query api s ctx h query args =
     (let (w, r) = sql_Query api ctx h query args (sy_world s) in (s\<lparr>sy_world := w\<rparr>, r))"

definition to_result :: "'a option \<times> go_error option \<Rightarrow> 'a option result" where
  "to_result r = (case snd r of None \<Rightarrow> Ok (fst r) | Some e \<Rightarrow> Err (fst r) e)"

definition do_exec ::
  "'w sql_api \<Rightarrow> 'w sys \<Rightarrow> ctx \<Rightarrow> sql_handle \<Rightarrow> string \<Rightarrow> gval list \<Rightarrow> 'w sys \<times> sql_result option result" where
  "do_exec api s ctx h query args =
     (let (w, r) = sql_Exec api ctx h query args (sy_world s) in (s\<lparr>sy_world := w\<rparr>, to_result r))"

definition do_stmt_query ::
  "'w sql_api \<Rightarrow> 'w sys \<Rightarrow> ctx \<Rightarrow> nat \<Rightarrow> gval list \<Rightarrow> 'w sys \<times> (go_error + sql_rows)" where
  "do_stmt_query api s ctx st args = (let (w, r) = stmt_Query api ctx st args (sy_world s) in (s\<lparr>sy_world := w\<rparr>, r))"

definition do_stmt_exec ::
  "'w sql_api \<Rightarrow> 'w sys \<Rightarrow> ctx \<Rightarrow> nat \<Rightarrow> gval list \<Rightarrow> 'w sys \<times> sql_result option result" where
  "do_stmt_exec api s ctx st args =
     (let (w, r) = stmt_Exec api ctx st args (sy_world s) in (s\<lparr>sy_world := w\<rparr>, to_result r))"

text \<open>\<open>MustX\<close>: an error panics.\<close>

definition must :: "'s \<times> 'a result \<Rightarrow> 's \<times> 'a result" where
  "must r = (fst r, case snd r of Err _ _ \<Rightarrow> Panic | x \<Rightarrow> x)"

subsection \<open>The handles\<close>

record db =
  db_sql :: nat
  db_DriverName :: string
  db_Mapper :: "mapper option"
  db_Unsafe :: bool
  db_Strict :: bool

record tx =
  tx_sql :: nat
  tx_DriverName :: string
  tx_Mapper :: "mapper option"
  tx_Unsafe :: bool
  tx_Strict :: bool

record conn =
  cn_sql :: nat
  cn_DriverName :: string
  cn_Mapper :: "mapper option"
  cn_Unsafe :: bool
  cn_Strict :: bool

record stmt =
  st_sql :: nat
  st_Mapper :: "mapper option"
  st_Unsafe :: bool
  st_Strict :: bool

record named_stmt =
  ns_Stmt :: nat
  ns_QueryString :: string
  ns_Params :: slice_ref
  ns_Mapper :: "mapper option"
  ns_Unsafe :: bool
  ns_Strict :: bool

text \<open>What the functions over interfaces get: one of the package's handles, or a caller's own type.\<close>

datatype executor = XDB db | XTx tx | XConn conn | XUser nat

fun handle_of :: "executor \<Rightarrow> sql_handle" where
  "handle_of (XDB d) = HDB (db_sql d)"
| "handle_of (XTx t) = HTx (tx_sql t)"
| "handle_of (XConn c) = HConn (cn_sql c)"
| "handle_of (XUser n) = HUser n"

definition NameMapper :: "string \<Rightarrow> string" where
  "NameMapper = ToLower"

definition defaultMapper :: mapper where
  "defaultMapper = NewMapperFunc ''db'' NameMapper"

definition or_default :: "mapper option \<Rightarrow> mapper" where
  "or_default m = (case m of None \<Rightarrow> defaultMapper | Some m \<Rightarrow> m)"

fun extractMeta :: "executor \<Rightarrow> bool \<times> bool \<times> mapper" where
  "extractMeta (XDB v) = (db_Unsafe v, db_Strict v, or_default (db_Mapper v))"
| "extractMeta (XTx v) = (tx_Unsafe v, tx_Strict v, or_default (tx_Mapper v))"
| "extractMeta (XConn v) = (cn_Unsafe v, cn_Strict v, or_default (cn_Mapper v))"
| "extractMeta _ = (False, False, defaultMapper)"

fun extractDriverName :: "executor \<Rightarrow> string" where
  "extractDriverName (XDB v) = db_DriverName v"
| "extractDriverName (XTx v) = tx_DriverName v"
| "extractDriverName (XConn v) = cn_DriverName v"
| "extractDriverName _ = ''unknown''"

text \<open>\<open>&Rows{Rows: r, ...}\<close> and \<open>&Row{rows: r, err: err, ...}\<close>.\<close>

definition make_rows :: "sql_rows \<Rightarrow> mapper option \<Rightarrow> bool \<Rightarrow> bool \<Rightarrow> sqlx_rows" where
  "make_rows r m u strict =
     \<lparr>rws_rows = r, rws_Mapper = m, rws_Unsafe = u, rws_Strict = strict, rws_started = False, rws_meta = [],
      rws_scanDest = [], rws_baseType = None\<rparr>"

definition make_row :: "go_error + sql_rows \<Rightarrow> mapper option \<Rightarrow> bool \<Rightarrow> bool \<Rightarrow> sqlx_row" where
  "make_row r m u strict =
     \<lparr>rw_err = (case r of Inl e \<Rightarrow> Some e | Inr _ \<Rightarrow> None), rw_rows = (case r of Inl _ \<Rightarrow> None | Inr rows \<Rightarrow> Some rows),
      rw_Mapper = m, rw_Unsafe = u, rw_Strict = strict\<rparr>"

subsection \<open>Select and Get\<close>

definition run_select ::
  "'w sql_api \<Rightarrow> 'w sys \<Rightarrow> sql_rows \<Rightarrow> gtype \<Rightarrow> bool \<Rightarrow> slice_item list \<Rightarrow> bool \<Rightarrow> bool \<Rightarrow> mapper option \<Rightarrow>
   ('w sys \<times> slice_item list \<times> go_error option) option" where
  "run_select api s rows destType isNil elems u strict m =
     (case selectScan (api_types api) (api_conv api) (sy_engine s) rows destType isNil u strict m (sy_mem s) (sy_vals s) elems of
        None \<Rightarrow> None
      | Some (en, rows1, mem, vals, elems1, err) \<Rightarrow>
          Some (s\<lparr>sy_engine := en, sy_mem := mem, sy_vals := vals\<rparr>, elems1, err))"

definition run_get ::
  "'w sql_api \<Rightarrow> 'w sys \<Rightarrow> sql_rows \<Rightarrow> gtype \<Rightarrow> addr \<Rightarrow> bool \<Rightarrow> bool \<Rightarrow> mapper option \<Rightarrow> ('w sys \<times> go_error option) option" where
  "run_get api s rows destType dest u strict m =
     (case getScan (api_types api) (api_conv api) (sy_engine s) rows destType dest u strict m (sy_mem s) (sy_vals s) of
        None \<Rightarrow> None
      | Some (en, rows1, mem, vals, err) \<Rightarrow> Some (s\<lparr>sy_engine := en, sy_mem := mem, sy_vals := vals\<rparr>, err))"

definition Select ::
  "'w sql_api \<Rightarrow> 'w sys \<Rightarrow> executor \<Rightarrow> gtype \<Rightarrow> bool \<Rightarrow> slice_item list \<Rightarrow> string \<Rightarrow> gval list \<Rightarrow>
   ('w sys \<times> slice_item list \<times> go_error option) option" where
  "Select api s q destType isNil elems query args =
     (case do_query api s Background (handle_of q) query args of
        (s1, Inl e) \<Rightarrow> Some (s1, elems, Some (Errorf ''sqlx: error in Select query: %w'' [] (Some e)))
      | (s1, Inr rows) \<Rightarrow>
          (let (u, strict, m) = extractMeta q in run_select api s1 rows destType isNil elems u strict (Some m)))"

definition SelectContext ::
  "'w sql_api \<Rightarrow> 'w sys \<Rightarrow> ctx \<Rightarrow> executor \<Rightarrow> gtype \<Rightarrow> bool \<Rightarrow> slice_item list \<Rightarrow> string \<Rightarrow> gval list \<Rightarrow>
   ('w sys \<times> slice_item list \<times> go_error option) option" where
  "SelectContext api s ctx q destType isNil elems query args =
     (case do_query api s ctx (handle_of q) query args of
        (s1, Inl e) \<Rightarrow> Some (s1, elems, Some (Errorf ''sqlx: error in SelectContext query: %w'' [] (Some e)))
      | (s1, Inr rows) \<Rightarrow>
          (let (u, strict, m) = extractMeta q in run_select api s1 rows destType isNil elems u strict (Some m)))"

definition Get ::
  "'w sql_api \<Rightarrow> 'w sys \<Rightarrow> executor \<Rightarrow> gtype \<Rightarrow> addr \<Rightarrow> string \<Rightarrow> gval list \<Rightarrow> ('w sys \<times> go_error option) option" where
  "Get api s q destType dest query args =
     (case do_query api s Background (handle_of q) query args of
        (s1, Inl e) \<Rightarrow> Some (s1, Some (Errorf ''sqlx: error in Get query: %w'' [] (Some e)))
      | (s1, Inr rows) \<Rightarrow>
          (let (u, strict, m) = extractMeta q in run_get api s1 rows destType dest u strict (Some m)))"

definition GetContext ::
  "'w sql_api \<Rightarrow> 'w sys \<Rightarrow> ctx \<Rightarrow> executor \<Rightarrow> gtype \<Rightarrow> addr \<Rightarrow> string \<Rightarrow> gval list \<Rightarrow> ('w sys \<times> go_error option) option" where
  "GetContext api s ctx q destType dest query args =
     (case do_query api s ctx (handle_of q) query args of
        (s1, Inl e) \<Rightarrow> Some (s1, Some (Errorf ''sqlx: error in GetContext query: %w'' [] (Some e)))
      | (s1, Inr rows) \<Rightarrow>
          (let (u, strict, m) = extractMeta q in run_get api s1 rows destType dest u strict (Some m)))"

subsection \<open>Executing\<close>

definition Exec :: "'w sql_api \<Rightarrow> 'w sys \<Rightarrow> ctx \<Rightarrow> executor \<Rightarrow> string \<Rightarrow> gval list \<Rightarrow> 'w sys \<times> sql_result option result" where
  "Exec api s ctx e query args = do_exec api s ctx (handle_of e) query args"

definition MustExecContext :: "'w sql_api \<Rightarrow> 'w sys \<Rightarrow> ctx \<Rightarrow> executor \<Rightarrow> string \<Rightarrow> gval list \<Rightarrow> 'w sys \<times> sql_result option result" where
  "MustExecContext api s ctx e query args = must (Exec api s ctx e query args)"

definition MustExec :: "'w sql_api \<Rightarrow> 'w sys \<Rightarrow> executor \<Rightarrow> string \<Rightarrow> gval list \<Rightarrow> 'w sys \<times> sql_result option result" where
  "MustExec api s e query args = must (Exec api s Background e query args)"

text \<open>
  \<open>LoadFile\<close>: \<open>filepath.Abs\<close> and \<open>os.ReadFile\<close> are the argument \<open>read\<close>, an error or the contents.  The result
  is a pointer to a variable, so it is not nil once the query was executed.
\<close>

definition LoadFileContext ::
  "'w sql_api \<Rightarrow> 'w sys \<Rightarrow> ctx \<Rightarrow> executor \<Rightarrow> (string \<Rightarrow> go_error + string) \<Rightarrow> string \<Rightarrow> 'w sys \<times> sql_result option option result" where
  "LoadFileContext api s ctx e read path =
     (case read path of
        Inl err \<Rightarrow> (s, Err None err)
      | Inr contents \<Rightarrow>
          (case Exec api s ctx e contents [] of
             (s1, Ok res) \<Rightarrow> (s1, Ok (Some res))
           | (s1, Err res err) \<Rightarrow> (s1, Err (Some res) err)
           | (s1, Panic) \<Rightarrow> (s1, Panic)))"

definition LoadFile ::
  "'w sql_api \<Rightarrow> 'w sys \<Rightarrow> executor \<Rightarrow> (string \<Rightarrow> go_error + string) \<Rightarrow> string \<Rightarrow> 'w sys \<times> sql_result option option result" where
  "LoadFile api s e read path = LoadFileContext api s Background e read path"

subsection \<open>Queryx and QueryRowx\<close>

definition DB_QueryxContext ::
  "'w sql_api \<Rightarrow> 'w sys \<Rightarrow> ctx \<Rightarrow> db \<Rightarrow> string \<Rightarrow> gval list \<Rightarrow> 'w sys \<times> sqlx_rows option result" where
  "DB_QueryxContext api s ctx d query args =
     (case do_query api s ctx (HDB (db_sql d)) query args of
        (s1, Inl e) \<Rightarrow> (s1, Err None (Errorf ''sqlx: error in query: %w'' [] (Some e)))
      | (s1, Inr r) \<Rightarrow> (s1, Ok (Some (make_rows r (db_Mapper d) (db_Unsafe d) (db_Strict d)))))"

definition DB_Queryx where "DB_Queryx api s d query args = DB_QueryxContext api s Background d query args"

definition DB_QueryRowxContext ::
  "'w sql_api \<Rightarrow> 'w sys \<Rightarrow> ctx \<Rightarrow> db \<Rightarrow> string \<Rightarrow> gval list \<Rightarrow> 'w sys \<times> sqlx_row" where
  "DB_QueryRowxContext api s ctx d query args =
     (case do_query api s ctx (HDB (db_sql d)) query args of
        (s1, r) \<Rightarrow> (s1, make_row r (db_Mapper d) (db_Unsafe d) (db_Strict d)))"

definition DB_QueryRowx where "DB_QueryRowx api s d query args = DB_QueryRowxContext api s Background d query args"

definition Tx_QueryxContext ::
  "'w sql_api \<Rightarrow> 'w sys \<Rightarrow> ctx \<Rightarrow> tx \<Rightarrow> string \<Rightarrow> gval list \<Rightarrow> 'w sys \<times> sqlx_rows option result" where
  "Tx_QueryxContext api s ctx t query args =
     (case do_query api s ctx (HTx (tx_sql t)) query args of
        (s1, Inl e) \<Rightarrow> (s1, Err None e)
      | (s1, Inr r) \<Rightarrow> (s1, Ok (Some (make_rows r (tx_Mapper t) (tx_Unsafe t) (tx_Strict t)))))"

definition Tx_Queryx where "Tx_Queryx api s t query args = Tx_QueryxContext api s Background t query args"

definition Tx_QueryRowxContext ::
  "'w sql_api \<Rightarrow> 'w sys \<Rightarrow> ctx \<Rightarrow> tx \<Rightarrow> string \<Rightarrow> gval list \<Rightarrow> 'w sys \<times> sqlx_row" where
  "Tx_QueryRowxContext api s ctx t query args =
     (case do_query api s ctx (HTx (tx_sql t)) query args of
        (s1, r) \<Rightarrow> (s1, make_row r (tx_Mapper t) (tx_Unsafe t) (tx_Strict t)))"

definition Tx_QueryRowx where "Tx_QueryRowx api s t query args = Tx_QueryRowxContext api s Background t query args"

definition Conn_QueryxContext ::
  "'w sql_api \<Rightarrow> 'w sys \<Rightarrow> ctx \<Rightarrow> conn \<Rightarrow> string \<Rightarrow> gval list \<Rightarrow> 'w sys \<times> sqlx_rows option result" where
  "Conn_QueryxContext api s ctx c query args =
     (case do_query api s ctx (HConn (cn_sql c)) query args of
        (s1, Inl e) \<Rightarrow> (s1, Err None e)
      | (s1, Inr r) \<Rightarrow> (s1, Ok (Some (make_rows r (cn_Mapper c) (cn_Unsafe c) (cn_Strict c)))))"

definition Conn_QueryRowxContext ::
  "'w sql_api \<Rightarrow> 'w sys \<Rightarrow> ctx \<Rightarrow> conn \<Rightarrow> string \<Rightarrow> gval list \<Rightarrow> 'w sys \<times> sqlx_row" where
  "Conn_QueryRowxContext api s ctx c query args =
     (case do_query api s ctx (HConn (cn_sql c)) query args of
        (s1, r) \<Rightarrow> (s1, make_row r (cn_Mapper c) (cn_Unsafe c) (cn_Strict c)))"

text \<open>\<open>QueryxContext\<close> of the \<open>ExtContext\<close> interface.\<close>

fun Ext_QueryxContext ::
  "'w sql_api \<Rightarrow> 'w sys \<Rightarrow> ctx \<Rightarrow> executor \<Rightarrow> string \<Rightarrow> gval list \<Rightarrow> 'w sys \<times> sqlx_rows option result" where
  "Ext_QueryxContext api s ctx (XDB d) query args = DB_QueryxContext api s ctx d query args"
| "Ext_QueryxContext api s ctx (XTx t) query args = Tx_QueryxContext api s ctx t query args"
| "Ext_QueryxContext api s ctx (XConn c) query args = Conn_QueryxContext api s ctx c query args"
| "Ext_QueryxContext api s ctx (XUser n) query args =
     (let (w, r) = user_Queryx api ctx n query args (sy_world s) in (s\<lparr>sy_world := w\<rparr>, r))"

subsection \<open>Named queries\<close>

definition bind_named :: "'w sql_api \<Rightarrow> 'w sys \<Rightarrow> string \<Rightarrow> string \<Rightarrow> gval \<Rightarrow> 'w sys \<times> (string \<times> gval list) result" where
  "bind_named api s driver query arg =
     (let (c, r) = BindNamed (api_types api) (sy_cache s) (BindType (sy_binds s) driver) query arg
      in (s\<lparr>sy_cache := c\<rparr>, r))"

definition NamedQueryContext ::
  "'w sql_api \<Rightarrow> 'w sys \<Rightarrow> ctx \<Rightarrow> executor \<Rightarrow> string \<Rightarrow> gval \<Rightarrow> 'w sys \<times> sqlx_rows option result" where
  "NamedQueryContext api s ctx e query arg =
     (case bind_named api s (extractDriverName e) query arg of
        (s1, Panic) \<Rightarrow> (s1, Panic)
      | (s1, Err _ err) \<Rightarrow> (s1, Err None err)
      | (s1, Ok (q, args)) \<Rightarrow> Ext_QueryxContext api s1 ctx e q args)"

text \<open>For a \<open>*DB\<close> or \<open>*Tx\<close> \<open>Queryx\<close> is \<open>QueryxContext\<close> in the background, and so it is taken of a caller's own type.\<close>

definition NamedQuery ::
  "'w sql_api \<Rightarrow> 'w sys \<Rightarrow> executor \<Rightarrow> string \<Rightarrow> gval \<Rightarrow> 'w sys \<times> sqlx_rows option result" where
  "NamedQuery api s e query arg =
     (case bind_named api s (extractDriverName e) query arg of
        (s1, Panic) \<Rightarrow> (s1, Panic)
      | (s1, Err _ err) \<Rightarrow> (s1, Err None err)
      | (s1, Ok (q, args)) \<Rightarrow> Ext_QueryxContext api s1 Background e q args)"

definition NamedExecContext ::
  "'w sql_api \<Rightarrow> 'w sys \<Rightarrow> ctx \<Rightarrow> executor \<Rightarrow> string \<Rightarrow> gval \<Rightarrow> 'w sys \<times> sql_result option result" where
  "NamedExecContext api s ctx e query arg =
     (case bind_named api s (extractDriverName e) query arg of
        (s1, Panic) \<Rightarrow> (s1, Panic)
      | (s1, Err _ err) \<Rightarrow> (s1, Err None err)
      | (s1, Ok (q, args)) \<Rightarrow> Exec api s1 ctx e q args)"

definition NamedExec ::
  "'w sql_api \<Rightarrow> 'w sys \<Rightarrow> executor \<Rightarrow> string \<Rightarrow> gval \<Rightarrow> 'w sys \<times> sql_result option result" where
  "NamedExec api s e query arg =
     (case bind_named api s (extractDriverName e) query arg of
        (s1, Panic) \<Rightarrow> (s1, Panic)
      | (s1, Err _ err) \<Rightarrow> (s1, Err None err)
      | (s1, Ok (q, args)) \<Rightarrow> Exec api s1 Background e q args)"

subsection \<open>\<open>Stmt\<close>\<close>

definition PreparexContext :: "'w sql_api \<Rightarrow> 'w sys \<Rightarrow> ctx \<Rightarrow> sql_handle \<Rightarrow> string \<Rightarrow> 'w sys \<times> stmt option result" where
  "PreparexContext api s ctx p query =
     (let (w, r) = sql_Prepare api ctx p query (sy_world s); s1 = s\<lparr>sy_world := w\<rparr> in
      case r of
        Inl e \<Rightarrow> (s1, Err None e)
      | Inr st \<Rightarrow> (s1, Ok (Some \<lparr>st_sql = st, st_Mapper = Some defaultMapper, st_Unsafe = False, st_Strict = False\<rparr>)))"

definition Preparex where "Preparex api s p query = PreparexContext api s Background p query"

definition Stmt_SelectContext ::
  "'w sql_api \<Rightarrow> 'w sys \<Rightarrow> ctx \<Rightarrow> stmt \<Rightarrow> gtype \<Rightarrow> bool \<Rightarrow> slice_item list \<Rightarrow> gval list \<Rightarrow>
   ('w sys \<times> slice_item list \<times> go_error option) option" where
  "Stmt_SelectContext api s ctx st destType isNil elems args =
     (case do_stmt_query api s ctx (st_sql st) args of
        (s1, Inl e) \<Rightarrow> Some (s1, elems, Some e)
      | (s1, Inr rows) \<Rightarrow> run_select api s1 rows destType isNil elems (st_Unsafe st) (st_Strict st) (st_Mapper st))"

definition Stmt_Select where "Stmt_Select api s st = Stmt_SelectContext api s Background st"

definition Stmt_GetContext ::
  "'w sql_api \<Rightarrow> 'w sys \<Rightarrow> ctx \<Rightarrow> stmt \<Rightarrow> gtype \<Rightarrow> addr \<Rightarrow> gval list \<Rightarrow> ('w sys \<times> go_error option) option" where
  "Stmt_GetContext api s ctx st destType dest args =
     (case do_stmt_query api s ctx (st_sql st) args of
        (s1, Inl e) \<Rightarrow> Some (s1, Some e)
      | (s1, Inr rows) \<Rightarrow> run_get api s1 rows destType dest (st_Unsafe st) (st_Strict st) (st_Mapper st))"

definition Stmt_Get where "Stmt_Get api s st = Stmt_GetContext api s Background st"

definition Stmt_MustExecContext where
  "Stmt_MustExecContext api s ctx st args = must (do_stmt_exec api s ctx (st_sql st) args)"

definition Stmt_MustExec where "Stmt_MustExec api s st args = Stmt_MustExecContext api s Background st args"

definition Stmt_QueryRowxContext :: "'w sql_api \<Rightarrow> 'w sys \<Rightarrow> ctx \<Rightarrow> stmt \<Rightarrow> gval list \<Rightarrow> 'w sys \<times> sqlx_row" where
  "Stmt_QueryRowxContext api s ctx st args =
     (case do_stmt_query api s ctx (st_sql st) args of
        (s1, r) \<Rightarrow> (s1, make_row r (st_Mapper st) (st_Unsafe st) (st_Strict st)))"

definition Stmt_QueryRowx where "Stmt_QueryRowx api s st args = Stmt_QueryRowxContext api s Background st args"

definition Stmt_QueryxContext :: "'w sql_api \<Rightarrow> 'w sys \<Rightarrow> ctx \<Rightarrow> stmt \<Rightarrow> gval list \<Rightarrow> 'w sys \<times> sqlx_rows option result" where
  "Stmt_QueryxContext api s ctx st args =
     (case do_stmt_query api s ctx (st_sql st) args of
        (s1, Inl e) \<Rightarrow> (s1, Err None e)
      | (s1, Inr r) \<Rightarrow> (s1, Ok (Some (make_rows r (st_Mapper st) (st_Unsafe st) (st_Strict st)))))"

definition Stmt_Queryx where "Stmt_Queryx api s st args = Stmt_QueryxContext api s Background st args"

subsection \<open>\<open>NamedStmt\<close>\<close>

text \<open>\<open>bind.BindAnyArgs(n.Params, arg, n.Mapper)\<close>; a nil mapper is not used for a map and panics for anything else.\<close>

definition bind_params :: "'w sql_api \<Rightarrow> 'w sys \<Rightarrow> named_stmt \<Rightarrow> gval \<Rightarrow> gval list result" where
  "bind_params api s n arg =
     (let names = read_slice (sy_cache s) (ns_Params n) in
      case ns_Mapper n of
        Some m \<Rightarrow> BindAnyArgs (api_types api) names arg m
      | None \<Rightarrow> (case convertMapStringInterface arg of Ok (Some maparg) \<Rightarrow> bindMapArgs names maparg | _ \<Rightarrow> Panic))"

definition NamedStmt_Close :: "'w sql_api \<Rightarrow> 'w sys \<Rightarrow> named_stmt \<Rightarrow> 'w sys \<times> go_error option" where
  "NamedStmt_Close api s n = (let (w, err) = stmt_Close api (ns_Stmt n) (sy_world s) in (s\<lparr>sy_world := w\<rparr>, err))"

text \<open>The loop of \<open>ExecContext\<close> over the elements of a slice or array.\<close>

fun exec_elems ::
  "'w sql_api \<Rightarrow> 'w sys \<Rightarrow> ctx \<Rightarrow> named_stmt \<Rightarrow> gval list \<Rightarrow> sql_result option \<Rightarrow> 'w sys \<times> sql_result option result" where
  "exec_elems api s ctx n [] res = (s, Ok res)"
| "exec_elems api s ctx n (elem # elems) res =
     (case bind_params api s n elem of
        Panic \<Rightarrow> (s, Panic)
      | Err _ e \<Rightarrow> (s, Err res e)
      | Ok args \<Rightarrow>
          (case do_stmt_exec api s ctx (ns_Stmt n) args of
             (s1, Panic) \<Rightarrow> (s1, Panic)
           | (s1, Err res1 e) \<Rightarrow> (s1, Err res1 e)
           | (s1, Ok res1) \<Rightarrow> exec_elems api s1 ctx n elems res1))"

fun is_seq :: "gval \<Rightarrow> bool" where
  "is_seq (VSeq t vs) = (kind_of t = KArray \<or> kind_of t = KSlice)"
| "is_seq _ = False"

definition NamedStmt_ExecContext ::
  "'w sql_api \<Rightarrow> 'w sys \<Rightarrow> ctx \<Rightarrow> named_stmt \<Rightarrow> gval \<Rightarrow> 'w sys \<times> sql_result option result" where
  "NamedStmt_ExecContext api s ctx n arg =
     (if is_seq arg then
        (if length (value_elems arg) = 0 then (s, Ok None) else exec_elems api s ctx n (value_elems arg) None)
      else
        (case bind_params api s n arg of
           Panic \<Rightarrow> (s, Panic)
         | Err _ e \<Rightarrow> (s, Err None e)
         | Ok args \<Rightarrow> do_stmt_exec api s ctx (ns_Stmt n) args))"

definition NamedStmt_Exec where "NamedStmt_Exec api s n arg = NamedStmt_ExecContext api s Background n arg"

text \<open>\<open>(*sql.Rows, error)\<close> as a sum, \<^const>\<open>None\<close> for the panic of binding.\<close>

definition NamedStmt_QueryContext ::
  "'w sql_api \<Rightarrow> 'w sys \<Rightarrow> ctx \<Rightarrow> named_stmt \<Rightarrow> gval \<Rightarrow> 'w sys \<times> (go_error + sql_rows) option" where
  "NamedStmt_QueryContext api s ctx n arg =
     (case bind_params api s n arg of
        Panic \<Rightarrow> (s, None)
      | Err _ e \<Rightarrow> (s, Some (Inl e))
      | Ok args \<Rightarrow> (case do_stmt_query api s ctx (ns_Stmt n) args of (s1, r) \<Rightarrow> (s1, Some r)))"

definition NamedStmt_Query where "NamedStmt_Query api s n arg = NamedStmt_QueryContext api s Background n arg"

definition NamedStmt_QueryRowContext ::
  "'w sql_api \<Rightarrow> 'w sys \<Rightarrow> ctx \<Rightarrow> named_stmt \<Rightarrow> gval \<Rightarrow> 'w sys \<times> sqlx_row result" where
  "NamedStmt_QueryRowContext api s ctx n arg =
     (case bind_params api s n arg of
        Panic \<Rightarrow> (s, Panic)
      | Err _ e \<Rightarrow> (s, Ok \<lparr>rw_err = Some e, rw_rows = None, rw_Mapper = None, rw_Unsafe = False, rw_Strict = False\<rparr>)
      | Ok args \<Rightarrow>
          (case do_stmt_query api s ctx (ns_Stmt n) args of
             (s1, r) \<Rightarrow> (s1, Ok (make_row r (ns_Mapper n) (ns_Unsafe n) (ns_Strict n)))))"

definition NamedStmt_QueryRow where "NamedStmt_QueryRow api s n arg = NamedStmt_QueryRowContext api s Background n arg"

definition NamedStmt_QueryRowx where "NamedStmt_QueryRowx api s n arg = NamedStmt_QueryRow api s n arg"

definition NamedStmt_QueryRowxContext where
  "NamedStmt_QueryRowxContext api s ctx n arg = NamedStmt_QueryRowContext api s ctx n arg"

definition NamedStmt_QueryxContext ::
  "'w sql_api \<Rightarrow> 'w sys \<Rightarrow> ctx \<Rightarrow> named_stmt \<Rightarrow> gval \<Rightarrow> 'w sys \<times> sqlx_rows option result" where
  "NamedStmt_QueryxContext api s ctx n arg =
     (case NamedStmt_QueryContext api s ctx n arg of
        (s1, None) \<Rightarrow> (s1, Panic)
      | (s1, Some (Inl e)) \<Rightarrow> (s1, Err None e)
      | (s1, Some (Inr r)) \<Rightarrow> (s1, Ok (Some (make_rows r (ns_Mapper n) (ns_Unsafe n) (ns_Strict n)))))"

definition NamedStmt_Queryx where "NamedStmt_Queryx api s n arg = NamedStmt_QueryxContext api s Background n arg"

definition NamedStmt_MustExecContext where
  "NamedStmt_MustExecContext api s ctx n arg = must (NamedStmt_ExecContext api s ctx n arg)"

definition NamedStmt_MustExec where "NamedStmt_MustExec api s n arg = NamedStmt_MustExecContext api s Background n arg"

definition NamedStmt_SelectContext ::
  "'w sql_api \<Rightarrow> 'w sys \<Rightarrow> ctx \<Rightarrow> named_stmt \<Rightarrow> gtype \<Rightarrow> bool \<Rightarrow> slice_item list \<Rightarrow> gval \<Rightarrow>
   ('w sys \<times> slice_item list \<times> go_error option) option" where
  "NamedStmt_SelectContext api s ctx n destType isNil elems arg =
     (case bind_params api s n arg of
        Panic \<Rightarrow> None
      | Err _ e \<Rightarrow> Some (s, elems, Some e)
      | Ok args \<Rightarrow>
          (case do_stmt_query api s ctx (ns_Stmt n) args of
             (s1, Inl e) \<Rightarrow> Some (s1, elems, Some e)
           | (s1, Inr rows) \<Rightarrow> run_select api s1 rows destType isNil elems (ns_Unsafe n) (ns_Strict n) (ns_Mapper n)))"

definition NamedStmt_Select where "NamedStmt_Select api s n = NamedStmt_SelectContext api s Background n"

definition NamedStmt_GetContext ::
  "'w sql_api \<Rightarrow> 'w sys \<Rightarrow> ctx \<Rightarrow> named_stmt \<Rightarrow> gtype \<Rightarrow> addr \<Rightarrow> gval \<Rightarrow> ('w sys \<times> go_error option) option" where
  "NamedStmt_GetContext api s ctx n destType dest arg =
     (case bind_params api s n arg of
        Panic \<Rightarrow> None
      | Err _ e \<Rightarrow> Some (s, Some e)
      | Ok args \<Rightarrow>
          (case do_stmt_query api s ctx (ns_Stmt n) args of
             (s1, Inl e) \<Rightarrow> Some (s1, Some e)
           | (s1, Inr rows) \<Rightarrow> run_get api s1 rows destType dest (ns_Unsafe n) (ns_Strict n) (ns_Mapper n)))"

definition NamedStmt_Get where "NamedStmt_Get api s n = NamedStmt_GetContext api s Background n"

subsection \<open>Opening a \<open>DB\<close>\<close>

definition NewDb :: "nat \<Rightarrow> string \<Rightarrow> db" where
  "NewDb d driverName =
     \<lparr>db_sql = d, db_DriverName = driverName, db_Mapper = Some (NewMapperFunc ''db'' NameMapper),
      db_Unsafe = False, db_Strict = False\<rparr>"

definition Open :: "'w sql_api \<Rightarrow> 'w sys \<Rightarrow> string \<Rightarrow> string \<Rightarrow> 'w sys \<times> db option result" where
  "Open api s driverName dataSourceName =
     (let (w, r) = sql_Open api driverName dataSourceName (sy_world s); s1 = s\<lparr>sy_world := w\<rparr> in
      case r of Inl e \<Rightarrow> (s1, Err None e) | Inr d \<Rightarrow> (s1, Ok (Some (NewDb d driverName))))"

text \<open>The error of a failed ping; with \<open>wrap\<close> it is wrapped also when the close succeeded.\<close>

definition ping_error :: "bool \<Rightarrow> go_error \<Rightarrow> go_error option \<Rightarrow> go_error" where
  "ping_error wrap err cerr =
     (case cerr of
        Some c \<Rightarrow> Errorf ''sqlx: error pinging database: %w (close error: %v)'' [FErr c] (Some err)
      | None \<Rightarrow> if wrap then Errorf ''sqlx: error pinging database: %w'' [] (Some err) else err)"

definition open_and_ping :: "bool \<Rightarrow> 'w sql_api \<Rightarrow> 'w sys \<Rightarrow> ctx \<Rightarrow> string \<Rightarrow> string \<Rightarrow> 'w sys \<times> db option result" where
  "open_and_ping wrap api s ctx driverName dataSourceName =
     (case Open api s driverName dataSourceName of
        (s1, Ok (Some d)) \<Rightarrow>
          (let (w2, err) = sql_Ping api ctx (db_sql d) (sy_world s1) in
           case err of
             None \<Rightarrow> (s1\<lparr>sy_world := w2\<rparr>, Ok (Some d))
           | Some e \<Rightarrow>
               (let (w3, cerr) = sql_Close api (db_sql d) w2
                in (s1\<lparr>sy_world := w3\<rparr>, Err None (ping_error wrap e cerr))))
      | (s1, r) \<Rightarrow> (s1, r))"

definition Connect where
  "Connect api s driverName dataSourceName = open_and_ping True api s Background driverName dataSourceName"

definition ConnectContext where
  "ConnectContext api s ctx driverName dataSourceName = open_and_ping False api s ctx driverName dataSourceName"

definition MustConnect where
  "MustConnect api s driverName dataSourceName = must (Connect api s driverName dataSourceName)"

definition MustOpen where
  "MustOpen api s driverName dataSourceName = must (Open api s driverName dataSourceName)"

definition DB_MapperFunc :: "db \<Rightarrow> (string \<Rightarrow> string) \<Rightarrow> db" where
  "DB_MapperFunc d mf = d\<lparr>db_Mapper := Some (NewMapperFunc ''db'' mf)\<rparr>"

subsection \<open>The methods of \<open>DB\<close>\<close>

definition DB_Rebind :: "'w sys \<Rightarrow> db \<Rightarrow> string \<Rightarrow> string" where
  "DB_Rebind s d query = Rebind (BindType (sy_binds s) (db_DriverName d)) query"

definition DB_BindNamed where "DB_BindNamed api s d query arg = bind_named api s (db_DriverName d) query arg"

definition DB_NamedQueryContext where "DB_NamedQueryContext api s ctx d query arg = NamedQueryContext api s ctx (XDB d) query arg"

definition DB_NamedQuery where "DB_NamedQuery api s d query arg = DB_NamedQueryContext api s Background d query arg"

definition DB_NamedExecContext where "DB_NamedExecContext api s ctx d query arg = NamedExecContext api s ctx (XDB d) query arg"

definition DB_NamedExec where "DB_NamedExec api s d query arg = DB_NamedExecContext api s Background d query arg"

definition DB_SelectContext where
  "DB_SelectContext api s ctx d destType isNil elems query args = SelectContext api s ctx (XDB d) destType isNil elems query args"

definition DB_Select where
  "DB_Select api s d destType isNil elems query args = SelectContext api s Background (XDB d) destType isNil elems query args"

definition DB_GetContext where
  "DB_GetContext api s ctx d destType dest query args = GetContext api s ctx (XDB d) destType dest query args"

definition DB_Get where "DB_Get api s d destType dest query args = DB_GetContext api s Background d destType dest query args"

definition DB_MustExecContext where "DB_MustExecContext api s ctx d query args = MustExecContext api s ctx (XDB d) query args"

definition DB_MustExec where "DB_MustExec api s d query args = DB_MustExecContext api s Background d query args"

definition DB_PreparexContext where "DB_PreparexContext api s ctx d query = PreparexContext api s ctx (HDB (db_sql d)) query"

definition DB_Preparex where "DB_Preparex api s d query = DB_PreparexContext api s Background d query"

definition DB_BeginTxx :: "'w sql_api \<Rightarrow> 'w sys \<Rightarrow> ctx \<Rightarrow> db \<Rightarrow> tx_options \<Rightarrow> 'w sys \<times> tx option result" where
  "DB_BeginTxx api s ctx d opts =
     (let (w, r) = sql_BeginTx api ctx (HDB (db_sql d)) opts (sy_world s); s1 = s\<lparr>sy_world := w\<rparr> in
      case r of
        Inl e \<Rightarrow> (s1, Err None (Errorf ''sqlx: error beginning transaction: %w'' [] (Some e)))
      | Inr t \<Rightarrow> (s1, Ok (Some \<lparr>tx_sql = t, tx_DriverName = db_DriverName d, tx_Mapper = db_Mapper d,
                   tx_Unsafe = db_Unsafe d, tx_Strict = db_Strict d\<rparr>)))"

definition DB_Beginx where "DB_Beginx api s d = DB_BeginTxx api s Background d None"

definition DB_MustBegin where "DB_MustBegin api s d = must (DB_Beginx api s d)"

definition DB_MustBeginTx where "DB_MustBeginTx api s ctx d opts = must (DB_BeginTxx api s ctx d opts)"

definition DB_Connx :: "'w sql_api \<Rightarrow> 'w sys \<Rightarrow> ctx \<Rightarrow> db \<Rightarrow> 'w sys \<times> conn option result" where
  "DB_Connx api s ctx d =
     (let (w, r) = sql_Conn api ctx (db_sql d) (sy_world s); s1 = s\<lparr>sy_world := w\<rparr> in
      case r of
        Inl e \<Rightarrow> (s1, Err None (Errorf ''sqlx: error getting connection: %w'' [] (Some e)))
      | Inr c \<Rightarrow> (s1, Ok (Some \<lparr>cn_sql = c, cn_DriverName = db_DriverName d, cn_Mapper = db_Mapper d,
                   cn_Unsafe = db_Unsafe d, cn_Strict = db_Strict d\<rparr>)))"

definition DB_PrepareNamedContext ::
  "'w sql_api \<Rightarrow> 'w sys \<Rightarrow> ctx \<Rightarrow> db \<Rightarrow> string \<Rightarrow> 'w sys \<times> named_stmt option result" where
  "DB_PrepareNamedContext api s ctx d query =
     (let (c, r) = CompileNamedQuery (sy_cache s) query (BindType (sy_binds s) (db_DriverName d));
          s1 = s\<lparr>sy_cache := c\<rparr> in
      case r of
        Panic \<Rightarrow> (s1, Panic)
      | Err _ e \<Rightarrow> (s1, Err None (Errorf ''sqlx: error compiling named query: %w'' [] (Some e)))
      | Ok (q, args) \<Rightarrow>
          (case DB_PreparexContext api s1 ctx d q of
             (s2, Ok (Some st)) \<Rightarrow>
               (s2, Ok (Some \<lparr>ns_Stmt = st_sql st, ns_QueryString = q, ns_Params = args, ns_Mapper = st_Mapper st,
                  ns_Unsafe = db_Unsafe d, ns_Strict = db_Strict d\<rparr>))
           | (s2, Err _ e) \<Rightarrow> (s2, Err None (Errorf ''sqlx: error preparing statement: %w'' [] (Some e)))
           | (s2, _) \<Rightarrow> (s2, Panic)))"

definition DB_PrepareNamed where "DB_PrepareNamed api s d query = DB_PrepareNamedContext api s Background d query"

subsection \<open>The methods of \<open>Tx\<close>\<close>

definition Tx_Rebind :: "'w sys \<Rightarrow> tx \<Rightarrow> string \<Rightarrow> string" where
  "Tx_Rebind s t query = Rebind (BindType (sy_binds s) (tx_DriverName t)) query"

definition Tx_BindNamed where "Tx_BindNamed api s t query arg = bind_named api s (tx_DriverName t) query arg"

definition Tx_NamedQueryContext where "Tx_NamedQueryContext api s ctx t query arg = NamedQueryContext api s ctx (XTx t) query arg"

definition Tx_NamedQuery where "Tx_NamedQuery api s t query arg = Tx_NamedQueryContext api s Background t query arg"

definition Tx_NamedExecContext where "Tx_NamedExecContext api s ctx t query arg = NamedExecContext api s ctx (XTx t) query arg"

definition Tx_NamedExec where "Tx_NamedExec api s t query arg = Tx_NamedExecContext api s Background t query arg"

definition Tx_SelectContext where
  "Tx_SelectContext api s ctx t destType isNil elems query args = SelectContext api s ctx (XTx t) destType isNil elems query args"

definition Tx_Select where
  "Tx_Select api s t destType isNil elems query args = Tx_SelectContext api s Background t destType isNil elems query args"

definition Tx_GetContext where
  "Tx_GetContext api s ctx t destType dest query args = GetContext api s ctx (XTx t) destType dest query args"

definition Tx_Get where "Tx_Get api s t destType dest query args = Tx_GetContext api s Background t destType dest query args"

definition Tx_MustExecContext where "Tx_MustExecContext api s ctx t query args = MustExecContext api s ctx (XTx t) query args"

definition Tx_MustExec where "Tx_MustExec api s t query args = Tx_MustExecContext api s Background t query args"

definition Tx_PreparexContext where "Tx_PreparexContext api s ctx t query = PreparexContext api s ctx (HTx (tx_sql t)) query"

definition Tx_Preparex where "Tx_Preparex api s t query = Tx_PreparexContext api s Background t query"

definition Tx_PrepareNamedContext ::
  "'w sql_api \<Rightarrow> 'w sys \<Rightarrow> ctx \<Rightarrow> tx \<Rightarrow> string \<Rightarrow> 'w sys \<times> named_stmt option result" where
  "Tx_PrepareNamedContext api s ctx t query =
     (let (c, r) = CompileNamedQuery (sy_cache s) query (BindType (sy_binds s) (tx_DriverName t));
          s1 = s\<lparr>sy_cache := c\<rparr> in
      case r of
        Panic \<Rightarrow> (s1, Panic)
      | Err _ e \<Rightarrow> (s1, Err None e)
      | Ok (q, args) \<Rightarrow>
          (case Tx_PreparexContext api s1 ctx t q of
             (s2, Ok (Some st)) \<Rightarrow>
               (s2, Ok (Some \<lparr>ns_Stmt = st_sql st, ns_QueryString = q, ns_Params = args, ns_Mapper = st_Mapper st,
                  ns_Unsafe = tx_Unsafe t, ns_Strict = tx_Strict t\<rparr>))
           | (s2, Err _ e) \<Rightarrow> (s2, Err None e)
           | (s2, _) \<Rightarrow> (s2, Panic)))"

definition Tx_PrepareNamed where "Tx_PrepareNamed api s t query = Tx_PrepareNamedContext api s Background t query"

text \<open>The argument of \<open>Stmtx\<close>: a \<open>Stmt\<close> or a pointer to one, a \<open>*sql.Stmt\<close>, or anything else, which panics.\<close>

datatype any_stmt = AStmt stmt | AStmtPtr stmt | ASqlStmt nat | AOther gval

fun sql_stmt_of :: "any_stmt \<Rightarrow> nat option" where
  "sql_stmt_of (AStmt v) = Some (st_sql v)"
| "sql_stmt_of (AStmtPtr v) = Some (st_sql v)"
| "sql_stmt_of (ASqlStmt v) = Some v"
| "sql_stmt_of (AOther _) = None"

definition Tx_StmtxContext :: "'w sql_api \<Rightarrow> 'w sys \<Rightarrow> ctx \<Rightarrow> tx \<Rightarrow> any_stmt \<Rightarrow> 'w sys \<times> stmt result" where
  "Tx_StmtxContext api s ctx t st =
     (case sql_stmt_of st of
        None \<Rightarrow> (s, Panic)
      | Some v \<Rightarrow>
          (let (w, st1) = tx_Stmt api ctx (tx_sql t) v (sy_world s)
           in (s\<lparr>sy_world := w\<rparr>,
             Ok \<lparr>st_sql = st1, st_Mapper = tx_Mapper t, st_Unsafe = tx_Unsafe t, st_Strict = tx_Strict t\<rparr>)))"

definition Tx_Stmtx where "Tx_Stmtx api s t st = Tx_StmtxContext api s Background t st"

definition Tx_NamedStmtContext :: "'w sql_api \<Rightarrow> 'w sys \<Rightarrow> ctx \<Rightarrow> tx \<Rightarrow> named_stmt \<Rightarrow> 'w sys \<times> named_stmt" where
  "Tx_NamedStmtContext api s ctx t n =
     (let (w, st1) = tx_Stmt api ctx (tx_sql t) (ns_Stmt n) (sy_world s)
      in (s\<lparr>sy_world := w\<rparr>,
        \<lparr>ns_Stmt = st1, ns_QueryString = ns_QueryString n, ns_Params = ns_Params n, ns_Mapper = tx_Mapper t,
         ns_Unsafe = tx_Unsafe t, ns_Strict = tx_Strict t\<rparr>))"

definition Tx_NamedStmt where "Tx_NamedStmt api s t n = Tx_NamedStmtContext api s Background t n"

subsection \<open>The methods of \<open>Conn\<close>\<close>

definition Conn_Rebind :: "'w sys \<Rightarrow> conn \<Rightarrow> string \<Rightarrow> string" where
  "Conn_Rebind s c query = Rebind (BindType (sy_binds s) (cn_DriverName c)) query"

definition Conn_SelectContext where
  "Conn_SelectContext api s ctx c destType isNil elems query args = SelectContext api s ctx (XConn c) destType isNil elems query args"

definition Conn_GetContext where
  "Conn_GetContext api s ctx c destType dest query args = GetContext api s ctx (XConn c) destType dest query args"

definition Conn_PreparexContext where
  "Conn_PreparexContext api s ctx c query = PreparexContext api s ctx (HConn (cn_sql c)) query"

definition Conn_BeginTxx :: "'w sql_api \<Rightarrow> 'w sys \<Rightarrow> ctx \<Rightarrow> conn \<Rightarrow> tx_options \<Rightarrow> 'w sys \<times> tx option result" where
  "Conn_BeginTxx api s ctx c opts =
     (let (w, r) = sql_BeginTx api ctx (HConn (cn_sql c)) opts (sy_world s); s1 = s\<lparr>sy_world := w\<rparr> in
      case r of
        Inl e \<Rightarrow> (s1, Err None e)
      | Inr t \<Rightarrow> (s1, Ok (Some \<lparr>tx_sql = t, tx_DriverName = cn_DriverName c, tx_Mapper = cn_Mapper c,
                   tx_Unsafe = cn_Unsafe c, tx_Strict = cn_Strict c\<rparr>)))"

end
