(* ===== verification/Handles_Props.thy ===== *)
theory Handles_Props
  imports Handles
begin

text \<open>
  What holds of the handles: every handle made from another keeps its configuration, and so do
  the rows it returns; a prepared named statement sends what \<open>NamedQuery\<close> sends; executing over a
  slice stops at the first failure; a failed \<open>Connect\<close> leaves no database open; and what
  \<open>Preparex\<close> loses.
\<close>

subsection \<open>Configuration\<close>

text \<open>A handle made from a handle.\<close>

inductive handle_step :: "'w sql_api \<Rightarrow> executor \<Rightarrow> executor \<Rightarrow> bool" for api where
  begin_db: "DB_BeginTxx api s ctx d opts = (s1, Ok (Some t)) \<Longrightarrow> handle_step api (XDB d) (XTx t)"
| conn_db: "DB_Connx api s ctx d = (s1, Ok (Some c)) \<Longrightarrow> handle_step api (XDB d) (XConn c)"
| begin_conn: "Conn_BeginTxx api s ctx c opts = (s1, Ok (Some t)) \<Longrightarrow> handle_step api (XConn c) (XTx t)"

inductive_cases handle_step_user: "handle_step api x (XUser n)"

definition config :: "executor \<Rightarrow> string \<times> bool \<times> bool \<times> mapper" where
  "config x = (extractDriverName x, extractMeta x)"

lemma handle_step_config: "handle_step api x y \<Longrightarrow> config y = config x"
  by (induction rule: handle_step.induct)
    (auto simp: DB_BeginTxx_def DB_Connx_def Conn_BeginTxx_def config_def Let_def split: prod.splits sum.splits)

lemma handle_steps_config: "(handle_step api)\<^sup>*\<^sup>* x y \<Longrightarrow> config y = config x"
  by (induction rule: rtranclp_induct) (auto dest: handle_step_config)

lemma handle_steps_user: "(handle_step api)\<^sup>*\<^sup>* x (XUser n) \<Longrightarrow> x = XUser n"
  by (erule rtranclp.cases) (auto elim: handle_step_user)

lemma QueryxContext_config:
  assumes "Ext_QueryxContext api s ctx x query args = (s1, Ok (Some r))" and "\<forall>n. x \<noteq> XUser n"
  shows "cs_config defaultMapper (OfRows r) = extractMeta x"
  using assms
  by (cases x) (auto simp: DB_QueryxContext_def Tx_QueryxContext_def Conn_QueryxContext_def make_rows_def or_default_def
      split: prod.splits sum.splits)

text \<open>\<open>QueryRowxContext\<close> of the \<open>QueryerContext\<close> interface, for the package's handles.\<close>

fun Ext_QueryRowxContext ::
  "'w sql_api \<Rightarrow> 'w sys \<Rightarrow> ctx \<Rightarrow> executor \<Rightarrow> string \<Rightarrow> gval list \<Rightarrow> ('w sys \<times> sqlx_row) option" where
  "Ext_QueryRowxContext api s ctx (XDB d) query args = Some (DB_QueryRowxContext api s ctx d query args)"
| "Ext_QueryRowxContext api s ctx (XTx t) query args = Some (Tx_QueryRowxContext api s ctx t query args)"
| "Ext_QueryRowxContext api s ctx (XConn c) query args = Some (Conn_QueryRowxContext api s ctx c query args)"
| "Ext_QueryRowxContext api s ctx (XUser n) query args = None"

lemma QueryRowxContext_config:
  assumes "Ext_QueryRowxContext api s ctx x query args = Some (s1, r)"
  shows "cs_config defaultMapper (OfRow r) = extractMeta x"
  using assms
  by (cases x) (auto simp: DB_QueryRowxContext_def Tx_QueryRowxContext_def Conn_QueryRowxContext_def make_row_def
      or_default_def split: prod.splits)

text \<open>
  C21. The configuration of a database reaches everything made from it: along any chain of
  \<open>BeginTxx\<close> and \<open>Connx\<close> the driver's name, the mode, strictness and mapper stay those of the first
  handle, and the scans of the \<open>Rows\<close> and the \<open>Row\<close> a query on the last one returns use them.
\<close>

theorem handles_keep_config:
  assumes "(handle_step api)\<^sup>*\<^sup>* (XDB d) y"
  shows "extractDriverName y = db_DriverName d \<and> extractMeta y = (db_Unsafe d, db_Strict d, or_default (db_Mapper d)) \<and>
    (case Ext_QueryxContext api s ctx y query args of
       (s1, Ok (Some r)) \<Rightarrow> cs_config defaultMapper (OfRows r) = (db_Unsafe d, db_Strict d, or_default (db_Mapper d))
     | _ \<Rightarrow> True) \<and>
    (case Ext_QueryRowxContext api s ctx y query args of
       Some (s1, r) \<Rightarrow> cs_config defaultMapper (OfRow r) = (db_Unsafe d, db_Strict d, or_default (db_Mapper d))
     | None \<Rightarrow> False)"
proof -
  have c: "extractDriverName y = db_DriverName d" "extractMeta y = (db_Unsafe d, db_Strict d, or_default (db_Mapper d))"
    using handle_steps_config [OF assms] by (simp_all add: config_def)
  have u: "\<forall>n. y \<noteq> XUser n" using handle_steps_user [of api "XDB d"] assms by auto
  then have "Ext_QueryRowxContext api s ctx y query args \<noteq> None" by (cases y) auto
  then show ?thesis
    using c QueryxContext_config [OF _ u, of api s ctx query args] QueryRowxContext_config [of api s ctx y query args]
    by (auto split: prod.split result.split option.split)
qed

text \<open>A driver that answers every query with the same rows and counts the calls.\<close>

definition sample_api :: "sql_rows \<Rightarrow> nat sql_api" where
  "sample_api rows =
     \<lparr>sql_Open = (\<lambda>_ _ w. (Suc w, Inr 0)), sql_Ping = (\<lambda>_ _ w. (Suc w, None)), sql_Close = (\<lambda>_ w. (Suc w, None)),
      sql_BeginTx = (\<lambda>_ _ _ w. (Suc w, Inr w)), sql_Conn = (\<lambda>_ _ w. (Suc w, Inr w)),
      sql_Query = (\<lambda>_ _ _ _ w. (Suc w, Inr rows)), sql_Exec = (\<lambda>_ _ _ _ w. (Suc w, Some w, None)),
      sql_Prepare = (\<lambda>_ _ _ w. (Suc w, Inr w)), stmt_Query = (\<lambda>_ _ _ w. (Suc w, Inr rows)),
      stmt_Exec = (\<lambda>_ _ _ w. (Suc w, Some w, None)), stmt_Close = (\<lambda>_ w. (Suc w, None)),
      tx_Stmt = (\<lambda>_ _ st w. (Suc w, st)), user_Queryx = (\<lambda>_ _ _ _ w. (Suc w, Err None (Foreign ''user''))),
      api_types = sample_types, api_conv = sample_conv\<rparr>"

definition sample_sys :: "nat sys" where
  "sample_sys = \<lparr>sy_world = 0, sy_binds = (\<lambda>d. if d = ''postgres'' then Some DOLLAR else None), sy_cache = init_cworld,
     sy_engine = sample_engine, sy_mem = empty_memory, sy_vals = Map.empty\<rparr>"

definition sample_db :: db where
  "sample_db = \<lparr>db_sql = 0, db_DriverName = ''postgres'', db_Mapper = None, db_Unsafe = True, db_Strict = False\<rparr>"

theorem handles_keep_config_witness:
  "\<exists>y. (handle_step (sample_api person_rs))\<^sup>*\<^sup>* (XDB sample_db) y \<and> y \<noteq> XDB sample_db \<and>
    extractMeta y = (True, False, defaultMapper)"
proof -
  obtain s1 t where b: "DB_BeginTxx (sample_api person_rs) sample_sys Background sample_db None = (s1, Ok (Some t))"
    by (simp add: DB_BeginTxx_def sample_api_def)
  then have st: "(handle_step (sample_api person_rs))\<^sup>*\<^sup>* (XDB sample_db) (XTx t)"
    by (intro r_into_rtranclp handle_step.begin_db)
  have "extractMeta (XTx t) = (True, False, defaultMapper)"
    using handles_keep_config [OF st, of sample_sys Background "[]" "[]"] by (simp add: sample_db_def or_default_def)
  with st show ?thesis by blast
qed

subsection \<open>Prepared named statements\<close>

lemma mappers_agree: "bindDefaultMapper = defaultMapper"
  by (simp add: bindDefaultMapper_def defaultMapper_def NameMapper_def)

lemma DB_PrepareNamed_Ok:
  assumes "cache_inv (sy_cache s, own)" and "DB_PrepareNamedContext api s ctx d query = (s1, Ok (Some n))"
  shows "compile_query (BindType (sy_binds s) (db_DriverName d)) query = Ok (ns_QueryString n, read_slice (sy_cache s1) (ns_Params n)) \<and>
    ns_Mapper n = Some defaultMapper \<and> sy_binds s1 = sy_binds s"
proof -
  let ?bt = "BindType (sy_binds s) (db_DriverName d)"
  obtain c r where comp: "CompileNamedQuery (sy_cache s) query ?bt = (c, r)"
    by (cases "CompileNamedQuery (sy_cache s) query ?bt")
  note d = CompileNamedQuery_correct(2) [OF comp assms(1)]
  from assms(2) comp obtain q ref where r: "r = Ok (q, ref)"
    by (cases r) (auto simp: DB_PrepareNamedContext_def Let_def)
  have p: "s1 = s\<lparr>sy_cache := c, sy_world := sy_world s1\<rparr> \<and> ns_QueryString n = q \<and> ns_Params n = ref \<and> ns_Mapper n = Some defaultMapper"
    using assms(2) comp r
    by (auto simp: DB_PrepareNamedContext_def DB_PreparexContext_def PreparexContext_def Let_def split: prod.splits sum.splits)
  then have "sy_cache s1 = c" "sy_binds s1 = sy_binds s" by (metis sys.select_convs(2,3) sys.surjective sys.update_convs(1,3))+
  with p d r show ?thesis by simp
qed

text \<open>
  Preparing a named query and binding it later is the same as binding it at once: for a struct or
  \<open>map[string]any\<close>, whatever was compiled before, \<open>BindNamed\<close> yields a query and values exactly when the
  query is the one the statement was prepared with and the values are those its execution binds.
\<close>

lemma PrepareNamed_agrees:
  assumes "cache_reachable (sy_cache s, own)" and "single_arg arg"
    and "DB_PrepareNamedContext api s ctx d query = (s1, Ok (Some n))"
  shows "snd (DB_BindNamed api s d query arg) = Ok (q, args) \<longleftrightarrow>
    q = ns_QueryString n \<and> bind_params api s1 n arg = Ok args"
  using bindNamedMapper_Ok_iff [OF assms(1,2), of "api_types api" "BindType (sy_binds s) (db_DriverName d)" query defaultMapper q args]
    DB_PrepareNamed_Ok [OF cache_reachable_inv [OF assms(1)] assms(3)]
  by (auto simp: DB_BindNamed_def bind_named_def BindNamed_def bind_params_def mappers_agree case_prod_unfold Let_def)

lemma PrepareNamed_agrees_witness:
  "\<exists>s1 n. DB_PrepareNamedContext (sample_api person_rs) sample_sys Background sample_db ''id=:id '' = (s1, Ok (Some n)) \<and>
    (snd (DB_BindNamed (sample_api person_rs) sample_sys sample_db ''id=:id '' (VMap string_map [(''id'', VBasic (TBasic BInt) ''7'')])) =
       Ok (''id=$1 '', [VBasic (TBasic BInt) ''7'']) \<longleftrightarrow>
     ''id=$1 '' = ns_QueryString n \<and>
     bind_params (sample_api person_rs) s1 n (VMap string_map [(''id'', VBasic (TBasic BInt) ''7'')]) = Ok [VBasic (TBasic BInt) ''7''])"
proof -
  let ?call = "DB_PrepareNamedContext (sample_api person_rs) sample_sys Background sample_db ''id=:id ''"
  have "(case snd ?call of Ok (Some n) \<Rightarrow> ns_QueryString n = ''id=$1 '' | _ \<Rightarrow> False)" by code_simp
  then obtain s1 n where call: "?call = (s1, Ok (Some n))" by (cases ?call) (auto split: result.splits option.splits)
  have "single_arg (VMap string_map [(''id'', VBasic (TBasic BInt) ''7'')])" by (simp add: single_arg_def)
  from PrepareNamed_agrees [OF _ this call, of "{}"] call show ?thesis
    by (auto simp: sample_sys_def intro: cache_reachable.start)
qed

subsection \<open>Executing over a slice\<close>

text \<open>Executing a list of argument lists one after the other, stopping at an error.\<close>

fun run_execs :: "'w sql_api \<Rightarrow> 'w sys \<Rightarrow> ctx \<Rightarrow> nat \<Rightarrow> gval list list \<Rightarrow> sql_result option \<Rightarrow> 'w sys \<times> sql_result option result" where
  "run_execs api s ctx st [] res = (s, Ok res)"
| "run_execs api s ctx st (args # argss) res =
     (case do_stmt_exec api s ctx st args of
        (s1, Ok res1) \<Rightarrow> run_execs api s1 ctx st argss res1
      | r \<Rightarrow> r)"

lemma do_stmt_exec_cache [simp]: "sy_cache (fst (do_stmt_exec api s ctx st args)) = sy_cache s"
  by (simp add: do_stmt_exec_def case_prod_unfold Let_def)

lemma bind_params_cache: "sy_cache s1 = sy_cache s \<Longrightarrow> bind_params api s1 n arg = bind_params api s n arg"
  by (simp add: bind_params_def)

lemma exec_elems_run:
  assumes "list_all2 (\<lambda>e args. bind_params api s n e = Ok args) pre argss"
  shows "exec_elems api s ctx n (pre @ post) res =
    (case run_execs api s ctx (ns_Stmt n) argss res of
       (s1, Ok res1) \<Rightarrow> exec_elems api s1 ctx n post res1
     | r \<Rightarrow> r)"
  using assms
proof (induction pre arbitrary: argss s res)
  case (Cons e pre)
  then obtain args argss' where as: "argss = args # argss'" "bind_params api s n e = Ok args"
      "list_all2 (\<lambda>e args. bind_params api s n e = Ok args) pre argss'" by (auto simp: list_all2_Cons1)
  obtain s1 r where x: "do_stmt_exec api s ctx (ns_Stmt n) args = (s1, r)" by (cases "do_stmt_exec api s ctx (ns_Stmt n) args")
  then have c: "sy_cache s1 = sy_cache s" using do_stmt_exec_cache by (metis fst_conv)
  have "exec_elems api s1 ctx n (pre @ post) res' =
    (case run_execs api s1 ctx (ns_Stmt n) argss' res' of (s1, Ok res1) \<Rightarrow> exec_elems api s1 ctx n post res1 | r \<Rightarrow> r)" for res'
    using as(3) bind_params_cache [OF c] by (intro Cons.IH) simp
  with as x show ?case by (auto split: result.split prod.split)
qed simp

lemma run_execs_cache: "run_execs api s ctx st argss res = (s1, r) \<Longrightarrow> sy_cache s1 = sy_cache s"
proof (induction argss arbitrary: s res)
  case (Cons args argss)
  have "sy_cache (fst (do_stmt_exec api s ctx st args)) = sy_cache s" by simp
  with Cons show ?case by (cases "do_stmt_exec api s ctx st args") (auto split: result.splits)
qed simp

text \<open>
  C22. A named statement executed over a slice: its elements are bound and executed one by one in order.  When all bind, the
  calls are those with the bound values, up to the first that fails, and the result is the last
  one's.  When one does not bind, those before it have been executed, nothing after it is, and the error
  comes with the result of the last execution: nothing is undone.
\<close>

theorem NamedStmt_exec_slice:
  assumes "is_seq arg" and "value_elems arg = pre @ post" and "pre \<noteq> []"
    and "list_all2 (\<lambda>e args. bind_params api s n e = Ok args) pre argss"
    and "post = [] \<or> (\<exists>as. bind_params api s n (hd post) = Err as err)"
  shows "NamedStmt_ExecContext api s ctx n arg =
    (case run_execs api s ctx (ns_Stmt n) argss None of
       (s1, Ok res) \<Rightarrow> (s1, if post = [] then Ok res else Err res err)
     | r \<Rightarrow> r)"
proof -
  obtain s1 r where x: "run_execs api s ctx (ns_Stmt n) argss None = (s1, r)" by (cases "run_execs api s ctx (ns_Stmt n) argss None")
  note bind_params_cache [OF run_execs_cache [OF x], of api n]
  with assms x exec_elems_run [OF assms(4), of ctx post None] show ?thesis
    by (cases post) (auto simp: NamedStmt_ExecContext_def split: result.split)
qed

theorem NamedStmt_exec_slice_witness:
  "\<exists>e. NamedStmt_ExecContext (sample_api person_rs)
      (sample_sys\<lparr>sy_cache := init_cworld\<lparr>arrays := (\<lambda>_. [''id''])\<rparr>\<rparr>) Background
      \<lparr>ns_Stmt = 0, ns_QueryString = [], ns_Params = Some 0, ns_Mapper = None, ns_Unsafe = False, ns_Strict = False\<rparr>
      (VSeq (TSlice string_map) [VMap string_map [(''id'', VNil)], VMap string_map []]) =
    (sample_sys\<lparr>sy_cache := init_cworld\<lparr>arrays := (\<lambda>_. [''id''])\<rparr>, sy_world := 1\<rparr>, Err (Some 0) e)"
  using NamedStmt_exec_slice [of "VSeq (TSlice string_map) [VMap string_map [(''id'', VNil)], VMap string_map []]"
      "[VMap string_map [(''id'', VNil)]]" "[VMap string_map []]" "sample_api person_rs"
      "sample_sys\<lparr>sy_cache := init_cworld\<lparr>arrays := (\<lambda>_. [''id''])\<rparr>\<rparr>"
      "\<lparr>ns_Stmt = 0, ns_QueryString = [], ns_Params = Some 0, ns_Mapper = None, ns_Unsafe = False, ns_Strict = False\<rparr>"
      "[[VNil]]" _ Background]
  by (simp add: bind_params_def read_slice_def convertMapStringInterface_def bindMapArgs_def do_stmt_exec_def sample_api_def
      sample_sys_def to_result_def)

subsection \<open>Connecting\<close>

text \<open>
  No database is left open by a failed \<open>Connect\<close> or \<open>ConnectContext\<close>: when the ping fails, the last thing done is closing the
  database that was opened, and the error is one \<open>errors.Is\<close> recognises as the ping's; without a failure the
  database is returned and not closed.
\<close>

lemma Connect_closes:
  assumes "Open api s driver source = (s1, Ok (Some d))" and "sql_Ping api ctx (db_sql d) (sy_world s1) = (w2, err)"
  shows "case open_and_ping wrap api s ctx driver source of
      (s3, Ok r) \<Rightarrow> err = None \<and> r = Some d \<and> sy_world s3 = w2
    | (s3, Err r e) \<Rightarrow> r = None \<and> (\<exists>pe. err = Some pe \<and> sy_world s3 = fst (sql_Close api (db_sql d) w2) \<and>
        (\<forall>k. errors_is e k = errors_is pe k))
    | (s3, Panic) \<Rightarrow> False"
  using assms by (auto simp: open_and_ping_def ping_error_def Let_def split: prod.splits option.splits)

lemma Connect_closes_witness:
  "\<exists>s3 e. Connect (sample_api person_rs\<lparr>sql_Ping := (\<lambda>_ _ w. (Suc w, Some (Foreign ''refused'')))\<rparr>) sample_sys ''postgres'' [] =
     (s3, Err None e) \<and> sy_world s3 = 3"
proof -
  let ?api = "sample_api person_rs\<lparr>sql_Ping := (\<lambda>_ _ w. (Suc w, Some (Foreign ''refused'')))\<rparr>"
  have o: "Open ?api sample_sys ''postgres'' [] = (sample_sys\<lparr>sy_world := 1\<rparr>, Ok (Some (NewDb 0 ''postgres'')))"
    by (simp add: Open_def sample_api_def sample_sys_def)
  have "sql_Ping ?api Background (db_sql (NewDb 0 ''postgres'')) (sy_world (sample_sys\<lparr>sy_world := 1\<rparr>)) = (2, Some (Foreign ''refused''))"
    by (simp add: sample_api_def)
  from Connect_closes [OF o this, of True] show ?thesis
    by (auto simp: Connect_def sample_api_def split: prod.splits result.splits)
qed

subsection \<open>What \<open>Preparex\<close> loses\<close>

lemma fresh_meta_unsafe: "\<exists>meta. fresh_meta E t columns tm True = Ok meta"
  using plan_columns_Inl [of tm True 0 columns] by (cases "plan_columns tm True 0 columns") (auto simp: fresh_meta_def)

lemma fresh_meta_missing:
  assumes "c \<in> set columns" and "sm_names tm c = None"
  shows "\<exists>c'. fresh_meta E t columns tm False = Err [] (missing_destination E t c')"
proof (cases "plan_columns tm False 0 columns")
  case (Inr ms)
  from plan_columns_Inr [OF Inr] assms have False
    by (auto simp: in_set_conv_nth column_meta_def split: if_splits option.splits)
  then show ?thesis ..
qed (auto simp: fresh_meta_def)

lemma iterateScan_missing:
  assumes "meta_sound E m (en_metaCache en)" and "\<not> rs_closed rows" and "\<not> isScannable E t"
    and "type_map E m t = Some tm" and "c \<in> set (rs_columns rows)" and "sm_names tm c = None"
  shows "\<exists>en1 rows1 e. iterateScan E conv en rows t False False (Some m) alloc yield mem vals x =
    Some (en1, rows1, mem, vals, x, Some e) \<and> errors_is e ErrColumnNotFound"
proof -
  obtain c' where "fresh_meta E t (rs_columns rows) tm False = Err [] (missing_destination E t c')"
    using fresh_meta_missing [OF assms(5,6)] by blast
  then obtain c1 where "buildMeta E (en_metaCache en) t (rs_columns rows) tm False = (c1, Err [] (missing_destination E t c'))"
    using buildMeta_correct [OF assms(1,4), of "rs_columns rows" False] by (metis prod.collapse)
  with assms(2-4) show ?thesis
    by (auto simp: iterateScan_def iterate_body_def rows_Columns_def nil_TypeMap_def close_rows_def missing_destination_def
        split: prod.split)
qed

text \<open>
  \<open>Preparex\<close> does not pass the configuration on: on a statement prepared from any database, an unsafe one
  included, \<open>Select\<close> of rows with a column the struct has no field for is an error, whereas the
  database's own mode has a plan for these columns.
\<close>

lemma Preparex_forgets_unsafe:
  assumes "DB_PreparexContext api s ctx d query = (s1, Ok (Some st))"
    and "do_stmt_query api s1 ctx (st_sql st) args = (s2, Inr rows)" and "\<not> rs_closed rows"
    and "meta_sound (api_types api) defaultMapper (en_metaCache (sy_engine s2))"
    and "kind_of t = KStruct" and "\<not> isScannable (api_types api) t"
    and "type_map (api_types api) defaultMapper t = Some tm" and "c \<in> set (rs_columns rows)" and "sm_names tm c = None"
  shows "(\<exists>s3 e. Stmt_SelectContext api s1 ctx st (TPtr (TSlice t)) False elems args = Some (s3, elems, Some e) \<and>
      errors_is e ErrColumnNotFound) \<and>
    (db_Unsafe d \<longrightarrow> (\<exists>meta. fresh_meta (api_types api) t (rs_columns rows) tm (db_Unsafe d) = Ok meta))"
proof -
  have st: "st_Unsafe st = False" "st_Strict st = False" "st_Mapper st = Some defaultMapper"
    using assms(1) by (auto simp: DB_PreparexContext_def PreparexContext_def Let_def split: prod.splits sum.splits)
  let ?alloc = "reflect_New t" let ?yield = "\<lambda>vp xs. (xs @ [ItemCopy vp], None)"
  obtain en1 rows1 e where "iterateScan (api_types api) (api_conv api) (sy_engine s2) rows t False False (Some defaultMapper)
      ?alloc ?yield (sy_mem s2) (sy_vals s2) elems = Some (en1, rows1, sy_mem s2, sy_vals s2, elems, Some e)"
      "errors_is e ErrColumnNotFound"
    using iterateScan_missing [where alloc = ?alloc and yield = ?yield and x = elems, OF assms(4,3,6-9)] by blast
  with st assms(2,5) fresh_meta_unsafe show ?thesis
    by (simp add: Stmt_SelectContext_def run_select_def selectScan_def)
qed

lemma Preparex_forgets_unsafe_witness:
  "\<exists>s1 st s3 e. DB_PreparexContext (sample_api (person_rs\<lparr>rs_columns := [''name'', ''age'']\<rparr>)) sample_sys Background sample_db [] =
      (s1, Ok (Some st)) \<and>
    db_Unsafe sample_db \<and>
    Stmt_SelectContext (sample_api (person_rs\<lparr>rs_columns := [''name'', ''age'']\<rparr>)) s1 Background st
      (TPtr (TSlice (TStruct ''Person''))) False [] [] = Some (s3, [], Some e) \<and>
    errors_is e ErrColumnNotFound"
proof -
  let ?rows = "person_rs\<lparr>rs_columns := [''name'', ''age'']\<rparr>"
  let ?api = "sample_api ?rows"
  obtain s1 st where p: "DB_PreparexContext ?api sample_sys Background sample_db [] = (s1, Ok (Some st))"
      "sy_engine s1 = sample_engine"
    by (simp add: DB_PreparexContext_def PreparexContext_def sample_api_def sample_sys_def)
  obtain s2 where q: "do_stmt_query ?api s1 Background (st_sql st) [] = (s2, Inr ?rows)" "sy_engine s2 = sample_engine"
    using p(2) by (simp add: do_stmt_query_def sample_api_def)
  have E: "api_types ?api = sample_types" by (simp add: sample_api_def)
  have dm: "defaultMapper = sample_mapper" by (simp add: defaultMapper_def sample_mapper_def NameMapper_def)
  have ns: "\<not> isScannable sample_types (TStruct ''Person'')" by code_simp
  have none: "sm_names sample_person ''age'' = None" by code_simp
  have "\<not> rs_closed ?rows" "''age'' \<in> set (rs_columns ?rows)" by (simp_all add: person_rs_def)
  moreover have "meta_sound (api_types ?api) defaultMapper (en_metaCache (sy_engine s2))"
    unfolding q(2) using meta_sound_empty by (simp add: sample_engine_def)
  ultimately have "\<exists>s3 e. Stmt_SelectContext ?api s1 Background st (TPtr (TSlice (TStruct ''Person''))) False [] [] =
      Some (s3, [], Some e) \<and> errors_is e ErrColumnNotFound"
    using Preparex_forgets_unsafe [OF p(1) q(1), of "TStruct ''Person''" sample_person "''age''" "[]"] sample_type_map ns none
    unfolding E dm by simp
  with p(1) show ?thesis by (auto simp: sample_db_def)
qed

end
