(* ===== verification/Named_Refine.thy ===== *)
theory Named_Refine
  imports Handles_Props
begin

text \<open>
  \<open>NamedExec\<close> and \<open>NamedQuery\<close> on a handle against an abstract machine that knows no cache and no byte loop: it tokenizes the query,
  prints the tokens with the marks of the database, takes the values of the names, and sends both.
\<close>

subsection \<open>The abstract machine\<close>

definition named_spec :: "tenv \<Rightarrow> int \<Rightarrow> string \<Rightarrow> gval \<Rightarrow> (string \<times> gval list) result_view" where
  "named_spec E bt query arg =
     (case tokenize query of
        None \<Rightarrow> Fails (\<lambda>k. k = ErrSyntax)
      | Some ts \<Rightarrow> map_view (Pair (print_tokens bt 1 ts)) (result_class (BindAnyArgs E (token_names ts) arg bindDefaultMapper)))"

text \<open>The rows a handle makes of the rows of the database, with its own mapper and modes.\<close>

fun handle_rows :: "executor \<Rightarrow> sql_rows \<Rightarrow> sqlx_rows" where
  "handle_rows (XDB d) r = make_rows r (db_Mapper d) (db_Unsafe d) (db_Strict d)"
| "handle_rows (XTx t) r = make_rows r (tx_Mapper t) (tx_Unsafe t) (tx_Strict t)"
| "handle_rows (XConn c) r = make_rows r (cn_Mapper c) (cn_Unsafe c) (cn_Strict c)"
| "handle_rows (XUser n) r = make_rows r None False False"

datatype named_call = ExecCall string gval | QueryCall string gval

fun call_query :: "named_call \<Rightarrow> string" where
  "call_query (ExecCall q a) = q"
| "call_query (QueryCall q a) = q"

fun call_arg :: "named_call \<Rightarrow> gval" where
  "call_arg (ExecCall q a) = a"
| "call_arg (QueryCall q a) = a"

text \<open>What the database answers to the bound query.\<close>

fun send :: "'w sql_api \<Rightarrow> ctx \<Rightarrow> executor \<Rightarrow> named_call \<Rightarrow> string \<times> gval list \<Rightarrow> 'w \<Rightarrow>
    'w \<times> (sql_result option + sqlx_rows option) result_view" where
  "send api ctx e (ExecCall _ _) (q, args) w =
     (case sql_Exec api ctx (handle_of e) q args w of (w1, r) \<Rightarrow> (w1, map_view Inl (result_class (to_result r))))"
| "send api ctx e (QueryCall _ _) (q, args) w =
     (case sql_Query api ctx (handle_of e) q args w of
        (w1, Inl err) \<Rightarrow> (w1, Fails (errors_is err))
      | (w1, Inr rows) \<Rightarrow> (w1, Gives (Inr (Some (handle_rows e rows)))))"

definition spec_call :: "'w sql_api \<Rightarrow> int \<Rightarrow> ctx \<Rightarrow> executor \<Rightarrow> 'w \<Rightarrow> named_call \<Rightarrow>
    'w \<times> (sql_result option + sqlx_rows option) result_view" where
  "spec_call api bt ctx e w call =
     (case named_spec (api_types api) bt (call_query call) (call_arg call) of
        Gives bound \<Rightarrow> send api ctx e call bound w
      | Fails c \<Rightarrow> (w, Fails c)
      | Panics \<Rightarrow> (w, Panics))"

abbreviation "spec_calls api bt ctx e \<equiv> run_ops (spec_call api bt ctx e)"

subsection \<open>The code\<close>

fun run_call :: "'w sql_api \<Rightarrow> ctx \<Rightarrow> executor \<Rightarrow> 'w sys \<Rightarrow> named_call \<Rightarrow>
    'w sys \<times> (sql_result option + sqlx_rows option) result_view" where
  "run_call api ctx e s (ExecCall q a) =
     (case NamedExecContext api s ctx e q a of (s1, r) \<Rightarrow> (s1, map_view Inl (result_class r)))"
| "run_call api ctx e s (QueryCall q a) =
     (case NamedQueryContext api s ctx e q a of (s1, r) \<Rightarrow> (s1, map_view Inr (result_class r)))"

abbreviation "run_calls api ctx e \<equiv> run_ops (run_call api ctx e)"

subsection \<open>The simulation\<close>

lemma bound_class_tokens:
  "bound_class bt query (\<lambda>names. BindAnyArgs E names arg bindDefaultMapper) = named_spec E bt query arg"
  using compile_query_tokens [where qs = query and bt = bt]
  by (auto simp: bound_class_def named_spec_def syntax_error_def fun_eq_iff split: option.splits)

lemma bind_named_spec:
  assumes "cache_inv (sy_cache s, own)" and "single_arg arg" and "bind_named api s driver query arg = (s1, r)"
  shows "result_class r = named_spec (api_types api) (BindType (sy_binds s) driver) query arg"
    and "\<exists>c. s1 = s\<lparr>sy_cache := c\<rparr> \<and> cache_inv (c, own)"
proof -
  obtain c r1 where b: "bindNamedMapper (api_types api) (sy_cache s) (BindType (sy_binds s) driver) query arg bindDefaultMapper = (c, r1)"
    by (cases "bindNamedMapper (api_types api) (sy_cache s) (BindType (sy_binds s) driver) query arg bindDefaultMapper")
  with assms(3) have s1: "s1 = s\<lparr>sy_cache := c\<rparr>" "r = r1" by (simp_all add: bind_named_def BindNamed_def)
  with bindNamedMapper_class [OF assms(1,2) b] bound_class_tokens
  show "result_class r = named_spec (api_types api) (BindType (sy_binds s) driver) query arg"
    and "\<exists>c. s1 = s\<lparr>sy_cache := c\<rparr> \<and> cache_inv (c, own)" by auto
qed

text \<open>What a database answers changes only the world.\<close>

lemma Exec_send:
  assumes "Exec api s ctx e q args = (s1, r)"
  shows "\<exists>w. s1 = s\<lparr>sy_world := w\<rparr> \<and> (w, map_view Inl (result_class r)) = send api ctx e (ExecCall q' a) (q, args) (sy_world s)"
  using assms by (auto simp: Exec_def do_exec_def Let_def split: prod.splits)

lemma Queryx_send:
  assumes "Ext_QueryxContext api s ctx e q args = (s1, r)" and "\<And>n. e \<noteq> XUser n"
  shows "\<exists>w. s1 = s\<lparr>sy_world := w\<rparr> \<and> (w, map_view Inr (result_class r)) = send api ctx e (QueryCall q' a) (q, args) (sy_world s)"
  using assms
  by (cases e)
    (auto simp: DB_QueryxContext_def Tx_QueryxContext_def Conn_QueryxContext_def do_query_def Let_def split: prod.splits sum.splits)

lemma run_call_spec:
  assumes inv: "cache_inv (sy_cache s, own)" and "single_arg (call_arg call)" and "\<And>n. e \<noteq> XUser n"
    and run: "run_call api ctx e s call = (s1, r)"
  shows "spec_call api (BindType (sy_binds s) (extractDriverName e)) ctx e (sy_world s) call = (sy_world s1, r) \<and>
    sy_binds s1 = sy_binds s \<and> cache_inv (sy_cache s1, own)"
proof -
  obtain sb rb where b: "bind_named api s (extractDriverName e) (call_query call) (call_arg call) = (sb, rb)"
    by (cases "bind_named api s (extractDriverName e) (call_query call) (call_arg call)")
  note spec = bind_named_spec [OF inv assms(2) b]
  obtain c where sb: "sb = s\<lparr>sy_cache := c\<rparr>" "cache_inv (c, own)" using spec(2) by blast
  show ?thesis
  proof (cases "named_spec (api_types api) (BindType (sy_binds s) (extractDriverName e)) (call_query call) (call_arg call)")
    case (Gives bound)
    obtain q args where bound: "bound = (q, args)" by (cases bound)
    have rb: "rb = Ok (q, args)" using spec(1) Gives bound by (auto elim: result_class_elims)
    have "\<exists>w. s1 = sb\<lparr>sy_world := w\<rparr> \<and> (w, r) = send api ctx e call (q, args) (sy_world sb)"
    proof (cases call)
      case (ExecCall q' a)
      obtain s2 r2 where x: "Exec api sb ctx e q args = (s2, r2)" by (cases "Exec api sb ctx e q args")
      with run b rb ExecCall have "s1 = s2" "r = map_view Inl (result_class r2)" by (auto simp: NamedExecContext_def)
      with Exec_send [OF x] ExecCall show ?thesis by blast
    next
      case (QueryCall q' a)
      obtain s2 r2 where x: "Ext_QueryxContext api sb ctx e q args = (s2, r2)" by (cases "Ext_QueryxContext api sb ctx e q args")
      with run b rb QueryCall have "s1 = s2" "r = map_view Inr (result_class r2)" by (auto simp: NamedQueryContext_def)
      with Queryx_send [OF x assms(3)] QueryCall show ?thesis by blast
    qed
    with Gives bound sb show ?thesis by (auto simp: spec_call_def)
  next
    case (Fails c)
    then obtain v err where "rb = Err v err" "c = errors_is err" using spec(1) by (auto elim: result_class_elims)
    with run b sb have "s1 = sb" "r = Fails c"
      by (cases call; auto simp: NamedExecContext_def NamedQueryContext_def)+
    with Fails sb show ?thesis by (simp add: spec_call_def)
  next
    case Panics
    then have "rb = Panic" using spec(1) by (auto elim: result_class_elims)
    with run b sb have "s1 = sb" "r = Panics"
      by (cases call; auto simp: NamedExecContext_def NamedQueryContext_def)+
    with Panics sb show ?thesis by (simp add: spec_call_def)
  qed
qed

definition calls_inv :: "int \<Rightarrow> executor \<Rightarrow> nat set \<Rightarrow> 'w sys \<Rightarrow> bool" where
  "calls_inv bt e own s \<longleftrightarrow>
     cache_inv (sy_cache s, own) \<and> BindType (sy_binds s) (extractDriverName e) = bt \<and> (\<forall>n. e \<noteq> XUser n)"

interpretation named_calls: abstraction "run_call api ctx e" "spec_call api bt ctx e" sy_world "calls_inv bt e own"
  "\<lambda>call. single_arg (call_arg call)" for api ctx e bt own
proof unfold_locales
  fix s call s1 r assume h: "calls_inv bt e own s" "single_arg (call_arg call)" "run_call api ctx e s call = (s1, r)"
  with run_call_spec [OF _ h(2) _ h(3), of own]
  show "spec_call api bt ctx e (sy_world s) call = (sy_world s1, r) \<and> calls_inv bt e own s1" by (auto simp: calls_inv_def)
qed

text \<open>
  C2. Named calls refine the abstract machine: for any sequence of \<open>NamedExec\<close> and \<open>NamedQuery\<close> calls on a database, a transaction or
  a connection, with structs or maps as arguments and whatever was compiled before, the database is sent exactly the
  queries and values the machine sends, in this order, and nothing for a call that fails to bind; and every call returns what the machine returns,
  errors up to \<open>errors.Is\<close>.
\<close>

theorem named_calls_refine:
  assumes "cache_reachable (sy_cache s, own)" and "list_all (\<lambda>call. single_arg (call_arg call)) calls" and "\<forall>n. e \<noteq> XUser n"
  shows "(case run_calls api ctx e s calls of (s1, rs) \<Rightarrow> (sy_world s1, rs)) =
    spec_calls api (BindType (sy_binds s) (extractDriverName e)) ctx e (sy_world s) calls"
proof -
  obtain s1 rs where r: "run_calls api ctx e s calls = (s1, rs)" by (cases "run_calls api ctx e s calls")
  have "calls_inv (BindType (sy_binds s) (extractDriverName e)) e own s"
    using cache_reachable_inv [OF assms(1)] assms(3) by (simp add: calls_inv_def)
  from named_calls.run_abs(1) [OF this assms(2) r] r show ?thesis by simp
qed

text \<open>A call that sends, one whose query has a syntax error, and one whose argument lacks a name.\<close>

definition id_map :: gval where
  "id_map = VMap string_map [(''id'', VBasic (TBasic BInt) ''7'')]"

theorem named_calls_refine_witness:
  "(case run_calls (sample_api person_rs) Background (XDB sample_db) sample_sys
        [ExecCall ''id=:id '' id_map, ExecCall ''a=:b:c'' id_map, QueryCall ''x=:x '' id_map] of
      (s1, rs) \<Rightarrow> sy_world s1 = 1 \<and> rs = [Gives (Inl (Some 0)), Fails (\<lambda>k. k = ErrSyntax), Fails (\<lambda>k. k = ErrNamedPropertyNotFound)])"
proof -
  let ?calls = "[ExecCall ''id=:id '' id_map, ExecCall ''a=:b:c'' id_map, QueryCall ''x=:x '' id_map]"
  have t: "tokenize ''id=:id '' = Some [Text ''i'', Text ''d'', Text ''='', Param ''id'', Text '' '']"
    "tokenize ''a=:b:c'' = None"
    "tokenize ''x=:x '' = Some [Text ''x'', Text ''='', Param ''x'', Text '' '']" by code_simp+
  have "list_all (\<lambda>call. single_arg (call_arg call)) ?calls" by (simp add: single_arg_def id_map_def)
  from named_calls_refine [OF _ this, of sample_sys "{}" "XDB sample_db" "sample_api person_rs" Background]
  have "(case run_calls (sample_api person_rs) Background (XDB sample_db) sample_sys ?calls of (s1, rs) \<Rightarrow> (sy_world s1, rs)) =
      spec_calls (sample_api person_rs) DOLLAR Background (XDB sample_db) 0 ?calls"
    by (simp add: sample_sys_def cache_reachable.start BindType_def sample_db_def sync_load_def)
  also have "\<dots> = (1, [Gives (Inl (Some 0)), Fails (\<lambda>k. k = ErrSyntax), Fails (\<lambda>k. k = ErrNamedPropertyNotFound)])"
    by (auto simp: spec_call_def named_spec_def t id_map_def BindAnyArgs_def bindAnyArgs_def
        convertMapStringInterface_def bindMapArgs_def sample_api_def to_result_def fun_eq_iff)
  finally show ?thesis by (auto split: prod.splits)
qed

end
