(* ===== verification/Prepared_Refine.thy ===== *)
theory Prepared_Refine
  imports Named_Refine
begin

text \<open>
  A client of a prepared named statement against a client that binds the query anew at every call: \<open>Exec\<close>, \<open>Queryx\<close>, \<open>Select\<close> and
  \<open>Get\<close> of \<open>NamedStmt\<close> against \<open>NamedExec\<close>, \<open>NamedQuery\<close>, and \<open>Select\<close> and \<open>Get\<close> of what \<open>BindNamed\<close> yields.  That executing a
  prepared statement is executing its query is a hypothesis on \<open>database/sql\<close>.
\<close>

subsection \<open>Two clients\<close>

datatype bound_call =
    ExecWith ctx gval
  | QueryWith ctx gval
  | SelectWith ctx gtype bool "slice_item list" gval
  | GetWith ctx gtype addr gval

fun bound_arg :: "bound_call \<Rightarrow> gval" where
  "bound_arg (ExecWith ctx a) = a"
| "bound_arg (QueryWith ctx a) = a"
| "bound_arg (SelectWith ctx t isNil elems a) = a"
| "bound_arg (GetWith ctx t dest a) = a"

text \<open>What a call tells its caller; the elements of the caller's slice are seen after an error as well.\<close>

datatype outcome =
    Executed "sql_result option result_view"
  | Queried "sqlx_rows option result_view"
  | SliceFilled "slice_item list" "(sentinel \<Rightarrow> bool) option"
  | VarFilled "(sentinel \<Rightarrow> bool) option"
  | Panicked

text \<open>A state is \<^const>\<open>None\<close> once a call has panicked.\<close>

fun exec_outcome :: "'w sys \<times> sql_result option result \<Rightarrow> 'w sys option \<times> outcome" where
  "exec_outcome (s, Panic) = (None, Panicked)"
| "exec_outcome (s, r) = (Some s, Executed (result_class r))"

fun query_outcome :: "'w sys \<times> sqlx_rows option result \<Rightarrow> 'w sys option \<times> outcome" where
  "query_outcome (s, Panic) = (None, Panicked)"
| "query_outcome (s, r) = (Some s, Queried (result_class r))"

fun select_outcome :: "('w sys \<times> slice_item list \<times> go_error option) option \<Rightarrow> 'w sys option \<times> outcome" where
  "select_outcome None = (None, Panicked)"
| "select_outcome (Some (s, elems, err)) = (Some s, SliceFilled elems (map_option errors_is err))"

fun get_outcome :: "('w sys \<times> go_error option) option \<Rightarrow> 'w sys option \<times> outcome" where
  "get_outcome None = (None, Panicked)"
| "get_outcome (Some (s, err)) = (Some s, VarFilled (map_option errors_is err))"

fun stmt_client :: "'w sql_api \<Rightarrow> named_stmt \<Rightarrow> 'w sys option \<Rightarrow> bound_call \<Rightarrow> 'w sys option \<times> outcome" where
  "stmt_client api n None call = (None, Panicked)"
| "stmt_client api n (Some s) (ExecWith ctx a) = exec_outcome (NamedStmt_ExecContext api s ctx n a)"
| "stmt_client api n (Some s) (QueryWith ctx a) = query_outcome (NamedStmt_QueryxContext api s ctx n a)"
| "stmt_client api n (Some s) (SelectWith ctx t isNil elems a) =
     select_outcome (NamedStmt_SelectContext api s ctx n t isNil elems a)"
| "stmt_client api n (Some s) (GetWith ctx t dest a) = get_outcome (NamedStmt_GetContext api s ctx n t dest a)"

text \<open>Binding with \<open>BindNamed\<close> and going on with the query and its values when there was no error.\<close>

definition select_bound where
  "select_bound api s ctx e query t isNil elems a =
     (case bind_named api s (extractDriverName e) query a of
        (s1, Ok (q, args)) \<Rightarrow> SelectContext api s1 ctx e t isNil elems q args
      | (s1, Err _ err) \<Rightarrow> Some (s1, elems, Some err)
      | (s1, Panic) \<Rightarrow> None)"

definition get_bound where
  "get_bound api s ctx e query t dest a =
     (case bind_named api s (extractDriverName e) query a of
        (s1, Ok (q, args)) \<Rightarrow> GetContext api s1 ctx e t dest q args
      | (s1, Err _ err) \<Rightarrow> Some (s1, Some err)
      | (s1, Panic) \<Rightarrow> None)"

fun direct_client :: "'w sql_api \<Rightarrow> executor \<Rightarrow> string \<Rightarrow> 'w sys option \<Rightarrow> bound_call \<Rightarrow> 'w sys option \<times> outcome" where
  "direct_client api e query None call = (None, Panicked)"
| "direct_client api e query (Some s) (ExecWith ctx a) = exec_outcome (NamedExecContext api s ctx e query a)"
| "direct_client api e query (Some s) (QueryWith ctx a) = query_outcome (NamedQueryContext api s ctx e query a)"
| "direct_client api e query (Some s) (SelectWith ctx t isNil elems a) =
     select_outcome (select_bound api s ctx e query t isNil elems a)"
| "direct_client api e query (Some s) (GetWith ctx t dest a) = get_outcome (get_bound api s ctx e query t dest a)"

subsection \<open>Preparing\<close>

text \<open>The two handles that have \<open>PrepareNamedContext\<close>, and the mapper a handle was given.\<close>

fun PrepareNamed_on :: "'w sql_api \<Rightarrow> 'w sys \<Rightarrow> ctx \<Rightarrow> executor \<Rightarrow> string \<Rightarrow> ('w sys \<times> named_stmt option result) option" where
  "PrepareNamed_on api s ctx (XDB d) query = Some (DB_PrepareNamedContext api s ctx d query)"
| "PrepareNamed_on api s ctx (XTx t) query = Some (Tx_PrepareNamedContext api s ctx t query)"
| "PrepareNamed_on api s ctx _ query = None"

fun own_mapper :: "executor \<Rightarrow> mapper option" where
  "own_mapper (XDB d) = db_Mapper d"
| "own_mapper (XTx t) = tx_Mapper t"
| "own_mapper (XConn c) = cn_Mapper c"
| "own_mapper (XUser n) = None"

text \<open>
  \<open>database/sql\<close>: as long as it has not been closed, a statement stands for its query on the handle it was prepared on.  \<open>opened\<close>
  is what holds of the database as long as it has not: queries and executions keep it.
\<close>

definition runs_as :: "'w sql_api \<Rightarrow> sql_handle \<Rightarrow> string \<Rightarrow> nat \<Rightarrow> 'w \<Rightarrow> bool" where
  "runs_as api h q st w \<longleftrightarrow>
     (\<forall>ctx args. stmt_Query api ctx st args w = sql_Query api ctx h q args w \<and> stmt_Exec api ctx st args w = sql_Exec api ctx h q args w)"

definition stmt_ok :: "'w sql_api \<Rightarrow> ('w \<Rightarrow> bool) \<Rightarrow> sql_handle \<Rightarrow> string \<Rightarrow> nat \<Rightarrow> bool" where
  "stmt_ok api opened h q st \<longleftrightarrow>
     (\<forall>w. opened w \<longrightarrow> runs_as api h q st w \<and>
        (\<forall>ctx args. opened (fst (stmt_Query api ctx st args w)) \<and> opened (fst (stmt_Exec api ctx st args w))))"

text \<open>
  A named statement for \<open>query\<close> on a handle: prepared on it, possibly followed by the start of transactions, or prepared on a
  database and taken over by a transaction begun on it.
\<close>

inductive named_stmt_on :: "'w sql_api \<Rightarrow> string \<Rightarrow> executor \<Rightarrow> 'w sys \<Rightarrow> named_stmt \<Rightarrow> bool" for api query where
  prepare: "cache_reachable (sy_cache s, own) \<Longrightarrow> PrepareNamed_on api s ctx e query = Some (s1, Ok (Some n)) \<Longrightarrow>
     named_stmt_on api query e s1 n"
| begin_tx: "named_stmt_on api query (XDB d) s n \<Longrightarrow> DB_BeginTxx api s ctx d opts = (s1, Ok (Some t)) \<Longrightarrow>
     named_stmt_on api query (XDB d) s1 n"
| on_tx: "named_stmt_on api query (XDB d) s n \<Longrightarrow> DB_BeginTxx api s ctx d opts = (s1, Ok (Some t)) \<Longrightarrow>
     Tx_NamedStmtContext api s1 ctx' t n = (s2, n1) \<Longrightarrow> named_stmt_on api query (XTx t) s2 n1"

text \<open>What such a statement holds: the compiled query with its names, and the configuration of the handle.\<close>

definition stands_for :: "'w sys \<Rightarrow> executor \<Rightarrow> string \<Rightarrow> nat set \<Rightarrow> named_stmt \<Rightarrow> bool" where
  "stands_for s e query own n \<longleftrightarrow>
     compile_query (BindType (sy_binds s) (extractDriverName e)) query = Ok (ns_QueryString n, read_slice (sy_cache s) (ns_Params n)) \<and>
     cache_inv (sy_cache s, own) \<and> own_mapper e = Some defaultMapper \<and> ns_Mapper n = Some defaultMapper \<and>
     extractMeta e = (ns_Unsafe n, ns_Strict n, defaultMapper) \<and> (\<forall>n. e \<noteq> XUser n)"

lemma PrepareNamed_stands:
  assumes "cache_inv (sy_cache s, own)" and "PrepareNamed_on api s ctx e query = Some (s1, Ok (Some n))"
    and "own_mapper e = Some defaultMapper"
  shows "\<exists>own. stands_for s1 e query own n"
proof -
  obtain c r where comp: "CompileNamedQuery (sy_cache s) query (BindType (sy_binds s) (extractDriverName e)) = (c, r)"
    by (cases "CompileNamedQuery (sy_cache s) query (BindType (sy_binds s) (extractDriverName e))")
  note d = CompileNamedQuery_correct [OF comp assms(1)]
  obtain q ref where r: "r = Ok (q, ref)"
    using assms(2) comp by (cases e; cases r; auto simp: DB_PrepareNamedContext_def Tx_PrepareNamedContext_def)
  have s1: "sy_cache s1 = c \<and> sy_binds s1 = sy_binds s"
    and n: "ns_QueryString n = q \<and> ns_Params n = ref \<and> ns_Mapper n = Some defaultMapper \<and>
      extractMeta e = (ns_Unsafe n, ns_Strict n, defaultMapper) \<and> (\<forall>n. e \<noteq> XUser n)"
    using assms(2,3) comp r
    by (cases e; auto simp: DB_PrepareNamedContext_def DB_PreparexContext_def Tx_PrepareNamedContext_def Tx_PreparexContext_def
        PreparexContext_def or_default_def Let_def split: prod.splits sum.splits)+
  from d r s1 n assms(3) show ?thesis by (auto simp: stands_for_def)
qed

lemma named_stmt_on_stands: "named_stmt_on api query e s n \<Longrightarrow> own_mapper e = Some defaultMapper \<Longrightarrow> \<exists>own. stands_for s e query own n"
proof (induction rule: named_stmt_on.induct)
  case (prepare s own ctx e s1 n)
  from PrepareNamed_stands [OF cache_reachable_inv [OF prepare(1)] prepare(2,3)] show ?case .
next
  case (begin_tx d s n ctx opts s1 t)
  then show ?case by (auto simp: stands_for_def DB_BeginTxx_def Let_def split: prod.splits sum.splits)
next
  case (on_tx d s n ctx opts s1 t ctx' s2 n1)
  then show ?case
    by (auto simp: stands_for_def DB_BeginTxx_def Tx_NamedStmtContext_def Let_def split: prod.splits sum.splits)
qed

subsection \<open>One call\<close>

lemma single_arg_not_seq: "single_arg a \<Longrightarrow> \<not> is_seq a"
proof (cases a)
  case (VSeq t vs)
  have "deref_all t = t" if "kind_of t \<noteq> KPtr"
    using that ptr_elem_kind [of t] by (cases "ptr_elem t") (auto simp: deref_all.simps [of t])
  then show "single_arg a \<Longrightarrow> ?thesis" using VSeq by (auto simp: single_arg_def)
qed simp_all

text \<open>Both clients bind the same values; the one that binds anew may leave another cache.\<close>

lemma bind_named_params:
  assumes "stands_for s e query own n" and "cache_inv (c, own)" and "single_arg a"
  shows "\<exists>c1. cache_inv (c1, own) \<and>
    (case bind_params api s n a of
       Ok args \<Rightarrow> bind_named api (s\<lparr>sy_cache := c\<rparr>) (extractDriverName e) query a = (s\<lparr>sy_cache := c1\<rparr>, Ok (ns_QueryString n, args))
     | Err v err \<Rightarrow> (\<exists>v1 err1. bind_named api (s\<lparr>sy_cache := c\<rparr>) (extractDriverName e) query a = (s\<lparr>sy_cache := c1\<rparr>, Err v1 err1) \<and>
         errors_is err1 = errors_is err)
     | Panic \<Rightarrow> bind_named api (s\<lparr>sy_cache := c\<rparr>) (extractDriverName e) query a = (s\<lparr>sy_cache := c1\<rparr>, Panic))"
proof -
  let ?bt = "BindType (sy_binds s) (extractDriverName e)"
  obtain c1 r where b: "bindNamedMapper (api_types api) c ?bt query a bindDefaultMapper = (c1, r)"
    by (cases "bindNamedMapper (api_types api) c ?bt query a bindDefaultMapper")
  have "cache_inv (c1, own)" and cl: "result_class r = map_view (Pair (ns_QueryString n)) (result_class (bind_params api s n a))"
    using bindNamedMapper_class [OF assms(2,3) b] assms(1)
    by (simp_all add: stands_for_def bound_class_def bind_params_def mappers_agree)
  moreover have "bind_named api (s\<lparr>sy_cache := c\<rparr>) (extractDriverName e) query a = (s\<lparr>sy_cache := c1\<rparr>, r)"
    using b by (simp add: bind_named_def BindNamed_def)
  ultimately show ?thesis
    by (intro exI [of _ c1]) (cases "bind_params api s n a"; cases r; auto)
qed

lemma run_select_cache:
  "run_select api (s\<lparr>sy_cache := c\<rparr>) rows t isNil elems u strict m =
     map_option (\<lambda>(s1, r). (s1\<lparr>sy_cache := c\<rparr>, r)) (run_select api s rows t isNil elems u strict m)"
  by (auto simp: run_select_def split: option.split)

lemma run_get_cache:
  "run_get api (s\<lparr>sy_cache := c\<rparr>) rows t dest u strict m =
     map_option (\<lambda>(s1, r). (s1\<lparr>sy_cache := c\<rparr>, r)) (run_get api s rows t dest u strict m)"
  by (auto simp: run_get_def split: option.split)

text \<open>The direct client ends where the statement's does, but for the cache, and sees the same.\<close>

definition same_but_cache :: "nat set \<Rightarrow> 'w sys option \<times> outcome \<Rightarrow> 'w sys option \<times> outcome \<Rightarrow> bool" where
  "same_but_cache own x y \<longleftrightarrow> snd x = snd y \<and> (\<exists>c. cache_inv (c, own) \<and> fst y = map_option (\<lambda>s. s\<lparr>sy_cache := c\<rparr>) (fst x))"

lemma exec_agrees:
  assumes "stands_for s e query own n" and "runs_as api (handle_of e) (ns_QueryString n) (ns_Stmt n) (sy_world s)"
    and "cache_inv (c, own)" and "single_arg a"
  shows "same_but_cache own (exec_outcome (NamedStmt_ExecContext api s ctx n a))
    (exec_outcome (NamedExecContext api (s\<lparr>sy_cache := c\<rparr>) ctx e query a))"
  using bind_named_params [OF assms(1,3,4), of api] assms(2) single_arg_not_seq [OF assms(4)]
  by (auto simp: NamedStmt_ExecContext_def NamedExecContext_def Exec_def do_exec_def do_stmt_exec_def runs_as_def
      same_but_cache_def to_result_def Let_def split: result.splits option.splits prod.splits)

lemma stands_for_rows:
  "stands_for s e query own n \<Longrightarrow> handle_rows e r = make_rows r (ns_Mapper n) (ns_Unsafe n) (ns_Strict n)"
  by (cases e) (auto simp: stands_for_def)

lemma queryx_rows:
  assumes "\<forall>n. e \<noteq> XUser n" and "sql_Query api ctx (handle_of e) q args (sy_world s) = (w, r)"
  shows "(case r of
      Inr rows \<Rightarrow> Ext_QueryxContext api s ctx e q args = (s\<lparr>sy_world := w\<rparr>, Ok (Some (handle_rows e rows)))
    | Inl err \<Rightarrow> \<exists>err1. Ext_QueryxContext api s ctx e q args = (s\<lparr>sy_world := w\<rparr>, Err None err1) \<and> errors_is err1 = errors_is err)"
  using assms
  by (cases e) (auto simp: DB_QueryxContext_def Tx_QueryxContext_def Conn_QueryxContext_def do_query_def split: sum.split)

lemma query_agrees:
  assumes st: "stands_for s e query own n" and "runs_as api (handle_of e) (ns_QueryString n) (ns_Stmt n) (sy_world s)"
    and "cache_inv (c, own)" and "single_arg a"
  shows "same_but_cache own (query_outcome (NamedStmt_QueryxContext api s ctx n a))
    (query_outcome (NamedQueryContext api (s\<lparr>sy_cache := c\<rparr>) ctx e query a))"
proof (cases "bind_params api s n a")
  case (Ok args)
  obtain c1 where c1: "cache_inv (c1, own)"
      "bind_named api (s\<lparr>sy_cache := c\<rparr>) (extractDriverName e) query a = (s\<lparr>sy_cache := c1\<rparr>, Ok (ns_QueryString n, args))"
    using bind_named_params [OF st assms(3,4), of api] Ok by auto
  obtain w r where q: "sql_Query api ctx (handle_of e) (ns_QueryString n) args (sy_world s) = (w, r)"
    by (cases "sql_Query api ctx (handle_of e) (ns_QueryString n) args (sy_world s)")
  have u: "\<forall>n. e \<noteq> XUser n" using st by (simp add: stands_for_def)
  have q1: "sql_Query api ctx (handle_of e) (ns_QueryString n) args (sy_world (s\<lparr>sy_cache := c1\<rparr>)) = (w, r)" using q by simp
  have x: "(case r of
      Inr rows \<Rightarrow> NamedQueryContext api (s\<lparr>sy_cache := c\<rparr>) ctx e query a = (s\<lparr>sy_cache := c1, sy_world := w\<rparr>, Ok (Some (handle_rows e rows)))
    | Inl err \<Rightarrow> \<exists>err1. NamedQueryContext api (s\<lparr>sy_cache := c\<rparr>) ctx e query a = (s\<lparr>sy_cache := c1, sy_world := w\<rparr>, Err None err1) \<and>
        errors_is err1 = errors_is err)"
    using queryx_rows [OF u q1] c1(2) by (cases r) (auto simp: NamedQueryContext_def)
  have y: "NamedStmt_QueryxContext api s ctx n a = (s\<lparr>sy_world := w\<rparr>,
      case r of Inl err \<Rightarrow> Err None err | Inr rows \<Rightarrow> Ok (Some (handle_rows e rows)))"
    using Ok q assms(2) stands_for_rows [OF st]
    by (auto simp: NamedStmt_QueryxContext_def NamedStmt_QueryContext_def do_stmt_query_def runs_as_def split: sum.split)
  have "s\<lparr>sy_cache := c1, sy_world := w\<rparr> = s\<lparr>sy_world := w, sy_cache := c1\<rparr>" by (cases s) simp
  with x y c1(1) show ?thesis by (cases r) (auto simp: same_but_cache_def)
qed (use bind_named_params [OF st assms(3,4), of api] in
    \<open>auto simp: NamedStmt_QueryxContext_def NamedStmt_QueryContext_def NamedQueryContext_def same_but_cache_def\<close>)

lemma select_outcome_cache:
  "select_outcome (map_option (\<lambda>(s1, r). (s1\<lparr>sy_cache := c\<rparr>, r)) x) =
     apfst (map_option (\<lambda>s. s\<lparr>sy_cache := c\<rparr>)) (select_outcome x)"
  by (cases x) auto

lemma get_outcome_cache:
  "get_outcome (map_option (\<lambda>(s1, r). (s1\<lparr>sy_cache := c\<rparr>, r)) x) =
     apfst (map_option (\<lambda>s. s\<lparr>sy_cache := c\<rparr>)) (get_outcome x)"
  by (cases x) auto

lemmas run_scan_cache = run_select_cache run_get_cache select_outcome_cache get_outcome_cache

lemma select_agrees:
  assumes "stands_for s e query own n" and "runs_as api (handle_of e) (ns_QueryString n) (ns_Stmt n) (sy_world s)"
    and "cache_inv (c, own)" and "single_arg a"
  shows "same_but_cache own (select_outcome (NamedStmt_SelectContext api s ctx n t isNil elems a))
    (select_outcome (select_bound api (s\<lparr>sy_cache := c\<rparr>) ctx e query t isNil elems a))"
proof -
  have m: "extractMeta e = (ns_Unsafe n, ns_Strict n, defaultMapper)" "ns_Mapper n = Some defaultMapper"
    using assms(1) by (simp_all add: stands_for_def)
  have w: "s\<lparr>sy_cache := c1, sy_world := w1\<rparr> = s\<lparr>sy_world := w1, sy_cache := c1\<rparr>" for c1 w1 by (cases s) simp
  show ?thesis
    using bind_named_params [OF assms(1,3,4), of api] assms(2) m
    by (auto simp: NamedStmt_SelectContext_def select_bound_def SelectContext_def do_query_def do_stmt_query_def runs_as_def
        same_but_cache_def w run_scan_cache Let_def split: result.splits sum.splits prod.splits)
qed

lemma get_agrees:
  assumes "stands_for s e query own n" and "runs_as api (handle_of e) (ns_QueryString n) (ns_Stmt n) (sy_world s)"
    and "cache_inv (c, own)" and "single_arg a"
  shows "same_but_cache own (get_outcome (NamedStmt_GetContext api s ctx n t dest a))
    (get_outcome (get_bound api (s\<lparr>sy_cache := c\<rparr>) ctx e query t dest a))"
proof -
  have m: "extractMeta e = (ns_Unsafe n, ns_Strict n, defaultMapper)" "ns_Mapper n = Some defaultMapper"
    using assms(1) by (simp_all add: stands_for_def)
  have w: "s\<lparr>sy_cache := c1, sy_world := w1\<rparr> = s\<lparr>sy_world := w1, sy_cache := c1\<rparr>" for c1 w1 by (cases s) simp
  show ?thesis
    using bind_named_params [OF assms(1,3,4), of api] assms(2) m
    by (auto simp: NamedStmt_GetContext_def get_bound_def GetContext_def do_query_def do_stmt_query_def runs_as_def
        same_but_cache_def w run_scan_cache Let_def split: result.splits sum.splits prod.splits)
qed

subsection \<open>The runs\<close>

lemma stmt_client_keeps:
  "stmt_client api n (Some s) call = (Some s1, out) \<Longrightarrow> \<not> is_seq (bound_arg call) \<Longrightarrow>
     sy_cache s1 = sy_cache s \<and> sy_binds s1 = sy_binds s \<and>
     (sy_world s1 = sy_world s \<or>
      (\<exists>ctx args. sy_world s1 \<in> {fst (stmt_Query api ctx (ns_Stmt n) args (sy_world s)), fst (stmt_Exec api ctx (ns_Stmt n) args (sy_world s))}))"
  by (cases call;
    auto simp: NamedStmt_ExecContext_def NamedStmt_QueryxContext_def NamedStmt_QueryContext_def NamedStmt_SelectContext_def
      NamedStmt_GetContext_def do_stmt_exec_def do_stmt_query_def to_result_def run_select_def run_get_def Let_def
      elim!: exec_outcome.elims query_outcome.elims select_outcome.elims get_outcome.elims
      split: result.splits sum.splits option.splits prod.splits;
    metis fst_conv)

definition client_related ::
  "executor \<Rightarrow> string \<Rightarrow> named_stmt \<Rightarrow> nat set \<Rightarrow> ('w \<Rightarrow> bool) \<Rightarrow> 'w sys option \<Rightarrow> 'w sys option \<Rightarrow> bool" where
  "client_related e query n own opened t u \<longleftrightarrow>
     (case t of None \<Rightarrow> u = None
      | Some s \<Rightarrow> stands_for s e query own n \<and> opened (sy_world s) \<and> (\<exists>c. cache_inv (c, own) \<and> u = Some (s\<lparr>sy_cache := c\<rparr>)))"

lemma client_step:
  assumes "stands_for s e query own n" and "runs_as api (handle_of e) (ns_QueryString n) (ns_Stmt n) (sy_world s)"
    and "cache_inv (c, own)" and "single_arg (bound_arg call)"
  shows "same_but_cache own (stmt_client api n (Some s) call) (direct_client api e query (Some (s\<lparr>sy_cache := c\<rparr>)) call)"
  using exec_agrees [OF assms(1-3)] query_agrees [OF assms(1-3)] select_agrees [OF assms(1-3)] get_agrees [OF assms(1-3)] assms(4)
  by (cases call) simp_all

interpretation prepared_runs: simulation "stmt_client api n" "direct_client api e query"
  "\<lambda>t u. stmt_ok api opened (handle_of e) (ns_QueryString n) (ns_Stmt n) \<and> client_related e query n own opened t u"
  "\<lambda>call. single_arg (bound_arg call)" for api n e query own opened
proof unfold_locales
  fix t u call t1 r
  assume ok: "stmt_ok api opened (handle_of e) (ns_QueryString n) (ns_Stmt n) \<and> client_related e query n own opened t u"
    and arg: "single_arg (bound_arg call)" and step: "stmt_client api n t call = (t1, r)"
  show "\<exists>u1. direct_client api e query u call = (u1, r) \<and>
      stmt_ok api opened (handle_of e) (ns_QueryString n) (ns_Stmt n) \<and> client_related e query n own opened t1 u1"
  proof (cases t)
    case (Some s)
    with ok obtain c where c: "stands_for s e query own n" "cache_inv (c, own)" "u = Some (s\<lparr>sy_cache := c\<rparr>)" "opened (sy_world s)"
      by (auto simp: client_related_def)
    have runs: "runs_as api (handle_of e) (ns_QueryString n) (ns_Stmt n) (sy_world s)" using ok c(4) by (simp add: stmt_ok_def)
    obtain u1 r1 where d: "direct_client api e query u call = (u1, r1)" by (cases "direct_client api e query u call")
    from client_step [OF c(1) runs c(2) arg] c(3) d step Some
    obtain c1 where c1: "r = r1" "cache_inv (c1, own)" "u1 = map_option (\<lambda>s. s\<lparr>sy_cache := c1\<rparr>) t1"
      by (auto simp: same_but_cache_def)
    have "stands_for s1 e query own n \<and> opened (sy_world s1)" if "t1 = Some s1" for s1
      using stmt_client_keeps [of api n s call s1 r] step Some that single_arg_not_seq [OF arg] c(1,4) ok
      by (auto simp: stands_for_def stmt_ok_def)
    with c1 d ok show ?thesis by (cases t1) (auto simp: client_related_def)
  qed (use ok step in \<open>auto simp: client_related_def\<close>)
qed

text \<open>
  C3. A prepared named statement is its query, for a handle that has the default mapper (what \<open>NewDb\<close> gives it) and for
  arguments that are a struct, pointers to one, or a \<open>map[string]any\<close>: whatever sequence of \<open>Exec\<close>, \<open>Queryx\<close>, \<open>Select\<close> and \<open>Get\<close> calls
  with such arguments a client makes on a statement prepared on a database or a transaction, or taken over by a transaction begun on the
  database, each call returns what it would return if the named query were bound anew on the handle - the same result, rows, elements and
  contents of the destination, errors up to \<open>errors.Is\<close>, or a panic at the same call - and the database, the memory and the caches of the
  engine end the same; only the compile cache may differ.  The database is one where a statement that was not closed runs as its query.
  Both limits are needed: for a slice \<open>NamedStmt.Exec\<close> executes once per element where \<open>NamedExec\<close> sends one batch, and a mapper of
  the handle's own is lost when a statement is prepared.
\<close>

theorem prepared_is_direct:
  assumes "named_stmt_on api query e s n" and "own_mapper e = Some defaultMapper"
    and "list_all (\<lambda>call. single_arg (bound_arg call)) calls"
    and "stmt_ok api opened (handle_of e) (ns_QueryString n) (ns_Stmt n)" and "opened (sy_world s)"
  shows "case run_ops (stmt_client api n) (Some s) calls of
      (t, outs) \<Rightarrow> \<exists>c. run_ops (direct_client api e query) (Some s) calls = (map_option (\<lambda>s. s\<lparr>sy_cache := c\<rparr>) t, outs)"
proof -
  obtain own where st: "stands_for s e query own n" using named_stmt_on_stands [OF assms(1,2)] by blast
  obtain t outs where run: "run_ops (stmt_client api n) (Some s) calls = (t, outs)" by (cases "run_ops (stmt_client api n) (Some s) calls")
  have "cache_inv (sy_cache s, own)" using st by (simp add: stands_for_def)
  then have "client_related e query n own opened (Some s) (Some s)"
    using st assms(5) by (auto simp: client_related_def intro: exI [of _ "sy_cache s"])
  with prepared_runs.run_simulates [OF _ assms(3) run] assms(4) obtain u
    where "run_ops (direct_client api e query) (Some s) calls = (u, outs)" "client_related e query n own opened t u" by blast
  with run show ?thesis by (cases t) (auto simp: client_related_def)
qed

text \<open>Prepared on a database and taken over by a transaction: a call that is sent and one whose argument lacks the name.\<close>

theorem prepared_is_direct_witness:
  "\<exists>s n t. named_stmt_on (sample_api person_rs) ''id=:id '' (XTx t) s n \<and>
    snd (run_ops (direct_client (sample_api person_rs) (XTx t) ''id=:id '') (Some s)
      [ExecWith Background id_map, ExecWith (Ctx 1) (VMap string_map [])]) =
    [Executed (Gives (Some 3)), Executed (Fails (\<lambda>k. k = ErrNamedPropertyNotFound))]"
proof -
  let ?api = "sample_api person_rs" and ?d = "NewDb 0 ''postgres''"
  let ?calls = "[ExecWith Background id_map, ExecWith (Ctx 1) (VMap string_map [])]"
  let ?prep = "DB_PrepareNamedContext ?api sample_sys Background ?d ''id=:id ''"
  have "sy_world (fst ?prep) = 1 \<and> BindType (sy_binds (fst ?prep)) ''postgres'' = DOLLAR \<and> (case snd ?prep of Ok (Some n) \<Rightarrow> True | _ \<Rightarrow> False)" by code_simp
  then obtain s1 n1 where prep: "?prep = (s1, Ok (Some n1))" "sy_world s1 = 1" "BindType (sy_binds s1) ''postgres'' = DOLLAR"
    by (cases ?prep) (auto split: result.splits option.splits)
  have r: "cache_reachable (sy_cache sample_sys, {})" by (simp add: sample_sys_def cache_reachable.start)
  have "named_stmt_on ?api ''id=:id '' (XDB ?d) s1 n1"
    by (rule named_stmt_on.prepare [OF r, of _ Background]) (simp add: prep)
  moreover obtain s2 t where tx: "DB_BeginTxx ?api s1 Background ?d None = (s2, Ok (Some t))" "sy_world s2 = 2"
      "BindType (sy_binds s2) (tx_DriverName t) = DOLLAR" and own: "own_mapper (XTx t) = Some defaultMapper"
    using prep(2,3) by (simp add: DB_BeginTxx_def sample_api_def NewDb_def defaultMapper_def)
  moreover obtain s3 n where st: "Tx_NamedStmtContext ?api s2 Background t n1 = (s3, n)" "sy_world s3 = 3"
      "BindType (sy_binds s3) (tx_DriverName t) = DOLLAR"
    using tx(2,3) by (simp add: Tx_NamedStmtContext_def sample_api_def)
  ultimately have on: "named_stmt_on ?api ''id=:id '' (XTx t) s3 n" by (blast intro: named_stmt_on.on_tx)
  have ok: "stmt_ok ?api (\<lambda>w. 0 < w) (handle_of (XTx t)) (ns_QueryString n) (ns_Stmt n)"
    by (simp add: stmt_ok_def runs_as_def sample_api_def)
  have args: "list_all (\<lambda>call. single_arg (bound_arg call)) ?calls" by (simp add: single_arg_def id_map_def)
  obtain own where stands: "stands_for s3 (XTx t) ''id=:id '' own n" using named_stmt_on_stands [OF on own] by blast
  have "compile_query DOLLAR ''id=:id '' = Ok (''id=$1 '', [''id''])" by code_simp
  then have "read_slice (sy_cache s3) (ns_Params n) = [''id'']" "ns_Mapper n = Some defaultMapper"
    using stands st(3) by (auto simp: stands_for_def)
  then have "snd (run_ops (stmt_client ?api n) (Some s3) ?calls) =
      [Executed (Gives (Some 3)), Executed (Fails (\<lambda>k. k = ErrNamedPropertyNotFound))]"
    using st(2)
    by (simp add: NamedStmt_ExecContext_def bind_params_def id_map_def BindAnyArgs_def bindAnyArgs_def
        convertMapStringInterface_def bindMapArgs_def do_stmt_exec_def to_result_def sample_api_def fun_eq_iff eq_commute [of ErrNamedPropertyNotFound])
  moreover have pick: "(case p of (t, outs) \<Rightarrow> \<exists>c. x = (f c t, outs)) \<Longrightarrow> snd x = snd p" for p x f by (auto split: prod.splits)
  have "0 < sy_world s3" using st(2) by simp
  note pick [OF prepared_is_direct [OF on own args ok this]]
  ultimately show ?thesis using on by metis
qed

end
