(* ===== verification/Generics.thy ===== *)
theory Generics
  imports Handles_Props
begin

text \<open>
  \<open>SelectG\<close>, \<open>GetG\<close> and \<open>SelectIter\<close> of \<open>generics.go\<close> for a type argument \<open>T\<close>.  \<open>SelectG\<close> scans structs in place into an
  array it grows by doubling, which is modelled in memory, elements copied when it moves; everything else it
  scans into objects of their own.  An interface type argument has a nil \<open>reflect.Type\<close> and panics.
\<close>

subsection \<open>\<open>for rows.Next()\<close>\<close>

text \<open>The loop with its body; the error is the one the body returns with.\<close>

function for_rows ::
  "(sql_rows \<Rightarrow> 'st \<Rightarrow> ('st \<times> go_error option) option) \<Rightarrow> sql_rows \<Rightarrow> 'st \<Rightarrow>
   (sql_rows \<times> 'st \<times> go_error option) option" where
  "for_rows one rows st =
     (case rows_Next rows of
        (rows1, ok) \<Rightarrow>
          if \<not> ok then Some (rows1, st, None)
          else (case one rows1 st of
             None \<Rightarrow> None
           | Some (st1, Some e) \<Rightarrow> Some (rows1, st1, Some e)
           | Some (st1, None) \<Rightarrow> for_rows one rows1 st1))"
  by pat_completeness auto
termination
  by (relation "measure (\<lambda>(one, rows, st). length (rs_pending rows))")
    (auto simp: rows_Next_def split: if_splits list.splits)

declare for_rows.simps [simp del]

definition row_error :: "sql_rows \<Rightarrow> go_error option" where
  "row_error rows = map_option (\<lambda>e. Errorf ''sqlx: row error: %w'' [] (Some e)) (rows_Err rows)"

subsection \<open>The array of \<open>SelectG\<close>\<close>

record go_array =
  ga_base :: addr
  ga_len :: nat
  ga_cap :: nat

definition nil_array :: go_array where
  "nil_array = \<lparr>ga_base = Addr 0 0, ga_len = 0, ga_cap = 0\<rparr>"

definition elem_addr :: "tenv \<Rightarrow> gtype \<Rightarrow> go_array \<Rightarrow> nat \<Rightarrow> addr" where
  "elem_addr E t arr i = add_offset (ga_base arr) (i * size_of E t)"

text \<open>\<open>make\<close> and \<open>copy\<close>: a new block whose first bytes are those of the old array.\<close>

definition move_array :: "tenv \<Rightarrow> gtype \<Rightarrow> nat \<Rightarrow> memory \<Rightarrow> vals \<Rightarrow> go_array \<Rightarrow> memory \<times> vals \<times> go_array" where
  "move_array E t newCap mem vals arr =
     (let (mem1, base) = reflect_New (TArray newCap t) mem;
          used = (\<lambda>a. blk a = blk base \<and> off a < ga_len arr * size_of E t);
          old = (\<lambda>a. add_offset (ga_base arr) (off a))
      in (mem1\<lparr>ptr_at := (\<lambda>a. if used a then ptr_at mem (old a) else ptr_at mem1 a)\<rparr>,
          (\<lambda>a. if used a then vals (old a) else if blk a = blk base then None else vals a),
          arr\<lparr>ga_base := base, ga_cap := newCap\<rparr>))"

definition grow_array :: "tenv \<Rightarrow> gtype \<Rightarrow> memory \<Rightarrow> vals \<Rightarrow> go_array \<Rightarrow> memory \<times> vals \<times> go_array" where
  "grow_array E t mem vals arr =
     (if ga_len arr = ga_cap arr then
        (let newCap = ga_cap arr * 2;
             newCap1 = (if newCap = 0 then 8 else newCap)
         in move_array E t newCap1 mem vals arr)
      else (mem, vals, arr))"

text \<open>\<open>results = append(results, zero)\<close> where there is room: the place behind the last element is cleared.\<close>

definition append_zero :: "tenv \<Rightarrow> gtype \<Rightarrow> memory \<Rightarrow> vals \<Rightarrow> go_array \<Rightarrow> memory \<times> vals \<times> go_array" where
  "append_zero E t mem vals arr =
     (let a = elem_addr E t arr (ga_len arr);
          slot = (\<lambda>x. blk x = blk a \<and> off a \<le> off x \<and> off x < off a + size_of E t)
      in (mem\<lparr>ptr_at := (\<lambda>x. if slot x then None else ptr_at mem x)\<rparr>, (\<lambda>x. if slot x then None else vals x),
          arr\<lparr>ga_len := Suc (ga_len arr)\<rparr>))"

type_synonym array_state = "memory \<times> vals \<times> scan_dest option list \<times> go_array"

text \<open>One iteration: room, a zero element, its destinations, the scan.\<close>

definition scan_array ::
  "tenv \<Rightarrow> conv \<Rightarrow> gtype \<Rightarrow> field_meta list \<Rightarrow> sql_rows \<Rightarrow> array_state \<Rightarrow> (array_state \<times> go_error option) option" where
  "scan_array E conv t meta rows st =
     (case st of (mem, vals, dests, arr) \<Rightarrow>
        let (mem1, vals1, arr1) = grow_array E t mem vals arr;
            (mem2, vals2, arr2) = append_zero E t mem1 vals1 arr1 in
        (case populateScanDest mem2 (elem_addr E t arr2 (ga_len arr1)) meta dests of
           None \<Rightarrow> None
         | Some (mem3, dests1) \<Rightarrow>
             (let (vals3, err) = rows_Scan conv rows dests1 vals2
              in Some ((mem3, vals3, dests1, arr2),
                   map_option (\<lambda>e. Errorf ''sqlx: struct scan error: %w'' [] (Some e)) err))))"

subsection \<open>\<open>SelectG\<close>\<close>

text \<open>The slice returned: nil, objects or copies of objects, or the array.\<close>

datatype gen_slice = GNil | GItems "slice_item list" | GArray go_array

text \<open>\<open>defer rows.Close()\<close>, whose error is returned if there is no other; what was to be returned stays.\<close>

definition gen_close ::
  "('w sys \<times> sql_rows \<times> 'r \<times> go_error option) option \<Rightarrow> ('w sys \<times> 'r \<times> go_error option) option" where
  "gen_close x =
     (case x of
        None \<Rightarrow> None
      | Some (s, rows, r, err) \<Rightarrow> (case close_rows rows err of (rows1, err1) \<Rightarrow> Some (s, r, err1)))"

text \<open>What the loop left is returned unless the body or the rows gave an error.\<close>

definition gen_result :: "sql_rows \<Rightarrow> gen_slice \<Rightarrow> go_error option \<Rightarrow> gen_slice \<times> go_error option" where
  "gen_result rows res err =
     (case err of
        Some e \<Rightarrow> (GNil, Some e)
      | None \<Rightarrow> (case row_error rows of Some e \<Rightarrow> (GNil, Some e) | None \<Rightarrow> (res, None)))"

definition SelectG_body ::
  "'w sql_api \<Rightarrow> 'w sys \<Rightarrow> sql_rows \<Rightarrow> gtype \<Rightarrow> bool \<Rightarrow> bool \<Rightarrow> mapper \<Rightarrow>
   ('w sys \<times> sql_rows \<times> gen_slice \<times> go_error option) option" where
  "SelectG_body api s rows T isUnsafe strictTagParsing m =
     (let E = api_types api; conv = api_conv api; en = sy_engine s;
          isPtr = (kind_of T = KPtr);
          elemType = (if isPtr then Deref T else T);
          item = (\<lambda>vp xs. (xs @ [if isPtr then ItemPtr vp else ItemCopy vp], None)) in
      case rows_Columns rows of
        Panic \<Rightarrow> None
      | Err _ e \<Rightarrow> Some (s, rows, GNil, Some (Errorf ''sqlx: error getting columns: %w'' [] (Some e)))
      | Ok columns \<Rightarrow>
          if isScannable E elemType then
            (if length columns \<noteq> 1 then
               Some (s, rows, GNil, Some (Errorf ''sqlx: scannable dest type %s with >1 columns (%d)''
                 [FStr (type_string elemType), FInt (int (length columns))] None))
             else
               (case for_rows (scan_value conv elemType (reflect_New elemType) item) rows (sy_mem s, sy_vals s, [], []) of
                  None \<Rightarrow> None
                | Some (rows1, (mem1, vals1, _, items), err) \<Rightarrow>
                    Some (s\<lparr>sy_mem := mem1, sy_vals := vals1\<rparr>, rows1, gen_result rows1 (GItems items) err)))
          else
            (case type_map E m elemType of
               None \<Rightarrow> None
             | Some tm \<Rightarrow>
                 if strictTagParsing \<and> sm_errors tm \<noteq> [] then
                   Some (s, rows, GNil, Some (Errorf ''sqlx: strict tag error: %w'' [] (Some (hd (sm_errors tm)))))
                 else
                   (case buildMeta E (en_metaCache en) elemType columns tm isUnsafe of
                      (c1, Panic) \<Rightarrow> None
                    | (c1, Err _ e) \<Rightarrow>
                        Some (s\<lparr>sy_engine := en\<lparr>en_metaCache := c1\<rparr>\<rparr>, rows, GNil,
                          Some (Errorf ''sqlx: error building meta: %w'' [] (Some e)))
                    | (c1, Ok meta) \<Rightarrow>
                        let (pool1, scanDest) = getScanDest (en_pool en) (length columns);
                            put = (\<lambda>dests. en\<lparr>en_metaCache := c1, en_pool := putScanDest (dests, snd scanDest) pool1\<rparr>) in
                        if isPtr then
                          (case for_rows (scan_struct conv meta (reflect_New elemType) item) rows
                                  (sy_mem s, sy_vals s, fst scanDest, []) of
                             None \<Rightarrow> None
                           | Some (rows1, (mem1, vals1, dests1, items), err) \<Rightarrow>
                               Some (s\<lparr>sy_engine := put dests1, sy_mem := mem1, sy_vals := vals1\<rparr>, rows1,
                                 gen_result rows1 (GItems items) err))
                        else
                          (case for_rows (scan_array E conv elemType meta) rows (sy_mem s, sy_vals s, fst scanDest, nil_array) of
                             None \<Rightarrow> None
                           | Some (rows1, (mem1, vals1, dests1, arr), err) \<Rightarrow>
                               Some (s\<lparr>sy_engine := put dests1, sy_mem := mem1, sy_vals := vals1\<rparr>, rows1,
                                 gen_result rows1 (GArray arr) err)))))"

definition SelectG ::
  "'w sql_api \<Rightarrow> 'w sys \<Rightarrow> ctx \<Rightarrow> executor \<Rightarrow> gtype \<Rightarrow> string \<Rightarrow> gval list \<Rightarrow> ('w sys \<times> gen_slice \<times> go_error option) option" where
  "SelectG api s ctx q T query args =
     (case do_query api s ctx (handle_of q) query args of
        (s1, Inl e) \<Rightarrow> Some (s1, GNil, Some (Errorf ''sqlx: error in SelectG: %w'' [] (Some e)))
      | (s1, Inr rows) \<Rightarrow>
          if kind_of T = KIface then None
          else (let (u, strict, m) = extractMeta q in gen_close (SelectG_body api s1 rows T u strict m)))"

subsection \<open>\<open>GetG\<close>\<close>

text \<open>The first row, or why there is none; the value returned is the object at the address, \<^const>\<open>None\<close> the zero value.\<close>

definition first_row ::
  "(sql_rows \<Rightarrow> addr option scan_state \<Rightarrow> (addr option scan_state \<times> go_error option) option) \<Rightarrow> sql_rows \<Rightarrow>
   addr option scan_state \<Rightarrow> (sql_rows \<times> addr option scan_state \<times> go_error option) option" where
  "first_row one rows st =
     (case rows_Next rows of
        (rows1, ok) \<Rightarrow>
          if \<not> ok then
            Some (rows1, st, Some (case row_error rows1 of Some e \<Rightarrow> e | None \<Rightarrow> Sentinel ErrNoRows))
          else map_option (\<lambda>(st1, err). (rows1, st1, err)) (one rows1 st))"

definition GetG_body ::
  "'w sql_api \<Rightarrow> 'w sys \<Rightarrow> sql_rows \<Rightarrow> gtype \<Rightarrow> bool \<Rightarrow> bool \<Rightarrow> mapper \<Rightarrow>
   ('w sys \<times> sql_rows \<times> addr option \<times> go_error option) option" where
  "GetG_body api s rows T isUnsafe strictTagParsing m =
     (let E = api_types api; conv = api_conv api; en = sy_engine s;
          elemType = (if kind_of T = KPtr then Deref T else T);
          keep = (\<lambda>vp res. (Some vp, None)) in
      case rows_Columns rows of
        Panic \<Rightarrow> None
      | Err _ e \<Rightarrow> Some (s, rows, None, Some (Errorf ''sqlx: error getting columns: %w'' [] (Some e)))
      | Ok columns \<Rightarrow>
          if isScannable E elemType then
            (if length columns \<noteq> 1 then
               Some (s, rows, None, Some (Errorf ''sqlx: scannable dest type %s with >1 columns (%d)''
                 [FStr (type_string elemType), FInt (int (length columns))] None))
             else
               (case first_row (scan_value conv elemType (reflect_New elemType) keep) rows (sy_mem s, sy_vals s, [], None) of
                  None \<Rightarrow> None
                | Some (rows1, (mem1, vals1, _, res), err) \<Rightarrow> Some (s\<lparr>sy_mem := mem1, sy_vals := vals1\<rparr>, rows1, res, err)))
          else
            (case type_map E m elemType of
               None \<Rightarrow> None
             | Some tm \<Rightarrow>
                 if strictTagParsing \<and> sm_errors tm \<noteq> [] then
                   Some (s, rows, None, Some (Errorf ''sqlx: strict tag error: %w'' [] (Some (hd (sm_errors tm)))))
                 else
                   (case buildMeta E (en_metaCache en) elemType columns tm isUnsafe of
                      (c1, Panic) \<Rightarrow> None
                    | (c1, Err _ e) \<Rightarrow>
                        Some (s\<lparr>sy_engine := en\<lparr>en_metaCache := c1\<rparr>\<rparr>, rows, None,
                          Some (Errorf ''sqlx: error building meta: %w'' [] (Some e)))
                    | (c1, Ok meta) \<Rightarrow>
                        let (pool1, scanDest) = getScanDest (en_pool en) (length columns) in
                        (case first_row (scan_struct conv meta (reflect_New elemType) keep) rows
                                (sy_mem s, sy_vals s, fst scanDest, None) of
                           None \<Rightarrow> None
                         | Some (rows1, (mem1, vals1, dests1, res), err) \<Rightarrow>
                             Some (s\<lparr>sy_engine := en\<lparr>en_metaCache := c1, en_pool := putScanDest (dests1, snd scanDest) pool1\<rparr>,
                                     sy_mem := mem1, sy_vals := vals1\<rparr>, rows1, res, err)))))"

definition GetG ::
  "'w sql_api \<Rightarrow> 'w sys \<Rightarrow> ctx \<Rightarrow> executor \<Rightarrow> gtype \<Rightarrow> string \<Rightarrow> gval list \<Rightarrow> ('w sys \<times> addr option \<times> go_error option) option" where
  "GetG api s ctx q T query args =
     (case do_query api s ctx (handle_of q) query args of
        (s1, Inl e) \<Rightarrow> Some (s1, None, Some (Errorf ''sqlx: error in GetG: %w'' [] (Some e)))
      | (s1, Inr rows) \<Rightarrow>
          if kind_of T = KIface then None
          else (let (u, strict, m) = extractMeta q in gen_close (GetG_body api s1 rows T u strict m)))"

subsection \<open>\<open>SelectIter\<close>\<close>

text \<open>
  The loop body of the caller, on the caller's state: it gets the object at an address or the zero
  value, and an error, and says whether to go on.
\<close>

type_synonym 'u body = "'u \<Rightarrow> addr option \<Rightarrow> go_error option \<Rightarrow> 'u \<times> bool"

text \<open>
  What \<open>iterateScan\<close> calls for a row. For a pointer type the assertion \<open>.(T)\<close> fails, since the value
  is that of the type pointed to; the flag records this panic, which ends the loop.
\<close>

definition iter_yield :: "bool \<Rightarrow> 'u body \<Rightarrow> ('u \<times> bool) yield" where
  "iter_yield isPtr body vp st =
     (if isPtr then ((fst st, True), Some (Sentinel ErrStopIter))
      else (let (u1, more) = body (fst st) (Some vp) None
            in ((u1, snd st), if \<not> more then Some (Sentinel ErrStopIter) else None)))"

definition SelectIter ::
  "'w sql_api \<Rightarrow> 'w sys \<Rightarrow> ctx \<Rightarrow> executor \<Rightarrow> gtype \<Rightarrow> string \<Rightarrow> gval list \<Rightarrow> 'u body \<Rightarrow> 'u \<Rightarrow> ('w sys \<times> 'u) option" where
  "SelectIter api s ctx q T query args body u =
     (case do_query api s ctx (handle_of q) query args of
        (s1, Inl e) \<Rightarrow> Some (s1, fst (body u None (Some (Errorf ''sqlx: error in SelectIter rows: %w'' [] (Some e)))))
      | (s1, Inr rows) \<Rightarrow>
          if kind_of T = KIface then None
          else
            (let elemType = (if kind_of T = KPtr then Deref T else T);
                 (isUnsafe, strictTagParsing, m) = extractMeta q in
             case iterateScan (api_types api) (api_conv api) (sy_engine s1) rows elemType isUnsafe strictTagParsing (Some m)
                    (reflect_New elemType) (iter_yield (kind_of T = KPtr) body) (sy_mem s1) (sy_vals s1) (u, False) of
               None \<Rightarrow> None
             | Some (en, rows1, mem, vals, (u1, panicked), err) \<Rightarrow>
                 if panicked then None
                 else
                   (let s2 = s1\<lparr>sy_engine := en, sy_mem := mem, sy_vals := vals\<rparr> in
                    case err of
                      None \<Rightarrow> Some (s2, u1)
                    | Some e \<Rightarrow>
                        Some (s2, fst (body u1 None (Some (Errorf ''sqlx: error in SelectIter scan: %w'' [] (Some e)))))))) "

end
