(* ===== verification/Cache_Free.thy ===== *)
theory Cache_Free
  imports Prepared_Refine Generics
begin

text \<open>
  The three things the package keeps between calls - compiled queries, scan plans and the pool of scan destinations - against a
  machine that keeps nothing: it empties them before every call.  States that differ only in what they keep answer alike, and so do the two
  machines over any sequence of calls.
\<close>

subsection \<open>The engine\<close>

definition pool_ok :: "scan_pool \<Rightarrow> bool" where
  "pool_ok pool \<longleftrightarrow> (\<forall>s \<in> set (snd pool). set (fst s @ snd s) \<subseteq> {None})"

definition engine_ok :: "tenv \<Rightarrow> mapper \<Rightarrow> engine \<Rightarrow> bool" where
  "engine_ok E m en \<longleftrightarrow> meta_sound E m (en_metaCache en) \<and> pool_ok (en_pool en)"

definition fresh_engine :: "engine \<Rightarrow> engine" where
  "fresh_engine en = en\<lparr>en_metaCache := sync_empty, en_pool := (fst (en_pool en), [])\<rparr>"

definition engine_same :: "tenv \<Rightarrow> mapper \<Rightarrow> engine \<Rightarrow> engine \<Rightarrow> bool" where
  "engine_same E m en en' \<longleftrightarrow> engine_ok E m en \<and> engine_ok E m en' \<and> fresh_engine en = fresh_engine en'"

lemma all_None: "set xs \<subseteq> {None} \<longleftrightarrow> xs = replicate (length xs) None"
  by (induction xs) auto

lemma pool_Get_ok:
  assumes "pool_ok pool" and "pool_Get pool = (pool1, buf)"
  shows "pool_ok pool1" and "fst buf @ snd buf = replicate (length (fst buf @ snd buf)) None"
proof -
  have "set (snd pool1) \<subseteq> set (snd pool)"
    using assms(2) by (auto simp: pool_Get_def Let_def case_prod_unfold split: if_splits dest: in_set_takeD in_set_dropD)
  with assms(1) show "pool_ok pool1" unfolding pool_ok_def by blast
  have "buf = ([], []) \<or> buf \<in> set (snd pool)"
    using assms(2) nth_mem [of "fst pool 0" "snd pool"] by (auto simp: pool_Get_def Let_def case_prod_unfold split: if_splits)
  with assms(1) have "set (fst buf @ snd buf) \<subseteq> {None}" by (auto simp: pool_ok_def)
  then show "fst buf @ snd buf = replicate (length (fst buf @ snd buf)) None" by (simp only: all_None)
qed

lemma getScanDest_ok:
  assumes "pool_ok pool"
  shows "fst (snd (getScanDest pool n)) = replicate n None" and "pool_ok (fst (getScanDest pool n))"
    and "fst (fst (getScanDest pool n)) = (\<lambda>i. fst pool (Suc i))"
proof -
  obtain pool1 buf where g: "pool_Get pool = (pool1, buf)" by (cases "pool_Get pool")
  note ok = pool_Get_ok [OF assms g]
  have picks: "fst pool1 = (\<lambda>i. fst pool (Suc i))"
    using g by (auto simp: pool_Get_def Let_def case_prod_unfold split: if_splits)
  have "take n (fst buf @ snd buf) = replicate n None" if "n \<le> length (fst buf @ snd buf)"
    using that by (subst ok(2)) (simp add: min_def)
  with ok(1) picks show "fst (snd (getScanDest pool n)) = replicate n None" and "pool_ok (fst (getScanDest pool n))"
    and "fst (fst (getScanDest pool n)) = (\<lambda>i. fst pool (Suc i))"
    unfolding getScanDest_def g by (simp_all add: Let_def)
qed

lemma putScanDest_ok: "pool_ok pool \<Longrightarrow> pool_ok (putScanDest s pool)"
  by (auto simp: pool_ok_def putScanDest_def)

lemma engine_ok_fresh: "engine_ok E m (fresh_engine en)"
  by (simp add: engine_ok_def fresh_engine_def meta_sound_def sync_memo.agrees_empty pool_ok_def)

lemma engine_same_fresh: "engine_same E m en en' \<Longrightarrow> engine_same E m en (fresh_engine en')"
  using engine_ok_fresh by (auto simp: engine_same_def) (simp_all add: fresh_engine_def)

lemma engine_same_update:
  assumes "engine_same E m en en'" and "meta_sound E m c" and "meta_sound E m c'"
  shows "engine_same E m (en\<lparr>en_metaCache := c\<rparr>) (en'\<lparr>en_metaCache := c'\<rparr>)"
  using assms by (cases en; cases en') (simp add: engine_same_def engine_ok_def fresh_engine_def)

lemma engine_same_put:
  assumes "engine_same E m en en'" and "meta_sound E m c" and "meta_sound E m c'" and "pool_ok p" and "pool_ok p'" and "fst p = fst p'"
  shows "engine_same E m (en\<lparr>en_metaCache := c, en_pool := putScanDest d p\<rparr>) (en'\<lparr>en_metaCache := c', en_pool := putScanDest d' p'\<rparr>)"
proof -
  have picks: "fst (putScanDest d p) = fst (putScanDest d' p')" using assms(6) by (simp add: putScanDest_def)
  show ?thesis
    using assms(1-5) putScanDest_ok by (cases en; cases en') (simp add: engine_same_def engine_ok_def fresh_engine_def picks)
qed

subsection \<open>Scanning\<close>

text \<open>Results that are alike but for the engine they leave.\<close>

abbreviation "alike same \<equiv> rel_option (rel_prod same (=))"

lemma buildMeta_same:
  assumes "engine_same E m en en'" and "type_map E m t = Some tm"
  obtains c c' r where "buildMeta E (en_metaCache en) t columns tm u = (c, r)" and "buildMeta E (en_metaCache en') t columns tm u = (c', r)"
    and "meta_sound E m c" and "meta_sound E m c'"
proof -
  have "meta_sound E m (en_metaCache en)" "meta_sound E m (en_metaCache en')" using assms(1) by (simp_all add: engine_same_def engine_ok_def)
  from buildMeta_correct [OF this(1) assms(2), of columns u] buildMeta_correct [OF this(2) assms(2), of columns u]
  show ?thesis by (intro that) (auto simp: prod_eq_iff)
qed

lemma getScanDest_same:
  assumes "engine_same E m en en'"
  obtains p p' h h' where "getScanDest (en_pool en) n = (p, replicate n None, h)"
    and "getScanDest (en_pool en') n = (p', replicate n None, h')" and "pool_ok p" and "pool_ok p'" and "fst p = fst p'"
proof -
  have "pool_ok (en_pool en)" "pool_ok (en_pool en')" using assms by (simp_all add: engine_same_def engine_ok_def)
  note ok = getScanDest_ok [OF this(1), of n] getScanDest_ok [OF this(2), of n]
  have "fst (en_pool en) = fst (en_pool en')" using assms by (cases en; cases en') (simp add: engine_same_def fresh_engine_def)
  with ok show ?thesis using that by (metis prod.collapse)
qed

text \<open>The three bodies that scan either end before they look at what is kept, or plan and take destinations alike.\<close>

lemma plan_cases [consumes 1]:
  assumes "engine_same E m en en'"
  obtains (early) "isScannable E t \<or> type_map E m t = None \<or> (\<exists>tm. type_map E m t = Some tm \<and> st \<and> sm_errors tm \<noteq> [])"
    | (plan) tm c c' r p p' h h' where "type_map E m t = Some tm" and "\<not> (st \<and> sm_errors tm \<noteq> [])" and "\<not> isScannable E t"
      and "buildMeta E (en_metaCache en) t columns tm u = (c, r)" and "buildMeta E (en_metaCache en') t columns tm u = (c', r)"
      and "getScanDest (en_pool en) (length columns) = (p, replicate (length columns) None, h)"
      and "getScanDest (en_pool en') (length columns) = (p', replicate (length columns) None, h')"
      and "engine_same E m (en\<lparr>en_metaCache := c\<rparr>) (en'\<lparr>en_metaCache := c'\<rparr>)"
      and "\<And>d d'. engine_same E m (en\<lparr>en_metaCache := c, en_pool := putScanDest d p\<rparr>) (en'\<lparr>en_metaCache := c', en_pool := putScanDest d' p'\<rparr>)"
proof (cases "isScannable E t \<or> type_map E m t = None \<or> (\<exists>tm. type_map E m t = Some tm \<and> st \<and> sm_errors tm \<noteq> [])")
  case False
  then obtain tm where tm: "type_map E m t = Some tm" "\<not> (st \<and> sm_errors tm \<noteq> [])" "\<not> isScannable E t" by auto
  obtain c c' r where b: "buildMeta E (en_metaCache en) t columns tm u = (c, r)" "buildMeta E (en_metaCache en') t columns tm u = (c', r)"
      "meta_sound E m c" "meta_sound E m c'" using buildMeta_same [OF assms tm(1)] .
  obtain p p' h h' where g: "getScanDest (en_pool en) (length columns) = (p, replicate (length columns) None, h)"
      "getScanDest (en_pool en') (length columns) = (p', replicate (length columns) None, h')" "pool_ok p" "pool_ok p'" "fst p = fst p'"
    using getScanDest_same [OF assms] .
  show ?thesis
    by (rule plan [OF tm b(1,2) g(1,2) engine_same_update [OF assms b(3,4)] engine_same_put [OF assms b(3,4) g(3-5)]])
qed (rule early)

lemma iterate_body_same:
  assumes "engine_same E m en en'"
  shows "alike (engine_same E m) (iterate_body E conv en rows t u st (Some m) alloc yield mem vals s)
    (iterate_body E conv en' rows t u st (Some m) alloc yield mem vals s)"
proof (cases "rows_Columns rows")
  case (Ok columns)
  from assms show ?thesis
  proof (cases rule: plan_cases [where t = t and st = st and columns = columns and u = u])
    case early
    with Ok assms show ?thesis by (auto simp: iterate_body_def nil_TypeMap_def split: option.split)
  next
    case (plan tm c c' r)
    with Ok show ?thesis by (cases r) (auto simp: iterate_body_def nil_TypeMap_def split: option.split)
  qed
qed (use assms in \<open>simp_all add: iterate_body_def\<close>)

lemma iterateScan_same:
  assumes "engine_same E m en en'"
  shows "alike (engine_same E m) (iterateScan E conv en rows t u st (Some m) alloc yield mem vals s)
    (iterateScan E conv en' rows t u st (Some m) alloc yield mem vals s)"
  using iterate_body_same [OF assms, of conv rows t u st alloc yield mem vals s] unfolding iterateScan_def
  by (auto elim!: option.rel_cases split: prod.split)

lemma selectScan_same:
  "engine_same E m en en' \<Longrightarrow> alike (engine_same E m) (selectScan E conv en rows t isNil u st (Some m) mem vals elems)
    (selectScan E conv en' rows t isNil u st (Some m) mem vals elems)"
  using iterateScan_same unfolding selectScan_def Let_def by (auto split: option.split prod.split)

lemma getScan_same:
  assumes "engine_same E m en en'"
  shows "alike (engine_same E m) (getScan E conv en rows t dest u st (Some m) mem vals) (getScan E conv en' rows t dest u st (Some m) mem vals)"
proof (cases "ptr_elem t")
  case (Some e)
  from iterateScan_same [OF assms, of conv rows e u st "\<lambda>mem. (mem, dest)" "\<lambda>vp found. (True, Some (Sentinel ErrStopIter))" mem vals False]
  show ?thesis unfolding getScan_def by (auto simp: Some elim!: option.rel_cases)
qed (use assms in \<open>simp add: getScan_def split: prod.split\<close>)

subsection \<open>Binding\<close>

text \<open>Two caches compile a query alike: the same query with the same names, behind references of their own.\<close>

lemma compile_same:
  assumes "cache_inv (w, own)" and "cache_inv (w', own)"
  obtains w1 w1' r r' where "compileNamedQuery w q bt = (w1, r)" and "compileNamedQuery w' q bt = (w1', r')"
    and "cache_inv (w1, own)" and "cache_inv (w1', own)" and "deref_result w1 r = deref_result w1' r'"
proof -
  obtain w1 r where c: "compileNamedQuery w q bt = (w1, r)" by (cases "compileNamedQuery w q bt")
  obtain w1' r' where c': "compileNamedQuery w' q bt = (w1', r')" by (cases "compileNamedQuery w' q bt")
  from that [OF c c'] compileNamedQuery_correct [OF c assms(1)] compileNamedQuery_correct [OF c' assms(2)] show ?thesis by simp
qed

text \<open>What follows a compilation looks at the query and the names only.\<close>

lemma compiled_same:
  assumes "cache_inv (w, own)" and "cache_inv (w', own)"
    and k: "\<And>w1 r w1' r'. deref_result w1 r = deref_result w1' r' \<Longrightarrow> snd (k w1 r) = snd (k w1' r')"
    and fst_k: "\<And>w1 r. fst (k w1 r) = w1"
    and run: "(let (w1, r) = compileNamedQuery w q bt in k w1 r) = (v, x)" "(let (w1, r) = compileNamedQuery w' q bt in k w1 r) = (v', x')"
  shows "cache_inv (v, own) \<and> cache_inv (v', own) \<and> x = x'"
proof -
  obtain w1 w1' r r' where c: "compileNamedQuery w q bt = (w1, r)" "compileNamedQuery w' q bt = (w1', r')"
    "cache_inv (w1, own)" "cache_inv (w1', own)" "deref_result w1 r = deref_result w1' r'" using compile_same [OF assms(1,2)] .
  from k [OF c(5)] c(1-4) run fst_k [of w1 r] fst_k [of w1' r'] show ?thesis by simp
qed

lemma deref_result_cases:
  assumes "deref_result w1 r = deref_result w1' r'"
  obtains (Ok) q a a' where "r = Ok (q, a)" "r' = Ok (q, a')" "read_slice w1 a = read_slice w1' a'"
    | (Err) v v' e where "r = Err v e" "r' = Err v' e"
    | (Panic) "r = Panic" "r' = Panic"
  using assms by (cases "(w1, r)" rule: deref_result.cases; cases "(w1', r')" rule: deref_result.cases) auto

lemma bindStruct_same:
  assumes "cache_inv (w, own)" and "cache_inv (w', own)"
    and "bindStruct E w bt q arg m = (v, x)" and "bindStruct E w' bt q arg m = (v', x')"
  shows "cache_inv (v, own) \<and> cache_inv (v', own) \<and> x = x'"
  by (rule compiled_same [OF assms(1,2) _ _ assms(3,4) [unfolded bindStruct_def]])
    (auto simp: Let_def elim!: deref_result_cases split: result.split)

lemma bindArray_same:
  assumes "cache_inv (w, own)" and "cache_inv (w', own)"
    and "bindArray E w bt q arg m = (v, x)" and "bindArray E w' bt q arg m = (v', x')"
  shows "cache_inv (v, own) \<and> cache_inv (v', own) \<and> x = x'"
proof (cases "\<exists>t vs. arg = VSeq t vs \<and> seq_elem t \<noteq> None \<and> vs \<noteq> []")
  case True
  then obtain t vs et where arg: "arg = VSeq t vs" "seq_elem t = Some et" "vs \<noteq> []" by auto
  note run = assms(3,4) [unfolded arg(1) bindArray_def gval.case arg(2) option.case length_0_conv if_not_P [OF arg(3)]]
  show ?thesis
    by (rule compiled_same [OF assms(1,2) _ _ run]) (auto simp: Let_def elim!: deref_result_cases split: result.split)
qed (use assms in \<open>auto simp: bindArray_def split: gval.splits option.splits if_splits\<close>)

lemma bindNamedMapper_same:
  assumes "cache_inv (w, own)" and "cache_inv (w', own)"
    and "bindNamedMapper E w bt q arg m = (v, x)" and "bindNamedMapper E w' bt q arg m = (v', x')"
  shows "cache_inv (v, own) \<and> cache_inv (v', own) \<and> x = x'"
proof (cases "\<exists>t mp. type_of arg = Some t \<and> kind_of (deref_all t) = KMap \<and>
    (case map_key (deref_all t) of None \<Rightarrow> False | Some kt \<Rightarrow> kind_of kt = KBasic BString) \<and> convertMapStringInterface arg = Ok (Some mp)")
  case True
  then obtain t mp where t: "type_of arg = Some t" "kind_of (deref_all t) = KMap"
      "(case map_key (deref_all t) of None \<Rightarrow> False | Some kt \<Rightarrow> kind_of kt = KBasic BString)" "convertMapStringInterface arg = Ok (Some mp)"
    by blast
  have "bindNamedMapper E u bt q arg m =
     (let (w1, r) = compileNamedQuery u q bt in
      case r of
        Err _ e \<Rightarrow> (w1, Err ([], []) (Errorf ''sqlx: error in compileNamedQuery (map): %w'' [] (Some e)))
      | Panic \<Rightarrow> (w1, Panic)
      | Ok (bound, ref) \<Rightarrow>
          (w1, case bindMapArgs (read_slice w1 ref) mp of
             Err arglist e \<Rightarrow> Err (bound, arglist) (Errorf ''sqlx: error in bindMapArgs: %w'' [] (Some e))
           | Panic \<Rightarrow> Panic
           | Ok arglist \<Rightarrow> Ok (bound, arglist)))" for u
    unfolding bindNamedMapper_def using t by simp
  note run = assms(3,4) [unfolded this]
  show ?thesis
    by (rule compiled_same [OF assms(1,2) _ _ run]) (auto elim!: deref_result_cases split: result.split)
next
  case False
  with assms bindStruct_same [OF assms(1,2)] bindArray_same [OF assms(1,2)] show ?thesis
    by (auto simp: bindNamedMapper_def Let_def split: option.splits if_splits result.splits)
qed

subsection \<open>The state of the package\<close>

definition sys_same :: "'w sql_api \<Rightarrow> mapper \<Rightarrow> 'w sys \<Rightarrow> 'w sys \<Rightarrow> bool" where
  "sys_same api m s s' \<longleftrightarrow>
     cache_inv (sy_cache s, {}) \<and> cache_inv (sy_cache s', {}) \<and> engine_same (api_types api) m (sy_engine s) (sy_engine s') \<and>
     sy_world s' = sy_world s \<and> sy_binds s' = sy_binds s \<and> sy_mem s' = sy_mem s \<and> sy_vals s' = sy_vals s"

text \<open>Forgetting what is kept between calls.\<close>

definition forget :: "'w sys \<Rightarrow> 'w sys" where
  "forget s = s\<lparr>sy_cache := init_cworld, sy_engine := fresh_engine (sy_engine s)\<rparr>"

lemma sys_same_forget: "sys_same api m s s' \<Longrightarrow> sys_same api m s (forget s')"
  using cache_reachable_inv [OF cache_reachable.start] engine_same_fresh by (auto simp: sys_same_def forget_def)

lemma forget_same: "sys_same api m s s' \<Longrightarrow> forget s = forget s'"
  by (cases s; cases s') (simp add: sys_same_def forget_def engine_same_def)

lemma forgotten_same: "forget s = s \<Longrightarrow> sys_same api m s s"
  using cache_reachable_inv [OF cache_reachable.start] engine_ok_fresh [of "api_types api" m "sy_engine s"]
  by (cases s) (auto simp: sys_same_def forget_def engine_same_def)

text \<open>Results alike but for what is kept, of operations that cannot panic.\<close>

abbreviation "both same \<equiv> rel_prod same (=)"

lemma bind_named_same:
  assumes "sys_same api m s s'"
  shows "both (sys_same api m) (bind_named api s d q a) (bind_named api s' d q a)"
proof -
  let ?bind = "\<lambda>w. bindNamedMapper (api_types api) w (BindType (sy_binds s) d) q a bindDefaultMapper"
  obtain c r c' r' where b: "?bind (sy_cache s) = (c, r)" "?bind (sy_cache s') = (c', r')"
    by (cases "?bind (sy_cache s)"; cases "?bind (sy_cache s')")
  from bindNamedMapper_same [OF _ _ b] assms b show ?thesis
    by (auto simp: bind_named_def BindNamed_def sys_same_def)
qed

lemma do_query_same: "sys_same api m s s' \<Longrightarrow> both (sys_same api m) (do_query api s ctx h q args) (do_query api s' ctx h q args)"
  by (simp add: do_query_def sys_same_def split: prod.split)

lemma do_stmt_query_same: "sys_same api m s s' \<Longrightarrow> both (sys_same api m) (do_stmt_query api s ctx st args) (do_stmt_query api s' ctx st args)"
  by (simp add: do_stmt_query_def sys_same_def split: prod.split)

lemma Exec_same: "sys_same api m s s' \<Longrightarrow> both (sys_same api m) (Exec api s ctx e q args) (Exec api s' ctx e q args)"
  by (simp add: Exec_def do_exec_def sys_same_def split: prod.split)

lemma Queryx_same:
  "sys_same api m s s' \<Longrightarrow> both (sys_same api m) (Ext_QueryxContext api s ctx e q args) (Ext_QueryxContext api s' ctx e q args)"
  by (cases e) (simp_all add: DB_QueryxContext_def Tx_QueryxContext_def Conn_QueryxContext_def do_query_def sys_same_def Let_def
      split: prod.split sum.split)

lemma run_select_same:
  assumes "sys_same api m s s'"
  shows "alike (sys_same api m) (run_select api s rows t isNil elems u st (Some m)) (run_select api s' rows t isNil elems u st (Some m))"
  using selectScan_same [of "api_types api" m "sy_engine s" "sy_engine s'" "api_conv api" rows t isNil u st "sy_mem s" "sy_vals s" elems] assms
  unfolding run_select_def by (auto simp: sys_same_def elim!: option.rel_cases)

lemma run_get_same:
  assumes "sys_same api m s s'"
  shows "alike (sys_same api m) (run_get api s rows t dest u st (Some m)) (run_get api s' rows t dest u st (Some m))"
  using getScan_same [of "api_types api" m "sy_engine s" "sy_engine s'" "api_conv api" rows t dest u st "sy_mem s" "sy_vals s"] assms
  unfolding run_get_def by (auto simp: sys_same_def elim!: option.rel_cases)

lemma SelectContext_same:
  assumes "sys_same api m s s'" and "snd (snd (extractMeta e)) = m"
  shows "alike (sys_same api m) (SelectContext api s ctx e t isNil elems q args) (SelectContext api s' ctx e t isNil elems q args)"
  using do_query_same [OF assms(1), of ctx "handle_of e" q args] assms(2) run_select_same unfolding SelectContext_def
  by (auto simp: Let_def split: prod.splits sum.splits)

lemma GetContext_same:
  assumes "sys_same api m s s'" and "snd (snd (extractMeta e)) = m"
  shows "alike (sys_same api m) (GetContext api s ctx e t dest q args) (GetContext api s' ctx e t dest q args)"
  using do_query_same [OF assms(1), of ctx "handle_of e" q args] assms(2) run_get_same unfolding GetContext_def
  by (auto simp: Let_def split: prod.splits sum.splits)

lemma iter_same:
  assumes "sys_same api m s s'" and "snd (snd (extractMeta e)) = m"
  shows "alike (sys_same api m) (SelectIter api s ctx e T q args body u) (SelectIter api s' ctx e T q args body u)"
proof -
  obtain s1 s1' r where q: "do_query api s ctx (handle_of e) q args = (s1, r)" "do_query api s' ctx (handle_of e) q args = (s1', r)"
      "sys_same api m s1 s1'"
    using do_query_same [OF assms(1), of ctx "handle_of e" q args] by (auto elim!: rel_prod.cases)
  obtain un st where m: "extractMeta e = (un, st, m)" using assms(2) by (cases "extractMeta e") auto
  have en: "engine_same (api_types api) m (sy_engine s1) (sy_engine s1')" "sy_mem s1' = sy_mem s1" "sy_vals s1' = sy_vals s1"
    using q(3) by (simp_all add: sys_same_def)
  show ?thesis
  proof (cases r)
    case (Inr rows)
    define t where "t = (if kind_of T = KPtr then Deref T else T)"
    let ?scan = "\<lambda>en. iterateScan (api_types api) (api_conv api) en rows t un st (Some m) (reflect_New t)
      (iter_yield (kind_of T = KPtr) body) (sy_mem s1) (sy_vals s1) (u, False)"
    note run = q Inr m en(2,3) t_def [symmetric]
    from iterateScan_same [OF en(1)] have "alike (engine_same (api_types api) m) (?scan (sy_engine s1)) (?scan (sy_engine s1'))" .
    then show ?thesis
    proof cases
      case None
      then show ?thesis unfolding SelectIter_def by (simp add: run Let_def)
    next
      case (Some x y)
      obtain en1 rows1 mem vals u1 panicked err where x: "x = (en1, rows1, mem, vals, (u1, panicked), err)" by (metis surj_pair)
      with Some(3) obtain en1' where y: "y = (en1', rows1, mem, vals, (u1, panicked), err)" "engine_same (api_types api) m en1 en1'"
        by (auto elim!: rel_prod.cases)
      show ?thesis using q(3) y(2) unfolding SelectIter_def
        by (cases err) (simp_all add: run Let_def Some(1,2) x y(1) sys_same_def)
    qed
  qed (use q in \<open>simp add: SelectIter_def\<close>)
qed

lemma SelectG_body_same:
  assumes "sys_same api m s s'"
  shows "alike (sys_same api m) (SelectG_body api s rows T u st m) (SelectG_body api s' rows T u st m)"
proof (cases "rows_Columns rows")
  case (Ok columns)
  have same: "engine_same (api_types api) m (sy_engine s) (sy_engine s')" "sy_mem s' = sy_mem s" "sy_vals s' = sy_vals s"
    using assms by (simp_all add: sys_same_def)
  let ?t = "if kind_of T = KPtr then Deref T else T"
  from same(1) show ?thesis
  proof (cases rule: plan_cases [where t = ?t and st = st and columns = columns and u = u])
    case early
    with Ok assms show ?thesis by (auto simp: SelectG_body_def sys_same_def Let_def split: option.split)
  next
    case (plan tm c c' r)
    with Ok same(2,3) assms show ?thesis by (cases r) (auto simp: SelectG_body_def sys_same_def Let_def split: option.split)
  qed
qed (use assms in \<open>simp_all add: SelectG_body_def\<close>)

lemma GetG_body_same:
  assumes "sys_same api m s s'"
  shows "alike (sys_same api m) (GetG_body api s rows T u st m) (GetG_body api s' rows T u st m)"
proof (cases "rows_Columns rows")
  case (Ok columns)
  have same: "engine_same (api_types api) m (sy_engine s) (sy_engine s')" "sy_mem s' = sy_mem s" "sy_vals s' = sy_vals s"
    using assms by (simp_all add: sys_same_def)
  let ?t = "if kind_of T = KPtr then Deref T else T"
  from same(1) show ?thesis
  proof (cases rule: plan_cases [where t = ?t and st = st and columns = columns and u = u])
    case early
    with Ok assms show ?thesis by (auto simp: GetG_body_def sys_same_def Let_def split: option.split)
  next
    case (plan tm c c' r)
    with Ok same(2,3) assms show ?thesis by (cases r) (auto simp: GetG_body_def sys_same_def Let_def split: option.split)
  qed
qed (use assms in \<open>simp_all add: GetG_body_def\<close>)

lemma gen_close_same: "alike same x y \<Longrightarrow> alike same (gen_close x) (gen_close y)"
  by (auto simp: gen_close_def elim!: option.rel_cases split: prod.split)

lemma SelectG_same:
  assumes "sys_same api m s s'" and "snd (snd (extractMeta e)) = m"
  shows "alike (sys_same api m) (SelectG api s ctx e T q args) (SelectG api s' ctx e T q args)"
  using do_query_same [OF assms(1), of ctx "handle_of e" q args] assms(2) gen_close_same [OF SelectG_body_same] unfolding SelectG_def
  by (auto simp: Let_def split: prod.splits sum.splits)

lemma GetG_same:
  assumes "sys_same api m s s'" and "snd (snd (extractMeta e)) = m"
  shows "alike (sys_same api m) (GetG api s ctx e T q args) (GetG api s' ctx e T q args)"
  using do_query_same [OF assms(1), of ctx "handle_of e" q args] assms(2) gen_close_same [OF GetG_body_same] unfolding GetG_def
  by (auto simp: Let_def split: prod.splits sum.splits)

subsection \<open>Clients\<close>

text \<open>
  A call on a handle: with a named query, as in the client of a prepared statement; with a query of its own; or a generic one.
  The caller's loop body works on a state of its own.
\<close>

datatype 'u api_call =
    NamedCall executor string bound_call
  | ExecuteCall ctx executor string "gval list"
  | QueryxCall ctx executor string "gval list"
  | SelectCall ctx executor gtype bool "slice_item list" string "gval list"
  | GetCall ctx executor gtype addr string "gval list"
  | SelectGCall ctx executor gtype string "gval list"
  | GetGCall ctx executor gtype string "gval list"
  | IterCall ctx executor gtype string "gval list" "'u body" 'u

fun call_handle :: "'u api_call \<Rightarrow> executor" where
  "call_handle (NamedCall e query call) = e"
| "call_handle (ExecuteCall ctx e query args) = e"
| "call_handle (QueryxCall ctx e query args) = e"
| "call_handle (SelectCall ctx e t isNil elems query args) = e"
| "call_handle (GetCall ctx e t dest query args) = e"
| "call_handle (SelectGCall ctx e t query args) = e"
| "call_handle (GetGCall ctx e t query args) = e"
| "call_handle (IterCall ctx e t query args body u) = e"

datatype 'u api_outcome =
    HandleOutcome outcome
  | SliceOutcome gen_slice "go_error option"
  | ValueOutcome "addr option" "go_error option"
  | IterOutcome 'u
  | CallPanicked

fun outcome_of :: "('r \<Rightarrow> 'u api_outcome) \<Rightarrow> ('w sys \<times> 'r) option \<Rightarrow> 'w sys option \<times> 'u api_outcome" where
  "outcome_of f None = (None, CallPanicked)"
| "outcome_of f (Some (s, r)) = (Some s, f r)"

fun api_client :: "'w sql_api \<Rightarrow> 'w sys option \<Rightarrow> 'u api_call \<Rightarrow> 'w sys option \<times> 'u api_outcome" where
  "api_client api None call = (None, CallPanicked)"
| "api_client api (Some s) (NamedCall e query call) = apsnd HandleOutcome (direct_client api e query (Some s) call)"
| "api_client api (Some s) (ExecuteCall ctx e query args) = apsnd HandleOutcome (exec_outcome (Exec api s ctx e query args))"
| "api_client api (Some s) (QueryxCall ctx e query args) = apsnd HandleOutcome (query_outcome (Ext_QueryxContext api s ctx e query args))"
| "api_client api (Some s) (SelectCall ctx e t isNil elems query args) =
     apsnd HandleOutcome (select_outcome (SelectContext api s ctx e t isNil elems query args))"
| "api_client api (Some s) (GetCall ctx e t dest query args) =
     apsnd HandleOutcome (get_outcome (GetContext api s ctx e t dest query args))"
| "api_client api (Some s) (SelectGCall ctx e t query args) =
     outcome_of (\<lambda>(r, err). SliceOutcome r err) (SelectG api s ctx e t query args)"
| "api_client api (Some s) (GetGCall ctx e t query args) =
     outcome_of (\<lambda>(r, err). ValueOutcome r err) (GetG api s ctx e t query args)"
| "api_client api (Some s) (IterCall ctx e t query args body u) = outcome_of IterOutcome (SelectIter api s ctx e t query args body u)"

text \<open>The machine that keeps nothing.\<close>

definition forgetful_client :: "'w sql_api \<Rightarrow> 'w sys option \<Rightarrow> 'u api_call \<Rightarrow> 'w sys option \<times> 'u api_outcome" where
  "forgetful_client api t call = api_client api (map_option forget t) call"

abbreviation "run_same same \<equiv> rel_prod (rel_option same) (=)"

lemma exec_outcome_same: "both same x y \<Longrightarrow> run_same same (exec_outcome x) (exec_outcome y)"
  by (cases x rule: exec_outcome.cases; cases y rule: exec_outcome.cases) auto

lemma query_outcome_same: "both same x y \<Longrightarrow> run_same same (query_outcome x) (query_outcome y)"
  by (cases x rule: query_outcome.cases; cases y rule: query_outcome.cases) auto

lemma option_outcome_same:
  "alike same a b \<Longrightarrow> run_same same (select_outcome a) (select_outcome b)"
  "alike same c d \<Longrightarrow> run_same same (get_outcome c) (get_outcome d)"
  "alike same i j \<Longrightarrow> run_same same (outcome_of f i) (outcome_of f j)"
  by (auto elim!: option.rel_cases)

lemmas outcome_same = exec_outcome_same query_outcome_same option_outcome_same

lemma named_same:
  assumes "sys_same api m s s'"
  shows "both (sys_same api m) (NamedExecContext api s ctx e q a) (NamedExecContext api s' ctx e q a)"
    and "both (sys_same api m) (NamedQueryContext api s ctx e q a) (NamedQueryContext api s' ctx e q a)"
    and "snd (snd (extractMeta e)) = m \<Longrightarrow>
      alike (sys_same api m) (select_bound api s ctx e q t isNil elems a) (select_bound api s' ctx e q t isNil elems a)"
    and "snd (snd (extractMeta e)) = m \<Longrightarrow> alike (sys_same api m) (get_bound api s ctx e q t dest a) (get_bound api s' ctx e q t dest a)"
proof -
  obtain s1 s1' r where b: "bind_named api s (extractDriverName e) q a = (s1, r)" "bind_named api s' (extractDriverName e) q a = (s1', r)"
      "sys_same api m s1 s1'"
    using bind_named_same [OF assms, of "extractDriverName e" q a] by (auto elim!: rel_prod.cases)
  show "both (sys_same api m) (NamedExecContext api s ctx e q a) (NamedExecContext api s' ctx e q a)"
    using b Exec_same [OF b(3)] by (auto simp: NamedExecContext_def split: result.split)
  show "both (sys_same api m) (NamedQueryContext api s ctx e q a) (NamedQueryContext api s' ctx e q a)"
    using b Queryx_same [OF b(3)] by (auto simp: NamedQueryContext_def split: result.split)
  show "alike (sys_same api m) (select_bound api s ctx e q t isNil elems a) (select_bound api s' ctx e q t isNil elems a)"
    if "snd (snd (extractMeta e)) = m"
    using b SelectContext_same [OF b(3) that] by (auto simp: select_bound_def split: result.split)
  show "alike (sys_same api m) (get_bound api s ctx e q t dest a) (get_bound api s' ctx e q t dest a)"
    if "snd (snd (extractMeta e)) = m"
    using b GetContext_same [OF b(3) that] by (auto simp: get_bound_def split: result.split)
qed

lemma apsnd_same: "run_same same x y \<Longrightarrow> run_same same (apsnd f x) (apsnd f y)"
  by (cases x; cases y) simp

lemma direct_client_same:
  assumes "sys_same api m s s'" and "snd (snd (extractMeta e)) = m"
  shows "run_same (sys_same api m) (direct_client api e query (Some s) call) (direct_client api e query (Some s') call)"
  using named_same [OF assms(1)] assms(2) by (cases call) (simp_all add: outcome_same)

lemma api_client_same:
  assumes "sys_same api m s s'" and "snd (snd (extractMeta (call_handle call))) = m"
  shows "run_same (sys_same api m) (api_client api (Some s) call) (api_client api (Some s') call)"
  using assms
  by (cases call)
    (simp_all add: apsnd_same outcome_same direct_client_same Exec_same Queryx_same SelectContext_same GetContext_same SelectG_same
      GetG_same iter_same)

interpretation forgetful: simulation "api_client api" "forgetful_client api" "rel_option (sys_same api m)"
  "\<lambda>call. snd (snd (extractMeta (call_handle call))) = m" for api m
proof unfold_locales
  fix t u call t1 r
  assume h: "rel_option (sys_same api m) t u" "snd (snd (extractMeta (call_handle call))) = m" "api_client api t call = (t1, r)"
  from h(1) show "\<exists>u1. forgetful_client api u call = (u1, r) \<and> rel_option (sys_same api m) t1 u1"
  proof cases
    case (Some s s')
    from api_client_same [OF sys_same_forget [OF Some(3)] h(2)] h(3) Some(1,2) show ?thesis
      by (auto simp: forgetful_client_def elim!: rel_prod.cases)
  qed (use h(3) in \<open>simp add: forgetful_client_def\<close>)
qed

text \<open>
  C4. Nothing the package keeps can be seen: in a program that starts with empty caches and whose handles share a mapper, whatever sequence of \<open>NamedExec\<close>, \<open>NamedQuery\<close>,
  \<open>Exec\<close>, \<open>Queryx\<close>, \<open>Select\<close>, \<open>Get\<close>, \<open>SelectG\<close>, \<open>GetG\<close> and \<open>SelectIter\<close> calls it makes on any handles, batches and calls that fail included, each
  call returns what it would return if compiled queries, scan plans and pooled destinations were thrown away before every
  call, and database and memory end the same.
\<close>

theorem caches_invisible:
  assumes "forget s = s" and "list_all (\<lambda>call. snd (snd (extractMeta (call_handle call))) = m) calls"
  shows "snd (run_ops (api_client api) (Some s) calls) = snd (run_ops (forgetful_client api) (Some s) calls) \<and>
    map_option forget (fst (run_ops (api_client api) (Some s) calls)) = map_option forget (fst (run_ops (forgetful_client api) (Some s) calls))"
proof -
  obtain t outs where run: "run_ops (api_client api) (Some s) calls = (t, outs)" by (cases "run_ops (api_client api) (Some s) calls")
  have "rel_option (sys_same api m) (Some s) (Some s)" using forgotten_same [OF assms(1)] by simp
  from forgetful.run_simulates [OF this assms(2) run] obtain u
    where u: "run_ops (forgetful_client api) (Some s) calls = (u, outs)" "rel_option (sys_same api m) t u" by blast
  from u(2) have "map_option forget t = map_option forget u" by cases (auto dest: forget_same)
  with run u show ?thesis by simp
qed

definition sample_calls :: "unit api_call list" where
  "sample_calls =
     [NamedCall (XDB sample_db) ''id=:id '' (ExecWith Background id_map),
      SelectCall Background (XDB sample_db) (TPtr (TSlice (TStruct ''Person''))) False [] ''q'' [],
      NamedCall (XDB sample_db) ''id=:id '' (ExecWith Background id_map),
      SelectCall Background (XDB sample_db) (TPtr (TSlice (TStruct ''Person''))) False [] ''q'' []]"

theorem caches_invisible_witness:
  "case snd (run_ops (forgetful_client (sample_api person_rs)) (Some sample_sys) sample_calls) of
      [HandleOutcome (Executed (Gives r1)), HandleOutcome (SliceFilled xs None), HandleOutcome (Executed (Gives r2)), HandleOutcome (SliceFilled ys None)] \<Rightarrow>
        r1 = Some 0 \<and> r2 = Some 2 \<and> xs \<noteq> [] \<and> length ys = length xs
    | _ \<Rightarrow> False"
proof -
  have "case snd (run_ops (api_client (sample_api person_rs)) (Some sample_sys) sample_calls) of
      [HandleOutcome (Executed (Gives r1)), HandleOutcome (SliceFilled xs None), HandleOutcome (Executed (Gives r2)), HandleOutcome (SliceFilled ys None)] \<Rightarrow>
        r1 = Some 0 \<and> r2 = Some 2 \<and> xs \<noteq> [] \<and> length ys = length xs
    | _ \<Rightarrow> False" by code_simp
  moreover have "list_all (\<lambda>call. snd (snd (extractMeta (call_handle call))) = defaultMapper) sample_calls"
    by (simp add: sample_calls_def sample_db_def or_default_def)
  moreover have "forget sample_sys = sample_sys" by (simp add: forget_def sample_sys_def fresh_engine_def sample_engine_def)
  ultimately show ?thesis using caches_invisible [of sample_sys defaultMapper sample_calls "sample_api person_rs"] by simp
qed

end
