(* ===== verification/Type_Flight.thy ===== *)
theory Type_Flight
  imports Reflectx_TypeMap
begin

text \<open>
  \<open>TypeMap\<close> called by any number of goroutines.  A \<open>*StructMap\<close> is shared by all that use the type, so here it is a
  pointer into a heap; the steps are the atomic ones: the \<open>Load\<close> outside, the decision of \<open>singleflight\<close> to run the
  function or to let the call wait for a run in progress, the \<open>Load\<close> inside, and the \<open>Store\<close>.
\<close>

subsection \<open>Goroutines and their steps\<close>

text \<open>The heap keeps with each map the type it was made for.\<close>

record tm_world =
  tw_cache :: "(gtype, nat) sync_map"
  tw_heap :: "nat \<Rightarrow> (gtype \<times> struct_map) option"
  tw_next :: nat

definition init_tm_world :: tm_world where
  "init_tm_world = \<lparr>tw_cache = sync_empty, tw_heap = Map.empty, tw_next = 0\<rparr>"

text \<open>
  \<open>Called\<close>: the outer \<open>Load\<close> missed.  \<open>Flying\<close>: this goroutine runs the function.  \<open>Mapping\<close>: the inner \<open>Load\<close> missed too.
  \<open>Landing\<close>: the function has its result.  \<open>Waiting t j\<close>: the result of goroutine \<open>j\<close> will be shared.
\<close>

datatype tm_call = Resting | Called gtype | Flying gtype | Mapping gtype | Landing gtype nat | Waiting gtype nat | Got gtype nat

fun flying :: "tm_call \<Rightarrow> gtype option" where
  "flying (Flying t) = Some t"
| "flying (Mapping t) = Some t"
| "flying (Landing t p) = Some t"
| "flying _ = None"

fun in_call :: "tm_call \<Rightarrow> bool" where
  "in_call Resting = False"
| "in_call (Got t p) = False"
| "in_call _ = True"

definition looked_up :: "gtype \<Rightarrow> gtype" where
  "looked_up ty = (if kind_of ty = KPtr then Deref ty else ty)"

definition store_map :: "tm_world \<Rightarrow> gtype \<Rightarrow> struct_map \<Rightarrow> tm_world" where
  "store_map w t sm =
     w\<lparr>tw_cache := sync_store (tw_cache w) t (tw_next w), tw_heap := (tw_heap w)(tw_next w \<mapsto> (t, sm)), tw_next := Suc (tw_next w)\<rparr>"

text \<open>
  \<open>singleflight\<close> decides: \<open>starts gs t\<close> when a call for \<open>t\<close> runs the function, \<open>joins gs j t\<close> when it waits for \<open>j\<close>.  A panic of
  \<open>mapType\<close> ends the program, so there is no step after it.
\<close>

inductive tm_step ::
  "tenv \<Rightarrow> mapper \<Rightarrow> ((nat \<Rightarrow> tm_call) \<Rightarrow> gtype \<Rightarrow> bool) \<Rightarrow> ((nat \<Rightarrow> tm_call) \<Rightarrow> nat \<Rightarrow> gtype \<Rightarrow> bool) \<Rightarrow>
   tm_world \<times> (nat \<Rightarrow> tm_call) \<Rightarrow> tm_world \<times> (nat \<Rightarrow> tm_call) \<Rightarrow> bool"
  for E m starts joins where
  load_hit: "\<not> in_call (gs i) \<Longrightarrow> sync_load (tw_cache w) (looked_up ty) = Some p \<Longrightarrow>
    tm_step E m starts joins (w, gs) (w, gs(i := Got (looked_up ty) p))"
| load_miss: "\<not> in_call (gs i) \<Longrightarrow> sync_load (tw_cache w) (looked_up ty) = None \<Longrightarrow>
    tm_step E m starts joins (w, gs) (w, gs(i := Called (looked_up ty)))"
| start: "gs i = Called t \<Longrightarrow> starts gs t \<Longrightarrow> tm_step E m starts joins (w, gs) (w, gs(i := Flying t))"
| join: "gs i = Called t \<Longrightarrow> joins gs j t \<Longrightarrow> tm_step E m starts joins (w, gs) (w, gs(i := Waiting t j))"
| check_hit: "gs i = Flying t \<Longrightarrow> sync_load (tw_cache w) t = Some p \<Longrightarrow>
    tm_step E m starts joins (w, gs) (w, gs(i := Landing t p))"
| check_miss: "gs i = Flying t \<Longrightarrow> sync_load (tw_cache w) t = None \<Longrightarrow>
    tm_step E m starts joins (w, gs) (w, gs(i := Mapping t))"
| store: "gs i = Mapping t \<Longrightarrow> mapType E m t = Some sm \<Longrightarrow>
    tm_step E m starts joins (w, gs) (store_map w t sm, gs(i := Landing t (tw_next w)))"
| land: "gs i = Landing t p \<Longrightarrow>
    tm_step E m starts joins (w, gs) (w, \<lambda>k. if k = i \<or> gs k = Waiting t i then Got t p else gs k)"

inductive_cases tm_stepE: "tm_step E m starts joins (w, gs) (w', gs')"

text \<open>
  What \<open>singleflight\<close> promises: for one key it starts no run while another is in progress, and a call that waits waits for a
  run of its key that is in progress.  The keys are different for different types, since they hold the address of the type.
\<close>

definition singleflight_ok ::
  "((nat \<Rightarrow> tm_call) \<Rightarrow> gtype \<Rightarrow> bool) \<Rightarrow> ((nat \<Rightarrow> tm_call) \<Rightarrow> nat \<Rightarrow> gtype \<Rightarrow> bool) \<Rightarrow> bool" where
  "singleflight_ok starts joins \<longleftrightarrow>
     (\<forall>gs t j. starts gs t \<longrightarrow> flying (gs j) \<noteq> Some t) \<and> (\<forall>gs j t. joins gs j t \<longrightarrow> flying (gs j) = Some t)"

subsection \<open>The invariant\<close>

text \<open>What holds of the call of one goroutine \<open>i\<close>.\<close>

fun call_ok :: "tm_world \<Rightarrow> (nat \<Rightarrow> tm_call) \<Rightarrow> tm_call \<Rightarrow> bool" where
  "call_ok w gs (Mapping t) \<longleftrightarrow> tw_cache w t = None"
| "call_ok w gs (Landing t p) \<longleftrightarrow> tw_cache w t = Some p"
| "call_ok w gs (Got t p) \<longleftrightarrow> tw_cache w t = Some p"
| "call_ok w gs (Waiting t j) \<longleftrightarrow> flying (gs j) = Some t"
| "call_ok w gs _ \<longleftrightarrow> True"

definition one_flight :: "(nat \<Rightarrow> tm_call) \<Rightarrow> bool" where
  "one_flight gs \<longleftrightarrow> (\<forall>i j t. flying (gs i) = Some t \<longrightarrow> flying (gs j) = Some t \<longrightarrow> i = j)"

definition heap_sound :: "tenv \<Rightarrow> mapper \<Rightarrow> tm_world \<Rightarrow> bool" where
  "heap_sound E m w \<longleftrightarrow>
     (\<forall>t p. tw_cache w t = Some p \<longrightarrow> (\<exists>sm. tw_heap w p = Some (t, sm))) \<and>
     (\<forall>t p sm. tw_heap w p = Some (t, sm) \<longrightarrow> p < tw_next w \<and> tw_cache w t = Some p \<and> mapType E m t = Some sm)"

lemma heap_soundD:
  "heap_sound E m w \<Longrightarrow> tw_cache w t = Some p \<Longrightarrow> \<exists>sm. tw_heap w p = Some (t, sm) \<and> mapType E m t = Some sm"
  unfolding heap_sound_def by blast

definition tm_inv :: "tenv \<Rightarrow> mapper \<Rightarrow> tm_world \<times> (nat \<Rightarrow> tm_call) \<Rightarrow> bool" where
  "tm_inv E m s \<longleftrightarrow> (case s of (w, gs) \<Rightarrow> heap_sound E m w \<and> one_flight gs \<and> (\<forall>i. call_ok w gs (gs i)))"

lemma tm_invI: "heap_sound E m w \<Longrightarrow> one_flight gs \<Longrightarrow> (\<And>i. call_ok w gs (gs i)) \<Longrightarrow> tm_inv E m (w, gs)"
  by (simp add: tm_inv_def)

lemma tm_invD: "tm_inv E m (w, gs) \<Longrightarrow> heap_sound E m w \<and> one_flight gs \<and> call_ok w gs (gs i)"
  by (simp add: tm_inv_def)

lemma one_flight_upd:
  "one_flight gs \<Longrightarrow> (\<And>t. flying c = Some t \<Longrightarrow> flying (gs i) = Some t \<or> (\<forall>j. flying (gs j) \<noteq> Some t)) \<Longrightarrow> one_flight (gs(i := c))"
  unfolding one_flight_def by (metis fun_upd_apply)

text \<open>A goroutine that goes on without ending a run disturbs no other.\<close>

lemma call_ok_upd:
  assumes "call_ok w gs c" and "flying (gs i) = None \<or> flying c' = flying (gs i)"
  shows "call_ok w (gs(i := c')) c"
  using assms by (cases c) auto

lemma store_map_sound:
  assumes "heap_sound E m w" and "tw_cache w t = None" and "mapType E m t = Some sm"
  shows "heap_sound E m (store_map w t sm)"
proof -
  have old: "tw_cache w u = Some p \<Longrightarrow> p \<noteq> tw_next w" "tw_heap w p = Some (u, s) \<Longrightarrow> p < tw_next w \<and> u \<noteq> t" for u p s
    using assms(1,2) by (fastforce simp: heap_sound_def)+
  with assms show ?thesis by (auto simp: heap_sound_def store_map_def sync_store_def less_Suc_eq)
qed

lemma call_ok_store: "tw_cache w t = None \<Longrightarrow> call_ok w gs c \<Longrightarrow> c \<noteq> Mapping t \<Longrightarrow> call_ok (store_map w t sm) gs c"
  by (cases c) (auto simp: store_map_def sync_store_def)

lemma tm_step_inv: "tm_step E m starts joins s s' \<Longrightarrow> singleflight_ok starts joins \<Longrightarrow> tm_inv E m s \<Longrightarrow> tm_inv E m s'"
proof (induction rule: tm_step.induct)
  case (load_hit gs i w ty p)
  note h = tm_invD [OF load_hit.prems(2)]
  show ?case
    by (rule tm_invI) (use h load_hit.hyps in \<open>cases "gs i"; auto intro!: one_flight_upd call_ok_upd simp: sync_load_def\<close>)+
next
  case (load_miss gs i w ty)
  note h = tm_invD [OF load_miss.prems(2)]
  show ?case
    by (rule tm_invI) (use h load_miss.hyps(1) in \<open>cases "gs i"; auto intro!: one_flight_upd call_ok_upd\<close>)+
next
  case (start gs i t w)
  note h = tm_invD [OF start.prems(2)]
  show ?case
    by (rule tm_invI) (use h start.hyps start.prems(1) in \<open>auto intro!: one_flight_upd call_ok_upd simp: singleflight_ok_def\<close>)
next
  case (join gs i t j w)
  note h = tm_invD [OF join.prems(2)]
  have fj: "flying (gs j) = Some t" using join.hyps(2) join.prems(1) by (simp add: singleflight_ok_def)
  show ?case
    by (rule tm_invI) (use h join.hyps(1) fj in \<open>auto intro!: one_flight_upd call_ok_upd\<close>)
next
  case (check_hit gs i t w p)
  note h = tm_invD [OF check_hit.prems(2)]
  show ?case
    by (rule tm_invI) (use h check_hit.hyps in \<open>auto intro!: one_flight_upd call_ok_upd simp: sync_load_def\<close>)
next
  case (check_miss gs i t w)
  note h = tm_invD [OF check_miss.prems(2)]
  show ?case
    by (rule tm_invI) (use h check_miss.hyps in \<open>auto intro!: one_flight_upd call_ok_upd simp: sync_load_def\<close>)
next
  case (store gs i t sm w)
  note h = tm_invD [OF store.prems(2)]
  have none: "tw_cache w t = None" using h [of i] store.hyps(1) by simp
  have alone: "gs k = Mapping t \<Longrightarrow> k = i" for k using h [of i] store.hyps(1) by (auto simp: one_flight_def)
  have ok: "call_ok (store_map w t sm) gs (gs k)" if "k \<noteq> i" for k
    using call_ok_store [OF none] h [of k] alone [of k] that by blast
  have "heap_sound E m (store_map w t sm)" using store_map_sound [OF _ none store.hyps(2)] h by blast
  moreover have "call_ok (store_map w t sm) (gs(i := Landing t (tw_next w))) ((gs(i := Landing t (tw_next w))) k)" for k
    using ok [of k] store.hyps(1) by (auto intro!: call_ok_upd simp: store_map_def sync_store_def)
  ultimately show ?case using h store.hyps(1) by (intro tm_invI) (auto intro!: one_flight_upd)
next
  case (land gs i t p w)
  note h = tm_invD [OF land.prems(2)]
  let ?gs = "\<lambda>k. if k = i \<or> gs k = Waiting t i then Got t p else gs k"
  have fly: "flying (?gs k) = (if k = i then None else flying (gs k))" for k by (auto split: tm_call.split)
  have at: "tw_cache w t = Some p" using h [of i] land.hyps(1) by simp
  have "call_ok w ?gs (?gs k)" for k
    using h [of k] h [of i] land.hyps(1) at by (cases "gs k") (auto simp: fly)
  moreover have "one_flight ?gs" using h unfolding one_flight_def fly by auto
  ultimately show ?case using h by (intro tm_invI) auto
qed

text \<open>With the pointers followed, the only step that changes the cache is \<open>map_and_store\<close>.\<close>

definition followed :: "tm_world \<Rightarrow> type_cache" where
  "followed w = (\<lambda>t. Option.bind (tw_cache w t) (\<lambda>p. map_option snd (tw_heap w p)))"

lemma followed_sound: "heap_sound E m w \<Longrightarrow> cache_sound E m (followed w)"
  unfolding cache_sound_def sync_memo.agrees_def
  by (auto simp: followed_def sync_load_def bind_eq_Some_conv dest!: heap_soundD)

lemma followed_store:
  assumes "heap_sound E m w" and "tw_cache w t = None" and "mapType E m t = Some sm"
  shows "(followed (store_map w t sm), Some sm) = map_and_store E m t (followed w)"
proof -
  have "tw_cache w u \<noteq> Some (tw_next w)" for u using assms(1) by (fastforce simp: heap_sound_def)
  with assms show ?thesis
    by (auto simp: map_and_store_def followed_def store_map_def sync_load_def sync_store_def fun_eq_iff bind_eq_Some_conv
        split: bind_split)
qed

lemma tm_step_followed:
  "tm_step E m starts joins s s' \<Longrightarrow> tm_inv E m s \<Longrightarrow>
     followed (fst s') = followed (fst s) \<or> (\<exists>t sm. (followed (fst s'), Some sm) = map_and_store E m t (followed (fst s)))"
proof (induction rule: tm_step.induct)
  case (store gs i t sm w)
  from tm_invD [OF store(3), of i] store(1) followed_store [OF _ _ store(2)] show ?case by fastforce
qed simp_all

lemma init_tm_inv: "tm_inv E m (init_tm_world, \<lambda>_. Resting)"
  by (simp add: tm_inv_def init_tm_world_def heap_sound_def one_flight_def sync_empty_def)

abbreviation tm_run where
  "tm_run E m starts joins \<equiv> (tm_step E m starts joins)\<^sup>*\<^sup>*"

lemma tm_run_inv: "tm_run E m starts joins s s' \<Longrightarrow> singleflight_ok starts joins \<Longrightarrow> tm_inv E m s \<Longrightarrow> tm_inv E m s'"
  by (induction rule: rtranclp_induct) (blast intro: tm_step_inv)+

lemma tm_reachable_inv:
  "tm_run E m starts joins (init_tm_world, \<lambda>_. Resting) s \<Longrightarrow> singleflight_ok starts joins \<Longrightarrow> tm_inv E m s"
  using tm_run_inv init_tm_inv by blast

text \<open>What is in the cache stays there, and so does the map it points to.\<close>

lemma tm_step_mono:
  assumes "tm_step E m starts joins (w, gs) (w', gs')" and "tm_inv E m (w, gs)"
  shows "tw_cache w \<subseteq>\<^sub>m tw_cache w'"
proof -
  have "gs i = Mapping t \<Longrightarrow> tw_cache w t = None" for i t using tm_invD [OF assms(2), of i] by simp
  with assms(1) show ?thesis by (auto elim!: tm_stepE simp: map_le_def store_map_def sync_store_def)
qed

lemma tm_run_mono:
  "tm_run E m starts joins s s' \<Longrightarrow> singleflight_ok starts joins \<Longrightarrow> tm_inv E m s \<Longrightarrow> tw_cache (fst s) \<subseteq>\<^sub>m tw_cache (fst s')"
proof (induction rule: rtranclp_induct)
  case (step s1 s2)
  from tm_run_inv [OF step(1,4,5)] step(2) tm_step_mono have "tw_cache (fst s1) \<subseteq>\<^sub>m tw_cache (fst s2)"
    by (cases s1; cases s2) auto
  with step show ?case by (blast intro: map_le_trans)
qed simp

text \<open>
  C15. A type is mapped once: however any number of goroutines calling \<open>TypeMap\<close> interleave, \<open>mapType\<close> makes at most one map per type,
  the pointer a call returns points to what \<open>mapType\<close> computes for its type, at once and ever after, and all calls for a type, at the same
  time or later, return the same pointer.
\<close>

theorem TypeMap_once:
  assumes "singleflight_ok starts joins"
    and "(tm_step E m starts joins)\<^sup>*\<^sup>* (init_tm_world, \<lambda>_. Resting) (w, gs)"
    and "(tm_step E m starts joins)\<^sup>*\<^sup>* (w, gs) (w', gs')"
  shows "(\<forall>t p sm q sm'. tw_heap w p = Some (t, sm) \<longrightarrow> tw_heap w q = Some (t, sm') \<longrightarrow> p = q) \<and>
    (\<forall>i t p. gs i = Got t p \<longrightarrow> (\<exists>sm. tw_heap w' p = Some (t, sm) \<and> mapType E m t = Some sm)) \<and>
    (\<forall>i j t p q. gs i = Got t p \<longrightarrow> gs' j = Got t q \<longrightarrow> p = q)"
proof -
  note inv = tm_reachable_inv [OF assms(2,1)] and inv' = tm_run_inv [OF assms(3,1) tm_reachable_inv [OF assms(2,1)]]
  have mono: "tw_cache w \<subseteq>\<^sub>m tw_cache w'" using tm_run_mono [OF assms(3,1) inv] by simp
  have later: "tw_cache w' t = Some p" if "gs i = Got t p" for i t p
    using tm_invD [OF inv, of i] that mono by (auto simp: map_le_def dom_def)
  have last: "tw_cache w' t = Some q" if "gs' j = Got t q" for j t q using tm_invD [OF inv', of j] that by simp
  have "p = q" if "tw_heap w p = Some (t, sm)" "tw_heap w q = Some (t, sm')" for t p sm q sm'
  proof -
    have "tw_cache w t = Some p" "tw_cache w t = Some q" using tm_invD [OF inv] that unfolding heap_sound_def by blast+
    then show ?thesis by simp
  qed
  moreover have "\<exists>sm. tw_heap w' p = Some (t, sm) \<and> mapType E m t = Some sm" if "gs i = Got t p" for i t p
    using heap_soundD [OF _ later [OF that]] tm_invD [OF inv'] by blast
  moreover have "p = q" if "gs i = Got t p" "gs' j = Got t q" for i j t p q
    using later [OF that(1)] last [OF that(2)] by simp
  ultimately show ?thesis by blast
qed

subsection \<open>Every call ends\<close>

text \<open>How many steps a call still needs, and the type it asks for.\<close>

fun calls_left :: "tm_call \<Rightarrow> nat" where
  "calls_left (Called t) = 4"
| "calls_left (Flying t) = 3"
| "calls_left (Mapping t) = 2"
| "calls_left (Landing t p) = 1"
| "calls_left (Waiting t j) = 1"
| "calls_left _ = 0"

fun asked :: "tm_call \<Rightarrow> gtype option" where
  "asked Resting = None"
| "asked (Called t) = Some t"
| "asked (Flying t) = Some t"
| "asked (Mapping t) = Some t"
| "asked (Landing t p) = Some t"
| "asked (Waiting t j) = Some t"
| "asked (Got t p) = Some t"

lemma in_call_left: "in_call c \<longleftrightarrow> 0 < calls_left c"
  by (cases c) simp_all

text \<open>No call is ever refused: it runs the function or waits.\<close>

definition singleflight_live ::
  "((nat \<Rightarrow> tm_call) \<Rightarrow> gtype \<Rightarrow> bool) \<Rightarrow> ((nat \<Rightarrow> tm_call) \<Rightarrow> nat \<Rightarrow> gtype \<Rightarrow> bool) \<Rightarrow> bool" where
  "singleflight_live starts joins \<longleftrightarrow> (\<forall>gs t. starts gs t \<or> (\<exists>j. joins gs j t))"

text \<open>A step that brings goroutine \<open>i\<close> nearer to its end, and none further from it.\<close>

definition moves_on :: "(nat \<Rightarrow> tm_call) \<Rightarrow> (nat \<Rightarrow> tm_call) \<Rightarrow> nat \<Rightarrow> bool" where
  "moves_on gs gs' i \<longleftrightarrow> calls_left (gs' i) < calls_left (gs i) \<and>
     (\<forall>k. calls_left (gs' k) \<le> calls_left (gs k) \<and> asked (gs' k) = asked (gs k))"

lemma moves_on_upd: "calls_left c < calls_left (gs i) \<Longrightarrow> asked c = asked (gs i) \<Longrightarrow> moves_on gs (gs(i := c)) i"
  by (simp add: moves_on_def)

lemma flying_moves:
  assumes "flying (gs i) = Some t" and inv: "tm_inv E m (w, gs)" and "mapFunc m \<noteq> None"
  shows "\<exists>w' gs'. tm_step E m starts joins (w, gs) (w', gs') \<and> moves_on gs gs' i"
proof (cases "gs i")
  case (Flying u)
  then show ?thesis
    by (cases "sync_load (tw_cache w) u")
      (use check_hit check_miss in \<open>fastforce intro!: moves_on_upd\<close>)+
next
  case (Mapping u)
  moreover obtain sm where "mapType E m u = Some sm" using mapType_defined [OF assms(3)] by blast
  ultimately show ?thesis using store by (fastforce intro!: moves_on_upd)
next
  case (Landing u p)
  let ?gs = "\<lambda>k. if k = i \<or> gs k = Waiting u i then Got u p else gs k"
  have "moves_on gs ?gs i" using Landing by (auto simp: moves_on_def)
  moreover have "tm_step E m starts joins (w, gs) (w, ?gs)" by (rule land) (rule Landing)
  ultimately show ?thesis by blast
qed (use assms(1) in simp_all)

lemma in_call_moves:
  assumes "in_call (gs i)" and inv: "tm_inv E m (w, gs)" and "mapFunc m \<noteq> None" and live: "singleflight_live starts joins"
  shows "\<exists>w' gs' k. tm_step E m starts joins (w, gs) (w', gs') \<and> moves_on gs gs' k"
proof (cases "flying (gs i)")
  case None
  with assms(1) consider t where "gs i = Called t" | t j where "gs i = Waiting t j" by (cases "gs i") auto
  then show ?thesis
  proof cases
    case 1
    from live consider "starts gs t" | j where "joins gs j t" unfolding singleflight_live_def by blast
    then show ?thesis
    proof cases
      case 1
      have "tm_step E m starts joins (w, gs) (w, gs(i := Flying t))" by (rule start) (fact, fact)
      moreover have "moves_on gs (gs(i := Flying t)) i" using \<open>gs i = Called t\<close> by (intro moves_on_upd) simp_all
      ultimately show ?thesis by blast
    next
      case 2
      have "tm_step E m starts joins (w, gs) (w, gs(i := Waiting t j))" by (rule join) (fact, fact)
      moreover have "moves_on gs (gs(i := Waiting t j)) i" using \<open>gs i = Called t\<close> by (intro moves_on_upd) simp_all
      ultimately show ?thesis by blast
    qed
  next
    case 2
    then have "flying (gs j) = Some t" using tm_invD [OF inv, of i] by simp
    from flying_moves [OF this inv assms(3)] show ?thesis by blast
  qed
next
  case (Some t)
  from flying_moves [OF this inv assms(3)] show ?thesis by blast
qed

lemma sum_left_less:
  assumes "finite A" and "k \<in> A" and "moves_on gs gs' k"
  shows "(\<Sum>i\<in>A. calls_left (gs' i)) < (\<Sum>i\<in>A. calls_left (gs i))"
  using assms by (auto simp: moves_on_def intro: sum_strict_mono_ex1)

lemma calls_complete:
  assumes "finite A" and "{i. in_call (gs i)} \<subseteq> A" and "tm_inv E m (w, gs)" and "mapFunc m \<noteq> None"
    and ok: "singleflight_ok starts joins" and live: "singleflight_live starts joins"
  shows "\<exists>w' gs'. tm_run E m starts joins (w, gs) (w', gs') \<and> (\<forall>i. \<not> in_call (gs' i) \<and> asked (gs' i) = asked (gs i))"
  using assms(2,3)
proof (induction "\<Sum>i\<in>A. calls_left (gs i)" arbitrary: w gs rule: less_induct)
  case less
  show ?case
  proof (cases "\<exists>i. in_call (gs i)")
    case False
    then show ?thesis by blast
  next
    case True
    then obtain i where "in_call (gs i)" by blast
    from in_call_moves [OF this less(3) assms(4) live] obtain w1 gs1 k where
      step: "tm_step E m starts joins (w, gs) (w1, gs1)" and on: "moves_on gs gs1 k" by blast
    have "in_call (gs k)" using on by (auto simp: moves_on_def in_call_left)
    then have "k \<in> A" using less(2) by blast
    have "{i. in_call (gs1 i)} \<subseteq> {i. in_call (gs i)}" using on by (auto simp: moves_on_def in_call_left intro: less_le_trans)
    then have "{i. in_call (gs1 i)} \<subseteq> A" using less(2) by (rule subset_trans)
    from less(1) [OF sum_left_less [OF assms(1) \<open>k \<in> A\<close> on] this tm_step_inv [OF step ok less(3)]] obtain w' gs' where
      "tm_run E m starts joins (w1, gs1) (w', gs')" "\<forall>i. \<not> in_call (gs' i) \<and> asked (gs' i) = asked (gs1 i)" by blast
    then show ?thesis using step on by (auto simp: moves_on_def intro: converse_rtranclp_into_rtranclp)
  qed
qed

lemma tm_step_finite: "tm_step E m starts joins s s' \<Longrightarrow> finite {i. in_call (snd s i)} \<Longrightarrow> finite {i. in_call (snd s' i)}"
proof (induction rule: tm_step.induct)
  case (land gs i t p w)
  have "{k. in_call (if k = i \<or> gs k = Waiting t i then Got t p else gs k)} \<subseteq> {k. in_call (gs k)}" by auto
  with land show ?case by (auto intro: finite_subset)
qed (auto simp: fun_upd_def elim: finite_subset [rotated, OF finite.insertI])

lemma tm_reachable_finite:
  "tm_run E m starts joins (init_tm_world, \<lambda>_. Resting) s \<Longrightarrow> finite {i. in_call (snd s i)}"
  by (induction rule: rtranclp_induct) (auto dest: tm_step_finite)

text \<open>
  C16. No call of \<open>TypeMap\<close> is stuck: from every reachable state, with any number of calls in progress and no new ones, all of them can
  end, each with a pointer to the map of the type it asked for; a goroutine never waits for one that does not run.
\<close>

theorem TypeMap_completes:
  assumes "mapFunc m \<noteq> None" and "singleflight_ok starts joins" and "singleflight_live starts joins"
    and "(tm_step E m starts joins)\<^sup>*\<^sup>* (init_tm_world, \<lambda>_. Resting) (w, gs)"
  shows "\<exists>w' gs'. (tm_step E m starts joins)\<^sup>*\<^sup>* (w, gs) (w', gs') \<and>
    (\<forall>i. case asked (gs i) of
       None \<Rightarrow> gs' i = Resting
     | Some t \<Rightarrow> \<exists>p sm. gs' i = Got t p \<and> tw_heap w' p = Some (t, sm) \<and> mapType E m t = Some sm)"
proof -
  note inv = tm_reachable_inv [OF assms(4,2)]
  have "finite {i. in_call (gs i)}" using tm_reachable_finite [OF assms(4)] by simp
  from calls_complete [OF this subset_refl inv assms(1,2,3)] obtain w' gs' where
    run: "tm_run E m starts joins (w, gs) (w', gs')" and ends: "\<forall>i. \<not> in_call (gs' i) \<and> asked (gs' i) = asked (gs i)"
    by auto
  note h = tm_invD [OF tm_run_inv [OF run assms(2) inv]]
  have "case asked (gs i) of None \<Rightarrow> gs' i = Resting
     | Some t \<Rightarrow> \<exists>p sm. gs' i = Got t p \<and> tw_heap w' p = Some (t, sm) \<and> mapType E m t = Some sm" for i
  proof -
    have "\<not> in_call (gs' i)" and same: "asked (gs i) = asked (gs' i)" using ends by auto
    with h [of i] heap_soundD [of E m w'] show ?thesis unfolding same by (cases "gs' i") auto
  qed
  with run show ?thesis by blast
qed

subsection \<open>A run\<close>

text \<open>\<open>singleflight\<close> as it is documented: a call starts a run when there is none for its key and waits otherwise.\<close>

definition sample_starts :: "(nat \<Rightarrow> tm_call) \<Rightarrow> gtype \<Rightarrow> bool" where
  "sample_starts gs t \<longleftrightarrow> (\<forall>j. flying (gs j) \<noteq> Some t)"

definition sample_joins :: "(nat \<Rightarrow> tm_call) \<Rightarrow> nat \<Rightarrow> gtype \<Rightarrow> bool" where
  "sample_joins gs j t \<longleftrightarrow> flying (gs j) = Some t"

lemma sample_singleflight: "singleflight_ok sample_starts sample_joins" "singleflight_live sample_starts sample_joins"
  by (auto simp: singleflight_ok_def singleflight_live_def sample_starts_def sample_joins_def)

text \<open>Three calls miss; one runs the function, one waits for it, and one comes when the run has ended.\<close>

definition three_calls :: "nat \<Rightarrow> tm_call" where
  "three_calls = (\<lambda>_. Resting)(0 := Called (TStruct ''Person''), 1 := Called (TStruct ''Person''), 2 := Called (TStruct ''Person''))"

abbreviation sample_tm_run where
  "sample_tm_run \<equiv> tm_run sample_types sample_mapper sample_starts sample_joins"

lemma three_calls_reachable: "sample_tm_run (init_tm_world, \<lambda>_. Resting) (init_tm_world, three_calls)"
proof -
  let ?T = "TStruct ''Person''" and ?step = "tm_step sample_types sample_mapper sample_starts sample_joins"
  let ?g1 = "(\<lambda>_. Resting)(0 := Called ?T)" let ?g2 = "?g1(1 := Called ?T)"
  have key: "looked_up ?T = ?T" by (simp add: looked_up_def)
  have none: "sync_load (tw_cache init_tm_world) (looked_up ?T) = None" by (simp add: init_tm_world_def sync_load_def sync_empty_def)
  have "?step (init_tm_world, \<lambda>_. Resting) (init_tm_world, ?g1)"
    using load_miss [of "\<lambda>_. Resting" 0, OF _ none] key by simp
  moreover have "?step (init_tm_world, ?g1) (init_tm_world, ?g2)"
    using load_miss [of ?g1 1, OF _ none] key by simp
  moreover have "?step (init_tm_world, ?g2) (init_tm_world, three_calls)"
    using load_miss [of ?g2 2, OF _ none] key by (simp add: three_calls_def)
  ultimately show ?thesis by (meson converse_rtranclp_into_rtranclp rtranclp.rtrancl_refl)
qed

theorem TypeMap_completes_witness:
  "\<exists>w' gs'. sample_tm_run (init_tm_world, three_calls) (w', gs') \<and>
    (\<forall>i < 3. \<exists>p. gs' i = Got (TStruct ''Person'') p \<and> tw_heap w' p = Some (TStruct ''Person'', sample_person))"
proof -
  have "mapFunc sample_mapper \<noteq> None" by (simp add: sample_mapper_def NewMapperFunc_def)
  from TypeMap_completes [OF this sample_singleflight three_calls_reachable] obtain w' gs' where
    run: "sample_tm_run (init_tm_world, three_calls) (w', gs')" and
    ends: "\<forall>i. case asked (three_calls i) of None \<Rightarrow> gs' i = Resting
     | Some t \<Rightarrow> \<exists>p sm. gs' i = Got t p \<and> tw_heap w' p = Some (t, sm) \<and> mapType sample_types sample_mapper t = Some sm" by blast
  have "\<exists>p. gs' i = Got (TStruct ''Person'') p \<and> tw_heap w' p = Some (TStruct ''Person'', sample_person)" if "i < 3" for i
  proof -
    have "asked (three_calls i) = Some (TStruct ''Person'')" using that by (auto simp: three_calls_def less_Suc_eq numeral_eq_Suc)
    with ends [rule_format, of i] sample_person show ?thesis by auto
  qed
  with run show ?thesis by blast
qed

theorem TypeMap_once_witness:
  "\<exists>w gs p. sample_tm_run (init_tm_world, \<lambda>_. Resting) (w, gs) \<and>
    (\<forall>i < 3. gs i = Got (TStruct ''Person'') p) \<and> tw_heap w p = Some (TStruct ''Person'', sample_person)"
proof -
  have "mapFunc sample_mapper \<noteq> None" by (simp add: sample_mapper_def NewMapperFunc_def)
  moreover have "finite {i. in_call (three_calls i)}" using tm_reachable_finite [OF three_calls_reachable] by simp
  moreover note inv = tm_reachable_inv [OF three_calls_reachable sample_singleflight(1)]
  ultimately obtain w gs where run: "sample_tm_run (init_tm_world, three_calls) (w, gs)"
    and ends: "\<forall>i. \<not> in_call (gs i) \<and> asked (gs i) = asked (three_calls i)"
    using calls_complete [OF _ subset_refl] sample_singleflight by metis
  have got: "\<exists>p. gs i = Got (TStruct ''Person'') p" if "i < 3" for i
  proof -
    have "asked (three_calls i) = Some (TStruct ''Person'')" using that by (auto simp: three_calls_def less_Suc_eq numeral_eq_Suc)
    with ends show ?thesis by (cases "gs i") (auto dest: spec [of _ i])
  qed
  from rtranclp_trans [OF three_calls_reachable run] have all: "sample_tm_run (init_tm_world, \<lambda>_. Resting) (w, gs)" .
  note once = TypeMap_once [OF sample_singleflight(1) all rtranclp.rtrancl_refl]
  obtain p where p: "gs 0 = Got (TStruct ''Person'') p" using got [of 0] by auto
  have "gs i = Got (TStruct ''Person'') p" if lt: "i < 3" for i
  proof -
    obtain q where q: "gs i = Got (TStruct ''Person'') q" using got [OF lt] by blast
    with once p have "q = p" by blast
    with q show ?thesis by simp
  qed
  moreover have "tw_heap w p = Some (TStruct ''Person'', sample_person)" using once p sample_person by fastforce
  ultimately show ?thesis using all by blast
qed

end
