(* ===== verification/Shared_Caches.thy ===== *)
theory Shared_Caches
  imports Engine_Meta Bind_Cache
begin

text \<open>
  The caches are \<open>sync.Map\<close>s that any number of goroutines use at once without a lock: \<open>Load\<close> and
  \<open>Store\<close> are atomic, but between the \<open>Load\<close> that misses and the \<open>Store\<close> of what was computed any other
  goroutine may run.  The steps of this theory are the atomic ones, of all goroutines in any order.
\<close>

subsection \<open>Goroutines\<close>

text \<open>A goroutine that calls nothing, that has missed the cache, or that has its result.\<close>

datatype ('q, 'r) goroutine = Idle | Missed 'q | Returned 'q 'r

text \<open>
  \<open>lookup\<close> is the \<open>Load\<close>, \<open>finish\<close> the rest of a call that missed, up to its \<open>Store\<close>; \<open>other\<close> is what else may
  happen to the shared state.
\<close>

inductive go_step ::
  "('c \<Rightarrow> 'q \<Rightarrow> 'r option) \<Rightarrow> ('c \<Rightarrow> 'q \<Rightarrow> 'c \<times> 'r) \<Rightarrow> ('c \<Rightarrow> 'c \<Rightarrow> bool) \<Rightarrow> ('q \<Rightarrow> bool) \<Rightarrow>
   'c \<times> (nat \<Rightarrow> ('q, 'r) goroutine) \<Rightarrow> 'c \<times> (nat \<Rightarrow> ('q, 'r) goroutine) \<Rightarrow> bool"
  for lookup finish other allowed where
  hit: "allowed q \<Longrightarrow> \<forall>q'. gs i \<noteq> Missed q' \<Longrightarrow> lookup c q = Some r \<Longrightarrow>
    go_step lookup finish other allowed (c, gs) (c, gs(i := Returned q r))"
| miss: "allowed q \<Longrightarrow> \<forall>q'. gs i \<noteq> Missed q' \<Longrightarrow> lookup c q = None \<Longrightarrow>
    go_step lookup finish other allowed (c, gs) (c, gs(i := Missed q))"
| finish: "gs i = Missed q \<Longrightarrow> finish c q = (c', r) \<Longrightarrow>
    go_step lookup finish other allowed (c, gs) (c', gs(i := Returned q r))"
| other: "other c c' \<Longrightarrow> go_step lookup finish other allowed (c, gs) (c', gs)"

inductive_cases go_stepE: "go_step lookup finish other allowed s t"

text \<open>
  The contract that makes sharing safe: from a sound state a hit and a finished call are right, both
  keep the state sound, and nothing that happens makes a right result wrong.
\<close>

locale shared_memo =
  fixes lookup :: "'c \<Rightarrow> 'q \<Rightarrow> 'r option"
    and finish :: "'c \<Rightarrow> 'q \<Rightarrow> 'c \<times> 'r"
    and other :: "'c \<Rightarrow> 'c \<Rightarrow> bool"
    and allowed :: "'q \<Rightarrow> bool"
    and sound :: "'c \<Rightarrow> bool"
    and right :: "'c \<Rightarrow> 'q \<Rightarrow> 'r \<Rightarrow> bool"
  assumes hit_right: "sound c \<Longrightarrow> allowed q \<Longrightarrow> lookup c q = Some r \<Longrightarrow> right c q r"
    and finish_right: "sound c \<Longrightarrow> allowed q \<Longrightarrow> finish c q = (c', r) \<Longrightarrow> sound c' \<and> right c' q r"
    and finish_keeps: "sound c \<Longrightarrow> allowed q \<Longrightarrow> finish c q = (c', r) \<Longrightarrow> right c q' r' \<Longrightarrow> right c' q' r'"
    and other_keeps: "sound c \<Longrightarrow> other c c' \<Longrightarrow> sound c' \<and> (right c q r \<longrightarrow> right c' q r)"
begin

definition all_right :: "'c \<times> (nat \<Rightarrow> ('q, 'r) goroutine) \<Rightarrow> bool" where
  "all_right s \<longleftrightarrow> sound (fst s) \<and>
     (\<forall>i q r. snd s i = Returned q r \<longrightarrow> right (fst s) q r) \<and> (\<forall>i q. snd s i = Missed q \<longrightarrow> allowed q)"

lemma step_all_right: "go_step lookup finish other allowed s t \<Longrightarrow> all_right s \<Longrightarrow> all_right t"
proof (induction rule: go_step.induct)
  case (finish gs i q c c' r)
  then have "sound c" "allowed q" by (auto simp: all_right_def)
  with finish finish_right finish_keeps show ?case by (fastforce simp: all_right_def)
next
  case (other c c' gs)
  with other_keeps show ?case by (fastforce simp: all_right_def)
qed (auto simp: all_right_def hit_right)

lemma reachable_right:
  assumes "(go_step lookup finish other allowed)\<^sup>*\<^sup>* (c0, \<lambda>_. Idle) s" and "sound c0"
  shows "all_right s"
  using assms(1) by (induction rule: rtranclp_induct) (use assms(2) step_all_right in \<open>auto simp: all_right_def\<close>)

lemma returned_right:
  "(go_step lookup finish other allowed)\<^sup>*\<^sup>* (c0, \<lambda>_. Idle) (c, gs) \<Longrightarrow> sound c0 \<Longrightarrow> gs i = Returned q r \<Longrightarrow> right c q r"
  using reachable_right by (fastforce simp: all_right_def)

end

subsection \<open>The plan cache\<close>

definition meta_lookup :: "meta_cache \<Rightarrow> meta_call \<Rightarrow> field_meta list result option" where
  "meta_lookup c q = (case q of (t, columns, u) \<Rightarrow> map_option Ok (cached_meta c t columns u))"

definition meta_finish :: "tenv \<Rightarrow> mapper \<Rightarrow> meta_cache \<Rightarrow> meta_call \<Rightarrow> meta_cache \<times> field_meta list result" where
  "meta_finish E m c q =
     (case q of (t, columns, u) \<Rightarrow>
        (case type_map E m t of None \<Rightarrow> (c, Panic) | Some tm \<Rightarrow> plan_and_store E c t columns tm u))"

definition meta_allowed :: "tenv \<Rightarrow> mapper \<Rightarrow> meta_call \<Rightarrow> bool" where
  "meta_allowed E m q \<longleftrightarrow> type_map E m (fst q) \<noteq> None"

abbreviation no_other :: "'c \<Rightarrow> 'c \<Rightarrow> bool" where
  "no_other c c' \<equiv> False"

interpretation shared_meta: shared_memo meta_lookup "meta_finish E m" no_other "meta_allowed E m" "meta_sound E m"
  "\<lambda>c q r. r = meta_spec E m q" for E m
proof unfold_locales
  fix c q r assume "meta_sound E m c" "meta_allowed E m q" "meta_lookup c q = Some r"
  then show "r = meta_spec E m q"
    using cached_meta_correct by (cases q) (fastforce simp: meta_lookup_def meta_allowed_def meta_spec_def)
next
  fix c q c' r assume h: "meta_sound E m c" "meta_allowed E m q" "meta_finish E m c q = (c', r)"
  obtain t columns u where q: "q = (t, columns, u)" by (cases q)
  with h(2) obtain tm where "type_map E m t = Some tm" by (auto simp: meta_allowed_def)
  with h(3) q plan_and_store_correct [OF h(1) this, of columns u] show "meta_sound E m c' \<and> r = meta_spec E m q"
    by (simp add: meta_finish_def meta_spec_def)
qed auto

text \<open>
  C14. The plan cache is safe to share: however the \<open>Load\<close>s and \<open>Store\<close>s of any number of goroutines calling \<open>buildMeta\<close>
  for one mapper interleave, two that miss for the same key at once included, every call that has returned
  has the plan or the error it would have had with no cache and no other goroutine, also when hashes collide.
\<close>

theorem buildMeta_concurrent:
  assumes "(go_step meta_lookup (meta_finish E m) no_other (meta_allowed E m))\<^sup>*\<^sup>* (sync_empty, \<lambda>_. Idle) (c, gs)"
    and "gs i = Returned (t, columns, u) r"
  shows "r = (case type_map E m t of None \<Rightarrow> Panic | Some tm \<Rightarrow> fresh_meta E t columns tm u)"
proof -
  have "meta_sound E m sync_empty" by (simp add: meta_sound_def sync_memo.agrees_empty)
  from shared_meta.returned_right [OF assms(1) this assms(2)] show ?thesis by (simp add: meta_spec_def)
qed

text \<open>Two goroutines miss for one person, and both store.\<close>

theorem buildMeta_concurrent_witness:
  "\<exists>c gs r. (go_step meta_lookup (meta_finish sample_types sample_mapper) no_other (meta_allowed sample_types sample_mapper))\<^sup>*\<^sup>*
      (sync_empty, \<lambda>_. Idle) (c, gs) \<and> gs 0 = Returned (TStruct ''Person'', [''zip'', ''city''], False) r \<and>
    gs 1 = Returned (TStruct ''Person'', [''zip'', ''city''], False) r \<and>
    r = fresh_meta sample_types (TStruct ''Person'') [''zip'', ''city''] sample_person False"
proof -
  let ?q = "(TStruct ''Person'', [''zip'', ''city''], False)"
  let ?step = "go_step meta_lookup (meta_finish sample_types sample_mapper) no_other (meta_allowed sample_types sample_mapper)"
  have a: "meta_allowed sample_types sample_mapper ?q" by (simp add: meta_allowed_def sample_type_map)
  have n: "meta_lookup sync_empty ?q = None"
    by (simp add: meta_lookup_def cached_meta_def sync_load_def sync_empty_def)
  obtain c1 r1 where f1: "meta_finish sample_types sample_mapper sync_empty ?q = (c1, r1)"
    by (cases "meta_finish sample_types sample_mapper sync_empty ?q")
  obtain c2 r2 where f2: "meta_finish sample_types sample_mapper c1 ?q = (c2, r2)"
    by (cases "meta_finish sample_types sample_mapper c1 ?q")
  let ?g1 = "(\<lambda>_. Idle)(0 := Missed ?q)" let ?g2 = "?g1(1 := Missed ?q)" let ?g3 = "?g2(0 := Returned ?q r1)"
  have "?step (sync_empty, \<lambda>_. Idle) (sync_empty, ?g1)" by (rule go_step.miss) (use a n in simp_all)
  moreover have "?step (sync_empty, ?g1) (sync_empty, ?g2)" by (rule go_step.miss) (use a n in simp_all)
  moreover have "?step (sync_empty, ?g2) (c1, ?g3)" by (rule go_step.finish) (use f1 in simp_all)
  moreover have "?step (c1, ?g3) (c2, ?g3(1 := Returned ?q r2))" by (rule go_step.finish) (use f2 in simp_all)
  ultimately have run: "?step\<^sup>*\<^sup>* (sync_empty, \<lambda>_. Idle) (c2, ?g3(1 := Returned ?q r2))"
    by (meson converse_rtranclp_into_rtranclp rtranclp.rtrancl_refl)
  from buildMeta_concurrent [OF run, of 0 "TStruct ''Person''" "[''zip'', ''city'']" False r1]
    buildMeta_concurrent [OF run, of 1 "TStruct ''Person''" "[''zip'', ''city'']" False r2] run
  show ?thesis
    by (intro exI [of _ c2] exI [of _ "?g3(1 := Returned ?q r2)"] exI [of _ r1]) (simp add: sample_type_map)
qed

subsection \<open>The compile cache\<close>

definition compile_lookup :: "cworld \<times> nat set \<Rightarrow> compile_key \<Rightarrow> (string \<times> slice_ref) result option" where
  "compile_lookup s k = map_option Ok (sync_load (compileCache (fst s)) k)"

definition compile_finish :: "cworld \<times> nat set \<Rightarrow> compile_key \<Rightarrow> (cworld \<times> nat set) \<times> (string \<times> slice_ref) result" where
  "compile_finish s k = (case compile_and_store (fst s) (fst k) (snd k) of (w, r) \<Rightarrow> ((w, snd s), r))"

text \<open>Arrays that no caller holds stay as they are.\<close>

definition arrays_kept :: "cworld \<times> nat set \<Rightarrow> cworld \<times> nat set \<Rightarrow> bool" where
  "arrays_kept s t \<longleftrightarrow> next_array (fst s) \<le> next_array (fst t) \<and>
     (\<forall>a. a < next_array (fst s) \<longrightarrow> a \<notin> snd s \<longrightarrow> a \<notin> snd t \<and> arrays (fst t) a = arrays (fst s) a)"

lemma arrays_kept_result: "arrays_kept s t \<Longrightarrow> result_ok s k r \<Longrightarrow> result_ok t k r"
  by (cases r) (auto simp: result_ok_def arrays_kept_def read_slice_def split: option.splits)

lemma compile_finish_kept:
  assumes "compile_finish s k = (t, r)"
  shows "arrays_kept s t"
  using assms
  by (cases s; cases k)
    (auto simp: compile_finish_def compile_and_store_def arrays_kept_def new_slice_def Let_def split: result.splits prod.splits if_splits)

lemma new_slice_kept:
  "new_slice w ns = (w', ref) \<Longrightarrow> arrays_kept (w, own) (w', own \<union> (case ref of None \<Rightarrow> {} | Some a \<Rightarrow> {a}))"
  by (auto simp: new_slice_def arrays_kept_def split: if_splits)

lemma arrays_kept_trans: "arrays_kept s t \<Longrightarrow> arrays_kept t u \<Longrightarrow> arrays_kept s u"
  by (auto simp: arrays_kept_def)

lemma compileNamedQuery_kept:
  assumes "compileNamedQuery w qs bt = (w', r)"
  shows "arrays_kept (w, own) (w', own)"
    and "\<And>q a e. r = Err (q, Some a) e \<Longrightarrow> arrays_kept (w, own) (w', insert a own)"
  using assms
  by (auto simp: compileNamedQuery_def compile_and_store_def arrays_kept_def new_slice_def Let_def
      split: option.splits result.splits prod.splits if_splits)

lemma cache_step_kept: "cache_step s t \<Longrightarrow> cache_inv s \<Longrightarrow> arrays_kept s t"
proof (induction rule: cache_step.induct)
  case (public_call w qs bt w' r own)
  obtain w1 r1 where call: "compileNamedQuery w qs bt = (w1, r1)" by (cases "compileNamedQuery w qs bt")
  note kept = compileNamedQuery_kept [OF call, where own = own]
  show ?case
  proof (cases r1)
    case (Ok v)
    obtain q ref where v: "v = (q, ref)" by (cases v)
    show ?thesis
    proof (cases "read_slice w1 ref = []")
      case True
      then have "ref = None"
        using compileNamedQuery_correct(3) [OF call public_call(2)] Ok v by (cases ref) (auto simp: read_slice_def)
      then have "r = Ok (q, None)" "w' = w1" using public_call(1) call Ok v True by (auto simp: CompileNamedQuery_def)
      with kept(1) show ?thesis by (simp add: owned_by_result_def)
    next
      case False
      obtain w2 ref2 where w2: "new_slice w1 (read_slice w1 ref) = (w2, ref2)" by (cases "new_slice w1 (read_slice w1 ref)")
      have "r = Ok (q, ref2)" "w' = w2" using public_call(1) call Ok v False w2 by (simp_all add: CompileNamedQuery_def)
      then show ?thesis
        using arrays_kept_trans [OF kept(1) new_slice_kept [OF w2]] by (cases ref2) (simp_all add: owned_by_result_def)
    qed
  next
    case (Err v e)
    obtain q ref where v: "v = (q, ref)" by (cases v)
    with public_call(1) call Err have "r = Err (q, ref) e" "w' = w1" by (simp_all add: CompileNamedQuery_def)
    with kept Err v show ?thesis by (cases ref) (auto simp: owned_by_result_def)
  next
    case Panic
    with public_call(1) call kept(1) show ?thesis by (simp add: CompileNamedQuery_def owned_by_result_def)
  qed
next
  case (internal_call w qs bt w' r own)
  then show ?case by (auto intro: compileNamedQuery_kept(1))
next
  case (caller_write a own w i s)
  then show ?case by (auto simp: arrays_kept_def)
qed

text \<open>
  What happens beside the goroutines inside the package: steps of \<open>cache_step\<close>, and the copy a public call makes of the
  names it got.  A public call is then not one step: its \<open>Load\<close> and \<open>Store\<close> are those of a goroutine, any other may
  run before it copies, and only the copy is its caller's.  (A call that fails uses the cache once, for its \<open>Load\<close>.)
\<close>

inductive cache_other :: "cworld \<times> nat set \<Rightarrow> cworld \<times> nat set \<Rightarrow> bool" where
  whole: "cache_step s t \<Longrightarrow> cache_other s t"
| copy_names: "a < next_array w \<Longrightarrow> new_slice w (arrays w a) = (w', ref) \<Longrightarrow>
    cache_other (w, own) (w', own \<union> (case ref of None \<Rightarrow> {} | Some b \<Rightarrow> {b}))"

lemma cache_other_keeps: "cache_other s t \<Longrightarrow> cache_inv s \<Longrightarrow> cache_inv t \<and> arrays_kept s t"
proof (induction rule: cache_other.induct)
  case (whole s t)
  then show ?case using cache_step_inv cache_step_kept by blast
next
  case (copy_names a w w' ref own)
  then show ?case using new_slice_inv(2) new_slice_kept by blast
qed

abbreviation any_query :: "compile_key \<Rightarrow> bool" where
  "any_query k \<equiv> True"

interpretation shared_compile: shared_memo compile_lookup compile_finish cache_other any_query cache_inv result_ok
proof unfold_locales
  fix s k r assume "cache_inv s" "compile_lookup s k = Some r"
  then show "result_ok s k r" by (auto simp: compile_lookup_def cache_hit_ok)
next
  fix s k t r assume h: "cache_inv s" "compile_finish s k = (t, r)"
  then show "cache_inv t \<and> result_ok t k r"
    using compile_and_store_correct [of "fst s" "fst k" "snd k" _ _ "snd s"]
    by (auto simp: compile_finish_def split: prod.splits)
next
  fix s k t r k' r' assume "compile_finish s k = (t, r)" "result_ok s k' r'"
  then show "result_ok t k' r'" using compile_finish_kept arrays_kept_result by blast
next
  fix s t k r assume "cache_inv s" "cache_other s t"
  then show "cache_inv t \<and> (result_ok s k r \<longrightarrow> result_ok t k r)"
    using cache_other_keeps arrays_kept_result by blast
qed

text \<open>
  C13. The compile cache is safe to share: however the \<open>Load\<close>s and \<open>Store\<close>s of any number of goroutines interleave with
  each other, with the copies the public function makes of the names it got, whether the public call is taken whole or
  step by step, and with its callers' writes to the names they were given, every call that has
  returned from \<open>compileNamedQuery\<close> still holds what a compilation without a cache returns.
\<close>

theorem compile_concurrent:
  assumes "(go_step compile_lookup compile_finish cache_other any_query)\<^sup>*\<^sup>* ((init_cworld, {}), \<lambda>_. Idle) ((w, own), gs)"
    and "gs i = Returned (qs, bt) r"
  shows "deref_result w r = compile_query bt qs"
proof -
  have "cache_inv (init_cworld, {})" by (rule cache_reachable_inv [OF cache_reachable.start])
  from shared_compile.returned_right [OF assms(1) this assms(2)] show ?thesis by (simp add: result_ok_def)
qed

text \<open>
  A goroutine misses, a public caller compiles and overwrites its names, the goroutine then finishes, and its names are
  copied for another caller.
\<close>

theorem compile_concurrent_witness:
  "\<exists>w own gs r. (go_step compile_lookup compile_finish cache_other any_query)\<^sup>*\<^sup>*
      ((init_cworld, {}), \<lambda>_. Idle) ((w, own), gs) \<and> card own = 2 \<and>
    gs 0 = Returned (''a=:x '', QUESTION) r \<and> deref_result w r = Ok (''a=? '', [''x''])"
proof -
  let ?k = "(''a=:x '', QUESTION)"
  let ?step = "go_step compile_lookup compile_finish cache_other any_query"
  let ?g1 = "(\<lambda>_. Idle)(0 := Missed ?k)"
  obtain w1 r1 where call: "CompileNamedQuery init_cworld ''a=:x '' QUESTION = (w1, r1)"
    by (cases "CompileNamedQuery init_cworld ''a=:x '' QUESTION")
  have c1: "cache_step (init_cworld, {}) (w1, {1})"
    using cache_step.public_call [OF call, of "{}"] hostile_first_call call by simp
  have c2: "cache_step (w1, {1}) (hostile_world, {1})"
    using cache_step.caller_write [of 1 "{1}" w1 0 "''POISONED''"] call by (simp add: hostile_world_def)
  obtain w r where f: "compile_finish (hostile_world, {1}) ?k = ((w, {1}), r)" and
    w: "w = fst (compile_and_store hostile_world ''a=:x '' QUESTION)"
    by (cases "compile_and_store hostile_world ''a=:x '' QUESTION") (simp add: compile_finish_def)
  have n: "next_array w = 3 \<and> arrays w 2 = [''x'']" unfolding w by code_simp
  let ?g2 = "?g1(0 := Returned ?k r)" and ?w2 = "fst (new_slice w [''x''])"
  have "?step ((init_cworld, {}), \<lambda>_. Idle) ((init_cworld, {}), ?g1)"
    by (rule go_step.miss) (simp_all add: compile_lookup_def sync_load_def sync_empty_def init_cworld_def)
  moreover have "?step ((init_cworld, {}), ?g1) ((w1, {1}), ?g1)" by (rule go_step.other, rule cache_other.whole) (rule c1)
  moreover have "?step ((w1, {1}), ?g1) ((hostile_world, {1}), ?g1)" by (rule go_step.other, rule cache_other.whole) (rule c2)
  moreover have "?step ((hostile_world, {1}), ?g1) ((w, {1}), ?g2)"
    by (rule go_step.finish) (use f in simp_all)
  moreover have "?step ((w, {1}), ?g2) ((?w2, {1, 3}), ?g2)"
    using cache_other.copy_names [of 2 w ?w2 "Some 3" "{1}"] n by (intro go_step.other) (simp add: new_slice_def insert_commute)
  ultimately have run: "?step\<^sup>*\<^sup>* ((init_cworld, {}), \<lambda>_. Idle) ((?w2, {1, 3}), ?g2)"
    by (meson converse_rtranclp_into_rtranclp rtranclp.rtrancl_refl)
  have "compile_query QUESTION ''a=:x '' = Ok (''a=? '', [''x''])" by code_simp
  with compile_concurrent [OF run, of 0 "''a=:x ''" QUESTION r] run show ?thesis
    by (intro exI [of _ ?w2] exI [of _ "{1, 3}"] exI [of _ ?g2] exI [of _ r]) simp
qed

end
