(* ===== verification/Reflect_Own.thy ===== *)
theory Reflect_Own
  imports Reflect_Mem
begin

text \<open>
  Why two fields of a new object are never the same place, however many pointers lead to them.  In the
  blocks allocated from some moment on, pointers only lead to later blocks and no block is pointed to
  twice, so the blocks below an object form a tree, and two traversals that part ways
  in one struct never meet again.
\<close>

subsection \<open>Owned blocks\<close>

definition owned :: "nat \<Rightarrow> memory \<Rightarrow> bool" where
  "owned n mem \<longleftrightarrow>
     n < next_block mem \<and>
     (\<forall>a p. n \<le> blk a \<longrightarrow> ptr_at mem a = Some p \<longrightarrow> off p = 0 \<and> blk a < blk p \<and> blk p < next_block mem) \<and>
     (\<forall>a b p. n \<le> blk a \<longrightarrow> n \<le> blk b \<longrightarrow> ptr_at mem a = Some p \<longrightarrow> ptr_at mem b = Some p \<longrightarrow> a = b)"

lemma ownedD:
  assumes "owned n mem" and "n \<le> blk a" and "ptr_at mem a = Some p"
  shows "off p = 0" and "blk a < blk p" and "blk p < next_block mem" and "n \<le> blk p"
proof -
  from assms show "off p = 0" and lt: "blk a < blk p" and "blk p < next_block mem" unfolding owned_def by blast+
  from lt assms(2) show "n \<le> blk p" by simp
qed

lemma owned_inj: "owned n mem \<Longrightarrow> n \<le> blk a \<Longrightarrow> n \<le> blk b \<Longrightarrow> ptr_at mem a = Some p \<Longrightarrow> ptr_at mem b = Some p \<Longrightarrow> a = b"
  unfolding owned_def by blast

lemma owned_start:
  assumes "heap_ok E mem" and "reflect_New t mem = (mem', a)"
  shows "owned (next_block mem) mem' \<and> blk a = next_block mem"
proof -
  have m: "a = Addr (next_block mem) 0" "next_block mem' = Suc (next_block mem)"
      "ptr_at mem' = (\<lambda>b. if blk b = next_block mem then None else ptr_at mem b)"
    using assms(2) by (auto simp: reflect_New_def)
  have "ptr_at mem' b = None" if "next_block mem \<le> blk b" for b
    using heap_okD(3) [OF assms(1), of b] that by (cases "ptr_at mem b") (auto simp: m(3))
  then show ?thesis by (simp add: owned_def m(1,2))
qed

lemma owned_store:
  assumes "owned n mem" and "n \<le> blk a" and "blk a < next_block mem" and "reflect_New t mem = (mem1, vp)"
  shows "owned n (mem1\<lparr>ptr_at := (ptr_at mem1)(a \<mapsto> vp)\<rparr>) \<and> n \<le> blk vp \<and>
    next_block mem \<le> next_block (mem1\<lparr>ptr_at := (ptr_at mem1)(a \<mapsto> vp)\<rparr>) \<and> blk vp < next_block mem1"
proof -
  let ?m = "mem1\<lparr>ptr_at := (ptr_at mem1)(a \<mapsto> vp)\<rparr>"
  have m: "vp = Addr (next_block mem) 0" "next_block ?m = Suc (next_block mem)" "next_block mem1 = Suc (next_block mem)"
    using assms(4) by (auto simp: reflect_New_def)
  have ptr: "b = a \<and> p = vp \<or> ptr_at mem b = Some p" if "ptr_at ?m b = Some p" for b p
    using that assms(4) by (auto simp: reflect_New_def split: if_splits)
  note old = ownedD [OF assms(1)]
  have "off p = 0 \<and> blk b < blk p \<and> blk p < next_block ?m" if "n \<le> blk b" "ptr_at ?m b = Some p" for b p
    using ptr [OF that(2)] old [OF that(1)] assms(3) m(1,2) by (auto simp: less_SucI)
  moreover have "b = c" if "n \<le> blk b" "n \<le> blk c" "ptr_at ?m b = Some p" "ptr_at ?m c = Some p" for b c p
    using ptr [OF that(3)] ptr [OF that(4)] old(3) [OF that(1)] old(3) [OF that(2)] owned_inj [OF assms(1) that(1,2)] m(1)
    by fastforce
  moreover have "n < next_block mem" using assms(1) by (simp add: owned_def)
  ultimately show ?thesis unfolding owned_def using m by auto
qed

lemma traverse_owned:
  assumes "owned n mem" and "n \<le> blk a" and "blk a < next_block mem" and "AddrByTraversal mem a ss = (mem', b)"
  shows "owned n mem' \<and> next_block mem \<le> next_block mem' \<and> n \<le> blk b"
  using assms
proof (induction mem a ss rule: AddrByTraversal.induct)
  case (2 mem a st steps)
  let ?p = "add_offset a (step_offset st)"
  show ?case
  proof (cases "step_type st")
    case None
    with 2 show ?thesis by simp
  next
    case t: (Some t)
    show ?thesis
    proof (cases "ptr_at mem ?p")
      case None
      obtain mem1 vp where new: "reflect_New t mem = (mem1, vp)" by (cases "reflect_New t mem")
      from owned_store [OF "2.prems"(1) _ _ new, of ?p] "2.prems"(2,3)
      have o: "owned n (mem1\<lparr>ptr_at := (ptr_at mem1)(?p \<mapsto> vp)\<rparr>)" "n \<le> blk vp" "blk vp < next_block mem1"
          "next_block mem \<le> next_block mem1" by auto
      from "2.IH"(2) [OF refl t None new [symmetric] refl refl] o "2.prems"(4) t None new show ?thesis by simp
    next
      case (Some q)
      from ownedD [OF "2.prems"(1) _ Some] "2.prems"(2) "2.IH"(3) [OF refl t Some] "2.prems" t Some show ?thesis by simp
    qed
  qed
qed simp

subsection \<open>Chains of pointers\<close>

text \<open>The pointer stored at \<open>l\<close> leads, through others perhaps, to block \<open>c\<close>.\<close>

inductive path_to :: "memory \<Rightarrow> addr \<Rightarrow> nat \<Rightarrow> bool" for mem where
  one: "ptr_at mem l = Some p \<Longrightarrow> path_to mem l (blk p)"
| more: "path_to mem l (blk l') \<Longrightarrow> ptr_at mem l' = Some p \<Longrightarrow> path_to mem l (blk p)"

lemma path_to_last:
  assumes "path_to mem l c"
  obtains l' p where "c = blk p" "ptr_at mem l' = Some p" "l' = l \<or> path_to mem l (blk l')"
  using assms by (cases rule: path_to.cases) auto

lemma path_to_later:
  assumes "path_to mem l c" and "owned n mem" and "n \<le> blk l"
  shows "blk l < c"
  using assms
proof induction
  case (one l p)
  then show ?case by (rule ownedD(2) [rotated 2])
next
  case (more l l' p)
  then have "blk l < blk l'" by simp
  moreover from this more.prems(2) have "n \<le> blk l'" by simp
  then have "blk l' < blk p" by (rule ownedD(2) [OF more.prems(1) _ more.hyps(2)])
  ultimately show ?case by simp
qed

lemma path_to_trans: "path_to mem l' c \<Longrightarrow> path_to mem l (blk l') \<Longrightarrow> path_to mem l c"
  by (induction rule: path_to.induct) (auto intro: path_to.more)

text \<open>A block is below one word of a block only.\<close>

lemma path_to_unique:
  assumes "path_to mem l1 c" and "path_to mem l2 c" and "owned n mem" and "n \<le> blk l1" and "blk l1 = blk l2"
  shows "l1 = l2"
  using assms(1,2)
proof (induction c rule: less_induct)
  case (less c)
  note later = path_to_later [OF _ assms(3)]
  have n: "n \<le> blk l2" using assms(4,5) by simp
  obtain a p where a: "c = blk p" "ptr_at mem a = Some p" "a = l1 \<or> path_to mem l1 (blk a)"
    using less.prems(1) by (rule path_to_last)
  obtain b q where b: "c = blk q" "ptr_at mem b = Some q" "b = l2 \<or> path_to mem l2 (blk b)"
    using less.prems(2) by (rule path_to_last)
  have ge: "blk l1 \<le> blk a" "blk l1 \<le> blk b" using a(3) b(3) later [OF _ assms(4)] later [OF _ n] assms(5) by fastforce+
  then have an: "n \<le> blk a" "n \<le> blk b" using assms(4) by simp_all
  have "p = q"
    using ownedD(1) [OF assms(3) an(1) a(2)] ownedD(1) [OF assms(3) an(2) b(2)] a(1) b(1) by (simp add: addr.expand)
  then have ab: "a = b" using owned_inj [OF assms(3) an a(2)] b(2) by simp
  show ?case
  proof (cases "blk a = blk l1")
    case True
    then have "a = l1" "b = l2" using a(3) b(3) ab later [OF _ assms(4)] later [OF _ n] assms(5) by fastforce+
    with ab show ?thesis by simp
  next
    case False
    then have "path_to mem l1 (blk a)" "path_to mem l2 (blk a)" using a(3) b(3) ab assms(5) by auto
    moreover have "blk a < c" using ownedD(2) [OF assms(3) an(1) a(2)] a(1) by simp
    ultimately show ?thesis using less.IH by blast
  qed
qed

subsection \<open>Territories\<close>

text \<open>
  \<open>b\<close>, of size \<open>z'\<close>, belongs to the part of size \<open>z\<close> at \<open>a\<close>: it lies in it, or a pointer stored in
  the part leads to its block.
\<close>

definition within :: "memory \<Rightarrow> addr \<Rightarrow> nat \<Rightarrow> addr \<Rightarrow> nat \<Rightarrow> bool" where
  "within mem a z b z' \<longleftrightarrow>
     blk b = blk a \<and> off a \<le> off b \<and> off b + z' \<le> off a + z \<or>
     (\<exists>l. blk l = blk a \<and> off a \<le> off l \<and> off l < off a + z \<and> path_to mem l (blk b))"

lemma within_part: "within mem (add_offset a k) z b z' \<Longrightarrow> k + z \<le> w \<Longrightarrow> within mem a w b z'"
  unfolding within_def by (elim disjE exE conjE) (auto 4 4)

lemma within_pointer:
  assumes "within mem q z b z'" and "ptr_at mem a = Some q"
  shows "within mem a 8 b z'"
proof -
  have "path_to mem a (blk q)" by (rule path_to.one [OF assms(2)])
  then have "path_to mem a (blk b)"
    using assms(1) unfolding within_def by (elim disjE exE conjE) (auto intro: path_to_trans)
  then show ?thesis unfolding within_def by (intro disjI2 exI [of _ a]) simp
qed

lemma within_disjoint:
  assumes "within mem a z b z'" and "within mem c w d w'" and "blk c = blk a" and "disjoint_parts (off a) z (off c) w"
    and "owned n mem" and "n \<le> blk a"
  shows "blk b \<noteq> blk d \<or> disjoint_parts (off b) z' (off d) w'"
proof (rule ccontr)
  assume "\<not> ?thesis"
  then have same: "blk b = blk d" and over: "\<not> disjoint_parts (off b) z' (off d) w'" by simp_all
  note later = path_to_later [OF _ assms(5)]
  from assms(1) consider "blk b = blk a" "off a \<le> off b" "off b + z' \<le> off a + z"
    | l where "blk l = blk a" "off a \<le> off l" "off l < off a + z" "path_to mem l (blk b)" unfolding within_def by blast
  then show False
  proof cases
    case 1
    from assms(2) consider "blk d = blk c" "off c \<le> off d" "off d + w' \<le> off c + w"
      | k where "blk k = blk c" "path_to mem k (blk d)" unfolding within_def by blast
    then show False
    proof cases
      case 2
      with 1 same later [OF 2(2)] assms(3,6) show False by simp
    qed (use 1 over assms(4) in \<open>auto simp: disjoint_parts_def\<close>)
  next
    case l: 2
    then have "blk a < blk b" using later [OF l(4)] assms(6) by simp
    with assms(2,3) same obtain k where k: "blk k = blk c" "off c \<le> off k" "off k < off c + w" "path_to mem k (blk d)"
      unfolding within_def by auto
    have "l = k" by (rule path_to_unique [OF l(4) _ assms(5)]) (use k l same assms(3,6) in simp_all)
    with l k assms(4) show False by (auto simp: disjoint_parts_def)
  qed
qed

text \<open>Following a traversal stays in the territory of the field it starts with.\<close>

lemma follow_append: "follow mem a (ss @ ss') = Option.bind (follow mem a ss) (\<lambda>b. follow mem b ss')"
  by (induction mem a ss rule: follow.induct) (auto simp: Let_def split: option.splits)

lemma follow_field:
  "follow mem a (field_steps f) =
     (case ptr_elem (ftype f) of None \<Rightarrow> Some (add_offset a (foffset f)) | Some e \<Rightarrow> ptr_at mem (add_offset a (foffset f)))"
  by (simp add: field_steps_def split: option.split)

lemma field_within:
  assumes "follow mem a (field_steps f) = Some a1" and "within mem a1 (size_of E (Deref (ftype f))) b z"
  shows "within mem (add_offset a (foffset f)) (size_of E (ftype f)) b z"
proof (cases "ptr_elem (ftype f)")
  case None
  with assms show ?thesis by (simp add: follow_field Deref_def)
next
  case (Some e)
  with assms have "ptr_at mem (add_offset a (foffset f)) = Some a1" by (simp add: follow_field)
  from within_pointer [OF assms(2) this] size_of_ptr [OF Some] show ?thesis by simp
qed

lemma follow_within:
  assumes "layout_ok E" and "walk E t ix = Some (ss, t')" and "follow mem a ss = Some b"
  shows "within mem a (size_of E t) b (size_of E t')"
  using assms(2,3)
proof (induction ix arbitrary: t a ss)
  case (Cons i js)
  obtain s d ss' where w: "t = TStruct s" "struct_of E s = Some d" "i < length (sfields d)"
      "walk E (Deref (ftype (sfields d ! i))) js = Some (ss', t')" "ss = field_steps (sfields d ! i) @ ss'"
    using Cons.prems(1) by (elim walk_ConsE)
  then obtain a1 where f: "follow mem a (field_steps (sfields d ! i)) = Some a1" "follow mem a1 ss' = Some b"
    using Cons.prems(2) by (auto simp: follow_append bind_eq_Some_conv)
  from field_within [OF f(1) Cons.IH [OF w(4) f(2)]] within_part layout_ok_field [OF assms(1) w(2,3)] w(1,2) show ?case
    by auto
qed (simp add: within_def)

text \<open>Two traversals from one object that part ways end at places that do not overlap.\<close>

lemma follow_disjoint:
  assumes "layout_ok E" and "owned n mem" and "n \<le> blk a" and "walk E t ix = Some (ss, t1)" and "walk E t jx = Some (ss', t2)"
    and "unrelated ix jx" and "follow mem a ss = Some b" and "follow mem a ss' = Some c"
  shows "blk b \<noteq> blk c \<or> disjoint_parts (off b) (size_of E t1) (off c) (size_of E t2)"
  using assms(3-8)
proof (induction ix arbitrary: t a jx ss ss')
  case (Cons i js1)
  then obtain j js where jx: "jx = j # js" by (cases jx) auto
  obtain s d r where w: "t = TStruct s" "struct_of E s = Some d" "i < length (sfields d)"
      "walk E (Deref (ftype (sfields d ! i))) js1 = Some (r, t1)" "ss = field_steps (sfields d ! i) @ r"
    using Cons.prems(2) by (elim walk_ConsE)
  obtain r' where w': "j < length (sfields d)"
      "walk E (Deref (ftype (sfields d ! j))) js = Some (r', t2)" "ss' = field_steps (sfields d ! j) @ r'"
    using Cons.prems(3) w(1,2) jx by (auto split: if_splits)
  obtain a1 where f: "follow mem a (field_steps (sfields d ! i)) = Some a1" "follow mem a1 r = Some b"
    using Cons.prems(5) w(5) by (auto simp: follow_append bind_eq_Some_conv)
  obtain a2 where g: "follow mem a (field_steps (sfields d ! j)) = Some a2" "follow mem a2 r' = Some c"
    using Cons.prems(6) w'(3) by (auto simp: follow_append bind_eq_Some_conv)
  show ?case
  proof (cases "i = j")
    case True
    have "n \<le> blk a1"
      using f(1) Cons.prems(1) ownedD(4) [OF assms(2), of "add_offset a (foffset (sfields d ! i))" a1]
      by (auto simp: follow_field split: option.splits)
    moreover have "unrelated js1 js" using Cons.prems(4) jx True by simp
    moreover have "a2 = a1" using f(1) g(1) True by simp
    moreover have "walk E (Deref (ftype (sfields d ! i))) js = Some (r', t2)" using w'(2) True by simp
    ultimately show ?thesis using Cons.IH [OF _ w(4) _ _ f(2)] g(2) by blast
  next
    case False
    have "disjoint_parts (foffset (sfields d ! i)) (size_of E (ftype (sfields d ! i)))
        (foffset (sfields d ! j)) (size_of E (ftype (sfields d ! j)))"
      using layout_ok_order [OF assms(1) w(2), of i j] layout_ok_order [OF assms(1) w(2), of j i] w(3) w'(1) False
      by (cases "i < j") (auto simp: disjoint_parts_def)
    then have "disjoint_parts (off (add_offset a (foffset (sfields d ! i)))) (size_of E (ftype (sfields d ! i)))
        (off (add_offset a (foffset (sfields d ! j)))) (size_of E (ftype (sfields d ! j)))"
      by (auto simp: disjoint_parts_def)
    from within_disjoint [OF field_within [OF f(1) follow_within [OF assms(1) w(4) f(2)]]
        field_within [OF g(1) follow_within [OF assms(1) w'(2) g(2)]] _ this assms(2)] Cons.prems(1)
    show ?thesis by simp
  qed
qed simp

end
