(* ===== verification/Scan_Values.thy ===== *)
theory Scan_Values
  imports Rows_Scan Reflect_Own
begin

text \<open>
  What a scan leaves in memory: every object \<open>Select\<close> makes holds, field by field, the converted values
  of its row, through all pointers on the way to a field, and later rows do not touch it.
\<close>

subsection \<open>One row\<close>

text \<open>A row all of whose values are converted, into distinct places.\<close>

definition dest_addr :: "scan_dest option \<Rightarrow> addr option" where
  "dest_addr d = (case d of Some (DField a t) \<Rightarrow> Some a | _ \<Rightarrow> None)"

definition converts :: "conv \<Rightarrow> scan_dest option \<Rightarrow> gval \<Rightarrow> bool" where
  "converts conv d v = (case d of None \<Rightarrow> False | Some DDiscard \<Rightarrow> True | Some (DField a t) \<Rightarrow> (\<exists>x. conv t v = Inr x))"

lemma dest_addr_simps [simp]: "dest_addr (Some (DField a t)) = Some a" "dest_addr (Some DDiscard) = None"
  by (simp_all add: dest_addr_def)

lemma scan_columns_ok:
  assumes "list_all2 (converts conv) ds vs" and "distinct (List.map_filter dest_addr ds)"
  shows "\<exists>v. scan_columns conv k ds vs vals = (v, None) \<and>
    (\<forall>i < length ds. \<forall>a t x. ds ! i = Some (DField a t) \<longrightarrow> conv t (vs ! i) = Inr x \<longrightarrow> v a = Some x) \<and>
    (\<forall>a. a \<notin> set (List.map_filter dest_addr ds) \<longrightarrow> v a = vals a)"
  using assms
proof (induction ds arbitrary: vs k vals)
  case (Cons d ds)
  then obtain v0 vs' where vs: "vs = v0 # vs'" "converts conv d v0" "list_all2 (converts conv) ds vs'"
    by (auto simp: list_all2_Cons1)
  have dd: "distinct (List.map_filter dest_addr ds)" using Cons.prems(2) by (auto simp: map_filter_simps split: option.splits)
  consider (disc) "d = Some DDiscard" | (fld) a t x where "d = Some (DField a t)" "conv t v0 = Inr x"
    using vs(2) by (auto simp: converts_def split: option.splits scan_dest.splits)
  then show ?case
  proof cases
    case disc
    from Cons.IH [OF vs(3) dd, of "Suc k" vals] obtain v where
      "scan_columns conv (Suc k) ds vs' vals = (v, None)"
      "\<forall>i < length ds. \<forall>a t x. ds ! i = Some (DField a t) \<longrightarrow> conv t (vs' ! i) = Inr x \<longrightarrow> v a = Some x"
      "\<forall>a. a \<notin> set (List.map_filter dest_addr ds) \<longrightarrow> v a = vals a" by blast
    with disc vs(1) show ?thesis
      by (auto simp: map_filter_simps All_less_Suc2 intro!: exI [of _ v])
  next
    case fld
    from Cons.IH [OF vs(3) dd, of "Suc k" "vals(a \<mapsto> x)"] obtain v where
      v: "scan_columns conv (Suc k) ds vs' (vals(a \<mapsto> x)) = (v, None)"
      "\<forall>i < length ds. \<forall>a t x. ds ! i = Some (DField a t) \<longrightarrow> conv t (vs' ! i) = Inr x \<longrightarrow> v a = Some x"
      "\<forall>b. b \<notin> set (List.map_filter dest_addr ds) \<longrightarrow> v b = (vals(a \<mapsto> x)) b" by blast
    have "a \<notin> set (List.map_filter dest_addr ds)" using Cons.prems(2) fld by (simp add: map_filter_simps)
    with v(3) have "v a = Some x" by simp
    with fld vs(1) v show ?thesis
      by (auto simp: map_filter_simps All_less_Suc2 intro!: exI [of _ v])
  qed
qed simp

text \<open>The row has a value for every column, and those with a field are converted for it.\<close>

definition row_ok :: "conv \<Rightarrow> struct_map \<Rightarrow> string list \<Rightarrow> gval list \<Rightarrow> bool" where
  "row_ok conv tm cols row \<longleftrightarrow>
     list_all2 (\<lambda>c v. case sm_names tm c of None \<Rightarrow> True | Some fi \<Rightarrow> (case conv (fi_target fi) v of Inl _ \<Rightarrow> False | Inr _ \<Rightarrow> True)) cols row"

text \<open>The object at an address holds a row: following the traversal of a column's field there is its converted value.\<close>

definition field_holds :: "conv \<Rightarrow> struct_map \<Rightarrow> memory \<Rightarrow> vals \<Rightarrow> addr \<Rightarrow> string \<Rightarrow> gval \<Rightarrow> bool" where
  "field_holds conv tm mem vals a c v \<longleftrightarrow>
     (case sm_names tm c of
        None \<Rightarrow> True
      | Some fi \<Rightarrow>
          (case follow mem a (fi_traversal fi) of
             None \<Rightarrow> False
           | Some b \<Rightarrow> (case conv (fi_target fi) v of Inl _ \<Rightarrow> False | Inr x \<Rightarrow> vals b = Some x)))"

definition holds_fields :: "conv \<Rightarrow> struct_map \<Rightarrow> string list \<Rightarrow> memory \<Rightarrow> vals \<Rightarrow> addr \<Rightarrow> gval list \<Rightarrow> bool" where
  "holds_fields conv tm cols mem vals a row \<longleftrightarrow> list_all2 (field_holds conv tm mem vals a) cols row"

text \<open>The columns' fields are not empty, and none is the field of another column or a part of it.\<close>

definition separate_columns :: "tenv \<Rightarrow> struct_map \<Rightarrow> string list \<Rightarrow> bool" where
  "separate_columns E tm cols \<longleftrightarrow>
     list_all (\<lambda>c. case sm_names tm c of None \<Rightarrow> True | Some fi \<Rightarrow> 0 < size_of E (fi_target fi)) cols \<and>
     sorted_wrt (\<lambda>c c'. case sm_names tm c of None \<Rightarrow> True
       | Some fi \<Rightarrow> (case sm_names tm c' of None \<Rightarrow> True | Some fj \<Rightarrow> unrelated (fi_index fi) (fi_index fj))) cols"

lemma separate_columnsD:
  assumes "separate_columns E tm cols" and "i < j" and "j < length cols"
    and "sm_names tm (cols ! i) = Some fi" and "sm_names tm (cols ! j) = Some fj"
  shows "0 < size_of E (fi_target fi)" and "0 < size_of E (fi_target fj)" and "unrelated (fi_index fi) (fi_index fj)"
proof -
  from assms(1) have size: "\<forall>c \<in> set cols. case sm_names tm c of None \<Rightarrow> True | Some fi \<Rightarrow> 0 < size_of E (fi_target fi)"
    by (simp add: separate_columns_def list_all_iff)
  have "cols ! i \<in> set cols" "cols ! j \<in> set cols" using assms(2,3) by simp_all
  with size assms(4,5) show "0 < size_of E (fi_target fi)" "0 < size_of E (fi_target fj)" by fastforce+
  from assms show "unrelated (fi_index fi) (fi_index fj)"
    by (auto simp: separate_columns_def dest!: sorted_wrt_nth_less [OF _ assms(2,3)])
qed

lemma distinct_dests:
  assumes "\<And>i j a b. i < j \<Longrightarrow> j < length ds \<Longrightarrow> dest_addr (ds ! i) = Some a \<Longrightarrow> dest_addr (ds ! j) = Some b \<Longrightarrow> a \<noteq> b"
  shows "distinct (List.map_filter dest_addr ds)"
  using assms
proof (induction ds)
  case (Cons d ds)
  have "distinct (List.map_filter dest_addr ds)"
    by (rule Cons.IH) (use Cons.prems [of "Suc _" "Suc _"] in auto)
  moreover have "a \<notin> set (List.map_filter dest_addr ds)" if "dest_addr d = Some a" for a
  proof
    assume "a \<in> set (List.map_filter dest_addr ds)"
    then obtain j where "j < length ds" "dest_addr (ds ! j) = Some a"
      by (auto simp: List.map_filter_def in_set_conv_nth)
    with Cons.prems [of 0 "Suc j" a a] that show False by simp
  qed
  ultimately show ?case by (auto simp: map_filter_simps split: option.split)
qed (simp add: map_filter_simps)

lemma populate_owned:
  assumes "owned n mem" and "n \<le> blk base" and "blk base < next_block mem"
    and "populateScanDest mem base ms dests = Some (mem', dests')"
  shows "owned n mem' \<and> next_block mem \<le> next_block mem'"
  using assms
proof (induction ms arbitrary: mem dests)
  case (Cons m ms)
  show ?case
  proof (cases "fm_traversal m")
    case None
    with Cons show ?thesis by (auto split: if_splits)
  next
    case (Some tr)
    obtain mem1 a where a: "(if fm_isPtrPath m then AddrByTraversal mem base tr
        else (mem, add_offset base (fm_offset m))) = (mem1, a)" by fastforce
    with Cons.prems have one: "owned n mem1" "next_block mem \<le> next_block mem1"
      using traverse_owned [OF Cons.prems(1-3), of tr mem1 a] by (auto split: if_splits)
    from Cons.prems(4) Some a obtain d where "populateScanDest mem1 base ms d = Some (mem', dests')"
      by (auto split: option.splits if_splits)
    from Cons.IH [OF one(1) Cons.prems(2) _ this] one(2) Cons.prems(3) show ?thesis by auto
  qed
qed simp

text \<open>Destinations of separate columns on a new object are different places, all of them new.\<close>

lemma columns_distinct:
  assumes "layout_ok E" and "owned n mem" and "n \<le> blk base" and "Deref t = t" and "type_map E m t = Some tm"
    and "separate_columns E tm cols" and "length ds = length cols"
    and "\<forall>i < length cols. column_dest E mem base tm (cols ! i) (ds ! i)"
  shows "distinct (List.map_filter dest_addr ds) \<and> (\<forall>a \<in> set (List.map_filter dest_addr ds). n \<le> blk a)"
proof
  have fld: "\<exists>fi. sm_names tm (cols ! i) = Some fi \<and> follow mem base (fi_traversal fi) = Some a \<and>
      walk E t (fi_index fi) = Some (fi_traversal fi, fi_target fi)"
    if "i < length cols" "dest_addr (ds ! i) = Some a" for i a
    using assms(8) that mapType_names_ok [of E m t tm "cols ! i"] assms(4,5)
    by (fastforce simp: column_dest_def dest_addr_def type_map_def info_ok_def split: option.splits scan_dest.splits)
  show "distinct (List.map_filter dest_addr ds)"
  proof (rule distinct_dests)
    fix i j a b assume ij: "i < j" "j < length ds" "dest_addr (ds ! i) = Some a" "dest_addr (ds ! j) = Some b"
    then obtain fi fj where f: "sm_names tm (cols ! i) = Some fi" "follow mem base (fi_traversal fi) = Some a"
        "walk E t (fi_index fi) = Some (fi_traversal fi, fi_target fi)" "sm_names tm (cols ! j) = Some fj"
        "follow mem base (fi_traversal fj) = Some b" "walk E t (fi_index fj) = Some (fi_traversal fj, fi_target fj)"
      using fld [of i a] fld [of j b] assms(7) by auto
    note sep = separate_columnsD [OF assms(6) ij(1) _ f(1,4)]
    from follow_disjoint [OF assms(1-3) f(3,6) sep(3) f(2,5)] sep(1,2) ij(2) assms(7) show "a \<noteq> b"
      by (auto simp: disjoint_parts_def)
  qed
  show "\<forall>a \<in> set (List.map_filter dest_addr ds). n \<le> blk a"
  proof
    fix a assume "a \<in> set (List.map_filter dest_addr ds)"
    then obtain i where "i < length ds" "dest_addr (ds ! i) = Some a" by (auto simp: List.map_filter_def in_set_conv_nth)
    then obtain fi where "sm_names tm (cols ! i) = Some fi" "follow mem base (fi_traversal fi) = Some a"
        "walk E t (fi_index fi) = Some (fi_traversal fi, fi_target fi)" using fld [of i a] assms(7) by auto
    from follow_within [OF assms(1) this(3,2)] show "n \<le> blk a"
      using path_to_later [OF _ assms(2)] assms(3) by (fastforce simp: within_def)
  qed
qed

lemma column_converts:
  "column_dest E mem a tm c d \<Longrightarrow>
     (case sm_names tm c of None \<Rightarrow> True | Some fi \<Rightarrow> (case conv (fi_target fi) v of Inl _ \<Rightarrow> False | Inr _ \<Rightarrow> True)) \<Longrightarrow> converts conv d v"
  by (auto simp: column_dest_def converts_def split: option.splits sum.splits)

lemma column_holds:
  "column_dest E mem a tm c d \<Longrightarrow>
     (case sm_names tm c of None \<Rightarrow> True | Some fi \<Rightarrow> (case conv (fi_target fi) v of Inl _ \<Rightarrow> False | Inr _ \<Rightarrow> True)) \<Longrightarrow>
     (\<And>b ft x. d = Some (DField b ft) \<Longrightarrow> conv ft v = Inr x \<Longrightarrow> vals b = Some x) \<Longrightarrow>
     field_holds conv tm mem vals a c v"
  by (auto simp: column_dest_def field_holds_def split: option.splits sum.splits)

text \<open>Scanning one row into an object in blocks of its own, a new one in particular.\<close>

lemma scan_row_into:
  assumes "layout_ok E" and "heap_ok E mem1" and "obj_at E mem1 a t" and "owned n mem1" and "n \<le> blk a"
    and "Deref t = t" and "type_map E m t = Some tm"
    and "fresh_meta E t (rs_columns rows) tm u = Ok meta" and "separate_columns E tm (rs_columns rows)"
    and "length dests = length (rs_columns rows)" and "\<not> rs_closed rows" and "rs_current rows = Some row"
    and "row_ok conv tm (rs_columns rows) row" and "alloc mem = (mem1, a)"
  shows "\<exists>mem2 vals1 dests1.
    scan_struct conv meta alloc yield rows (mem, vals, dests, s) =
      Some ((mem2, vals1, dests1, fst (yield a s)), snd (yield a s)) \<and>
    heap_ok E mem2 \<and> mem_le mem1 mem2 \<and> next_block mem1 \<le> next_block mem2 \<and> length dests1 = length dests \<and>
    holds_fields conv tm (rs_columns rows) mem2 vals1 a row \<and> (\<forall>b. blk b < n \<longrightarrow> vals1 b = vals b)"
proof -
  let ?cols = "rs_columns rows"
  note blk = obj_at_block [OF assms(2,3)]
  from populate_columns [OF assms(1,2,3,6,7,8,10)] obtain mem2 d where
    p: "populateScanDest mem1 a meta dests = Some (mem2, d)" "heap_ok E mem2" "mem_le mem1 mem2" "length d = length ?cols"
      "\<forall>i < length ?cols. column_dest E mem2 a tm (?cols ! i) (d ! i)" by blast
  note own = populate_owned [OF assms(4,5) blk p(1)]
  note dd = columns_distinct [OF assms(1) conjunct1 [OF own] assms(5,6,7,9) p(4,5)]
  have rl: "length row = length ?cols" using assms(13) by (auto simp: row_ok_def dest: list_all2_lengthD)
  have conv: "list_all2 (converts conv) d row"
    by (rule list_all2_all_nthI, use p(4) rl in simp)
      (rule column_converts, use p(4,5) rl assms(13) in \<open>auto simp: row_ok_def list_all2_conv_all_nth\<close>)
  from scan_columns_ok [OF conv conjunct1 [OF dd], of 0 vals] obtain v where v: "scan_columns conv 0 d row vals = (v, None)"
      "\<forall>i < length d. \<forall>b ft x. d ! i = Some (DField b ft) \<longrightarrow> conv ft (row ! i) = Inr x \<longrightarrow> v b = Some x"
      "\<forall>b. b \<notin> set (List.map_filter dest_addr d) \<longrightarrow> v b = vals b" by blast
  have "holds_fields conv tm ?cols mem2 v a row"
    unfolding holds_fields_def
    by (rule list_all2_all_nthI, use rl in simp)
      (rule column_holds, use v(2) p(4,5) rl assms(13) in \<open>auto simp: row_ok_def list_all2_conv_all_nth\<close>)
  moreover have "v b = vals b" if "blk b < n" for b
    using v(3) conjunct2 [OF dd] that by (meson leD)
  moreover have "scan_struct conv meta alloc yield rows (mem, vals, dests, s) =
      Some ((mem2, v, d, fst (yield a s)), snd (yield a s))"
    using assms(14) p(1,4) v(1) assms(11,12) rl by (simp add: scan_struct_def rows_Scan_def split_beta)
  ultimately show ?thesis using p(2-4) assms(10) own by auto
qed

lemma scan_row_values:
  assumes "layout_ok E" and "heap_ok E mem" and "Deref t = t" and "type_map E m t = Some tm"
    and "fresh_meta E t (rs_columns rows) tm u = Ok meta" and "separate_columns E tm (rs_columns rows)"
    and "length dests = length (rs_columns rows)" and "\<not> rs_closed rows" and "rs_current rows = Some row"
    and "row_ok conv tm (rs_columns rows) row"
  shows "\<exists>mem2 vals1 dests1 a.
    scan_struct conv meta (reflect_New t) yield rows (mem, vals, dests, s) =
      Some ((mem2, vals1, dests1, fst (yield a s)), snd (yield a s)) \<and>
    heap_ok E mem2 \<and> mem_le mem mem2 \<and> next_block mem \<le> next_block mem2 \<and> length dests1 = length dests \<and> obj_at E mem2 a t \<and>
    holds_fields conv tm (rs_columns rows) mem2 vals1 a row \<and> (\<forall>b. blk b < next_block mem \<longrightarrow> vals1 b = vals b)"
proof -
  obtain mem1 a where new: "reflect_New t mem = (mem1, a)" by (cases "reflect_New t mem")
  note n = reflect_New_ok [OF assms(2) new] owned_start [OF assms(2) new]
  then have h: "heap_ok E mem1" "obj_at E mem1 a t" "owned (next_block mem) mem1" "next_block mem \<le> blk a" "mem_le mem mem1" by auto
  have le: "next_block mem \<le> next_block mem1" using h(4) obj_at_block [OF h(1,2)] by simp
  from scan_row_into [where yield = yield and vals = vals and s = s and alloc = "reflect_New t" and mem = mem, OF assms(1) h(1-4) assms(3-10) new]
  show ?thesis using mem_le_trans [OF h(5)] obj_at_mono [OF _ h(2)] le by (meson order_trans)
qed

text \<open>Later rows leave an object alone.\<close>

lemma holds_fields_keep:
  assumes "layout_ok E" and "heap_ok E mem" and "obj_at E mem a t" and "Deref t = t" and "type_map E m t = Some tm"
    and "mem_le mem mem'" and "\<And>b. blk b < next_block mem \<Longrightarrow> vals' b = vals b" and "holds_fields conv tm cols mem vals a row"
  shows "holds_fields conv tm cols mem' vals' a row"
proof -
  have inside: "blk b < next_block mem" if "sm_names tm c = Some fi" "follow mem a (fi_traversal fi) = Some b" for c fi b
  proof -
    have "walk E t (fi_index fi) = Some (fi_traversal fi, fi_target fi)"
      using mapType_names_ok [OF _ that(1), of E m t] assms(4,5) by (simp add: type_map_def info_ok_def)
    from traverse_ok [OF assms(1-3) this AddrByTraversal_follow [OF that(2)]] show ?thesis
      using obj_at_block assms(2) by blast
  qed
  have keep: "field_holds conv tm mem' vals' a c v" if h: "field_holds conv tm mem vals a c v" for c v
  proof (cases "sm_names tm c")
    case (Some fi)
    with h obtain b where b: "follow mem a (fi_traversal fi) = Some b" by (auto simp: field_holds_def split: option.splits)
    with h Some show ?thesis
      using follow_mono [OF assms(6) b] inside [OF Some b] assms(7) by (auto simp: field_holds_def split: sum.splits)
  qed (simp add: field_holds_def)
  from assms(8) show ?thesis
    unfolding holds_fields_def by (rule list.rel_mono_strong) (rule keep)
qed

subsection \<open>All rows\<close>

text \<open>
  The contract of the body of a loop over rows: from a state that is right for the rows done, an acceptable
  row leads without an error to one that is right with it.  Then so does the loop.
\<close>

locale row_body =
  fixes one :: "sql_rows \<Rightarrow> 'st \<Rightarrow> ('st \<times> go_error option) option"
    and ok :: "gval list \<Rightarrow> bool"
    and cols :: "string list"
    and inv :: "gval list list \<Rightarrow> 'st \<Rightarrow> bool"
  assumes step: "inv done st \<Longrightarrow> ok row \<Longrightarrow> \<not> rs_closed rows \<Longrightarrow> rs_columns rows = cols \<Longrightarrow> rs_current rows = Some row \<Longrightarrow>
    \<exists>st1. one rows st = Some (st1, None) \<and> inv (done @ [row]) st1"
begin

lemma scan_loop_inv:
  assumes "inv done st" and "list_all ok (rs_pending rows)" and "\<not> rs_closed rows" and "rs_columns rows = cols"
  shows "\<exists>rows1 st1. scan_loop one rows st = Some (rows1, st1, rs_err rows) \<and> rs_closed rows1 \<and> inv (done @ rs_pending rows) st1"
  using assms
proof (induction "rs_pending rows" arbitrary: rows st "done")
  case Nil
  then show ?case by (auto simp: scan_loop_end)
next
  case (Cons row rest)
  note pend = Cons.hyps(2) [symmetric]
  let ?rows = "rows\<lparr>rs_pending := rest, rs_current := Some row\<rparr>"
  from step [OF Cons.prems(1), of row ?rows] Cons.prems(2-4) pend obtain st1 where
    s: "one ?rows st = Some (st1, None)" "inv (done @ [row]) st1" by auto
  from Cons.hyps(1) [of ?rows, OF _ s(2)] Cons.prems(2-4) pend s(1) show ?case
    by (simp add: scan_loop_row [OF Cons.prems(3) pend])
qed

end

text \<open>The objects of the rows done, in memory that was \<open>mem0\<close> and \<open>vals0\<close> before.\<close>

definition objects_hold ::
  "tenv \<Rightarrow> conv \<Rightarrow> gtype \<Rightarrow> struct_map \<Rightarrow> string list \<Rightarrow> memory \<Rightarrow> vals \<Rightarrow> addr list \<Rightarrow> gval list list \<Rightarrow> bool" where
  "objects_hold E conv t tm cols mem vals new rows \<longleftrightarrow>
     list_all2 (\<lambda>a row. obj_at E mem a t \<and> holds_fields conv tm cols mem vals a row) new rows"

definition select_inv ::
  "tenv \<Rightarrow> conv \<Rightarrow> gtype \<Rightarrow> struct_map \<Rightarrow> string list \<Rightarrow> (addr \<Rightarrow> slice_item) \<Rightarrow> memory \<Rightarrow> vals \<Rightarrow> slice_item list \<Rightarrow>
   gval list list \<Rightarrow> slice_item list scan_state \<Rightarrow> bool" where
  "select_inv E conv t tm cols f mem0 vals0 items0 done st \<longleftrightarrow>
     (case st of (mem, vals, dests, items) \<Rightarrow>
        heap_ok E mem \<and> next_block mem0 \<le> next_block mem \<and> length dests = length cols \<and>
        (\<forall>b. blk b < next_block mem0 \<longrightarrow> vals b = vals0 b) \<and>
        (\<exists>new. items = items0 @ map f new \<and> objects_hold E conv t tm cols mem vals new done))"

text \<open>What is fixed during a scan: the type, its mapping, and the plan.\<close>

definition plan_ok :: "tenv \<Rightarrow> mapper \<Rightarrow> gtype \<Rightarrow> struct_map \<Rightarrow> bool \<Rightarrow> string list \<Rightarrow> field_meta list \<Rightarrow> bool" where
  "plan_ok E m t tm u cols meta \<longleftrightarrow>
     layout_ok E \<and> Deref t = t \<and> type_map E m t = Some tm \<and> fresh_meta E t cols tm u = Ok meta \<and> separate_columns E tm cols"

lemma select_step:
  assumes "plan_ok E m t tm u cols meta" and "select_inv E conv t tm cols f mem0 vals0 items0 done st"
    and "row_ok conv tm cols row" and "\<not> rs_closed rows" and "rs_columns rows = cols" and "rs_current rows = Some row"
  shows "\<exists>st1. scan_struct conv meta (reflect_New t) (\<lambda>a s. (s @ [f a], None)) rows st = Some (st1, None) \<and>
    select_inv E conv t tm cols f mem0 vals0 items0 (done @ [row]) st1"
proof -
  obtain mem vals dests items where st: "st = (mem, vals, dests, items)" by (cases st) auto
  have p: "layout_ok E" "Deref t = t" "type_map E m t = Some tm" "fresh_meta E t (rs_columns rows) tm u = Ok meta"
      "separate_columns E tm (rs_columns rows)" "row_ok conv tm (rs_columns rows) row"
    using assms(1,3,5) by (simp_all add: plan_ok_def)
  from assms(2) st obtain new where inv: "heap_ok E mem" "next_block mem0 \<le> next_block mem" "length dests = length (rs_columns rows)"
      "\<forall>b. blk b < next_block mem0 \<longrightarrow> vals b = vals0 b" "items = items0 @ map f new" "objects_hold E conv t tm cols mem vals new done"
    using assms(5) by (auto simp: select_inv_def)
  from scan_row_values [where yield = "\<lambda>a s. (s @ [f a], None)" and vals = vals and s = items,
      OF p(1) inv(1) p(2-5) inv(3) assms(4,6) p(6)]
  obtain mem2 vals1 dests1 a where
    o: "scan_struct conv meta (reflect_New t) (\<lambda>a s. (s @ [f a], None)) rows st = Some ((mem2, vals1, dests1, items @ [f a]), None)"
      "heap_ok E mem2" "mem_le mem mem2" "next_block mem \<le> next_block mem2" "length dests1 = length dests" "obj_at E mem2 a t"
      "holds_fields conv tm (rs_columns rows) mem2 vals1 a row" "\<forall>b. blk b < next_block mem \<longrightarrow> vals1 b = vals b"
    unfolding st by auto
  have "obj_at E mem2 b t \<and> holds_fields conv tm cols mem2 vals1 b r" if "obj_at E mem b t \<and> holds_fields conv tm cols mem vals b r" for b r
    using that holds_fields_keep [OF p(1) inv(1) _ p(2,3) o(3), of b vals1 vals] o(8) obj_at_mono [OF o(3)] by blast
  then have "objects_hold E conv t tm cols mem2 vals1 new done"
    using inv(6) unfolding objects_hold_def by (rule list.rel_mono_strong [rotated])
  then have "objects_hold E conv t tm cols mem2 vals1 (new @ [a]) (done @ [row])"
    using o(6,7) assms(5) by (simp add: objects_hold_def list_all2_appendI)
  with o inv show ?thesis
    by (auto simp: select_inv_def assms(5) intro!: exI [of _ "new @ [a]"])
qed

interpretation select_body: row_body "scan_struct conv meta (reflect_New t) (\<lambda>a s. (s @ [f a], None))" "row_ok conv tm cols" cols
  "\<lambda>done st. plan_ok E m t tm u cols meta \<and> select_inv E conv t tm cols f mem0 vals0 items0 done st"
  for E conv m t tm u cols meta f mem0 vals0 items0
  by unfold_locales (blast dest: select_step)

subsection \<open>\<open>Select\<close>\<close>

fun item_addr :: "slice_item \<Rightarrow> addr" where
  "item_addr (ItemPtr a) = a"
| "item_addr (ItemCopy a) = a"

text \<open>
  C1. \<open>Select\<close> is correct: on an open result set whose rows all convert, for a destination \<open>*[]T\<close> or \<open>*[]*T\<close> with \<open>T\<close> a struct
  whose columns name separate fields, \<open>selectScan\<close> appends one object per row, in the order of the rows.  Each is an
  object of type \<open>T\<close> in which following a column's field, through embedded structs and through pointers made on the way,
  leads to the converted value of that column in that row, and none was disturbed by the rows after it.  No memory
  that was there before is written to, and the error is the one the driver ended the rows with, if any.
\<close>

theorem selectScan_rows:
  assumes "layout_ok E" and "heap_ok E mem" and "meta_sound E m (en_metaCache en)"
    and "Option.bind (ptr_elem destType) slice_elem = Some et" and "t = (if kind_of et = KPtr then Deref et else et)"
    and "Deref t = t" and "\<not> isScannable E t" and "type_map E m t = Some tm" and "strict \<longrightarrow> sm_errors tm = []"
    and "fresh_meta E t (rs_columns rows) tm u = Ok meta" and "separate_columns E tm (rs_columns rows)"
    and "\<not> rs_closed rows" and "list_all (row_ok conv tm (rs_columns rows)) (rs_pending rows)"
  shows "\<exists>en1 rows1 mem1 vals1 new.
    selectScan E conv en rows destType False u strict (Some m) mem vals elems =
      Some (en1, rows1, mem1, vals1, elems @ new, rs_err rows) \<and>
    heap_ok E mem1 \<and> (\<forall>a. blk a < next_block mem \<longrightarrow> vals1 a = vals a) \<and>
    list_all2 (\<lambda>x row. obj_at E mem1 (item_addr x) t \<and> holds_fields conv tm (rs_columns rows) mem1 vals1 (item_addr x) row)
      new (rs_pending rows)"
proof -
  let ?cols = "rs_columns rows" and ?f = "\<lambda>a. if kind_of et = KPtr then ItemPtr a else ItemCopy a"
  obtain c1 where b: "buildMeta E (en_metaCache en) t ?cols tm u = (c1, Ok meta)"
    using buildMeta_correct [OF assms(3,8), of ?cols u] assms(10) by (metis prod.collapse)
  obtain pool1 sd where g: "getScanDest (en_pool en) (length ?cols) = (pool1, sd)"
    by (cases "getScanDest (en_pool en) (length ?cols)")
  then have len: "length (fst sd) = length ?cols" using length_getScanDest by (metis snd_conv)
  have "plan_ok E m t tm u ?cols meta \<and> select_inv E conv t tm ?cols ?f mem vals elems [] (mem, vals, fst sd, elems)"
    using assms(1,2,6,8,10,11) len by (simp add: plan_ok_def select_inv_def objects_hold_def)
  from select_body.scan_loop_inv [OF this assms(13,12) refl]
  obtain rows1 mem1 vals1 d new where
    l: "scan_loop (scan_struct conv meta (reflect_New t) (\<lambda>a s. (s @ [?f a], None))) rows (mem, vals, fst sd, elems) =
        Some (rows1, (mem1, vals1, d, elems @ map ?f new), rs_err rows)" "rs_closed rows1" "heap_ok E mem1"
      "\<forall>b. blk b < next_block mem \<longrightarrow> vals1 b = vals b" "objects_hold E conv t tm ?cols mem1 vals1 new (rs_pending rows)"
    by (auto simp: select_inv_def)
  have "iterateScan E conv en rows t u strict (Some m) (reflect_New t) (\<lambda>a s. (s @ [?f a], None)) mem vals elems =
      Some (en\<lparr>en_metaCache := c1, en_pool := putScanDest (d, snd sd) pool1\<rparr>, rows1, mem1, vals1, elems @ map ?f new, rs_err rows)"
    using assms(7,8,9,12) b g l(1,2)
    by (cases strict) (simp_all add: iterateScan_def iterate_body_def rows_Columns_def nil_TypeMap_def close_rows_def rows_Close_def split: option.split)
  moreover have "list_all2 (\<lambda>x row. obj_at E mem1 (item_addr x) t \<and> holds_fields conv tm ?cols mem1 vals1 (item_addr x) row)
      (map ?f new) (rs_pending rows)"
    using l(5) by (simp add: objects_hold_def list_all2_map1 if_distrib [of item_addr] cong: if_cong)
  ultimately show ?thesis using assms(4,5) l(3,4) by (auto simp: selectScan_def Let_def)
qed

text \<open>Two persons with a city behind a struct and a zip behind a pointer; the driver fails after them.\<close>

definition address_rs :: sql_rows where
  "address_rs = \<lparr>rs_columns = [''zip'', ''city'', ''name''],
     rs_pending = [[VBasic (TBasic BString) ''00100'', VBasic (TBasic BString) ''Rome'', VBasic (TBasic BString) ''Ann''],
                   [VBasic (TBasic BString) ''0150'', VBasic (TBasic BString) ''Oslo'', VBasic (TBasic BString) ''Bob'']],
     rs_current = None, rs_err = Some (Foreign ''connection lost''), rs_close_err = None, rs_closed = False, rs_ended = False\<rparr>"

theorem selectScan_rows_witness:
  "\<exists>en1 rows1 mem1 vals1 a b.
    selectScan sample_types sample_conv sample_engine address_rs (TPtr (TSlice (TPtr (TStruct ''Person'')))) False False False
      (Some sample_mapper) empty_memory Map.empty [] =
        Some (en1, rows1, mem1, vals1, [a, b], Some (Foreign ''connection lost'')) \<and>
    holds_fields sample_conv sample_person [''zip'', ''city'', ''name''] mem1 vals1 (item_addr a)
      [VBasic (TBasic BString) ''00100'', VBasic (TBasic BString) ''Rome'', VBasic (TBasic BString) ''Ann'']"
proof -
  have "case fresh_meta sample_types (TStruct ''Person'') (rs_columns address_rs) sample_person False of Ok _ \<Rightarrow> True | _ \<Rightarrow> False"
    by code_simp
  then obtain meta where fm: "fresh_meta sample_types (TStruct ''Person'') (rs_columns address_rs) sample_person False = Ok meta"
    by (auto split: result.splits)
  have c: "layout_ok sample_types" "\<not> isScannable sample_types (TStruct ''Person'')"
      "separate_columns sample_types sample_person (rs_columns address_rs)"
      "list_all (row_ok sample_conv sample_person (rs_columns address_rs)) (rs_pending address_rs)"
    by code_simp+
  have t: "Option.bind (ptr_elem (TPtr (TSlice (TPtr (TStruct ''Person''))))) slice_elem = Some (TPtr (TStruct ''Person''))"
      "TStruct ''Person'' = (if kind_of (TPtr (TStruct ''Person'')) = KPtr then Deref (TPtr (TStruct ''Person'')) else TPtr (TStruct ''Person''))"
      "Deref (TStruct ''Person'') = TStruct ''Person''" "meta_sound sample_types sample_mapper (en_metaCache sample_engine)"
      "\<not> rs_closed address_rs" "False \<longrightarrow> sm_errors sample_person = []"
    by (simp_all add: Deref_def sample_engine_def meta_sound_empty address_rs_def)
  from selectScan_rows [OF c(1) empty_memory_ok t(4,1,2,3) c(2) sample_type_map t(6) fm c(3) t(5) c(4), of Map.empty "[]"]
  show ?thesis by (auto simp: address_rs_def list_all2_Cons2)
qed

subsection \<open>\<open>Get\<close>\<close>

text \<open>
  C7. \<open>Get\<close> is correct: into a variable of a struct type \<open>T\<close> declared just before, \<open>getScan\<close> of an open result set
  whose columns name separate fields reads exactly the first row.  If the row converts, the variable holds it, field by
  field, behind pointers too, and there is no error; nothing older is written to; the rows after the first
  are left and closed.  A failure of \<open>Close\<close> is returned.
\<close>

theorem getScan_row:
  assumes "layout_ok E" and "heap_ok E mem0" and "reflect_New t mem0 = (mem, dest)" and "meta_sound E m (en_metaCache en)"
    and "ptr_elem destType = Some t" and "Deref t = t" and "\<not> isScannable E t" and "type_map E m t = Some tm"
    and "strict \<longrightarrow> sm_errors tm = []"
    and "fresh_meta E t (rs_columns rows) tm u = Ok meta" and "separate_columns E tm (rs_columns rows)"
    and "\<not> rs_closed rows" and "rs_pending rows = row # rest" and "row_ok conv tm (rs_columns rows) row"
  shows "\<exists>en1 rows1 mem1 vals1.
    getScan E conv en rows destType dest u strict (Some m) mem vals = Some (en1, rows1, mem1, vals1, rs_close_err rows) \<and>
    rs_pending rows1 = rest \<and> rs_closed rows1 \<and> heap_ok E mem1 \<and> obj_at E mem1 dest t \<and>
    holds_fields conv tm (rs_columns rows) mem1 vals1 dest row \<and> (\<forall>a. blk a < next_block mem0 \<longrightarrow> vals1 a = vals a)"
proof -
  let ?cols = "rs_columns rows" and ?rows = "rows\<lparr>rs_pending := rest, rs_current := Some row\<rparr>"
  let ?alloc = "\<lambda>mem :: memory. (mem, dest)" and ?yield = "\<lambda>vp (found :: bool). (True, Some (Sentinel ErrStopIter))"
  obtain c1 where b: "buildMeta E (en_metaCache en) t ?cols tm u = (c1, Ok meta)"
    using buildMeta_correct [OF assms(4,8), of ?cols u] assms(10) by (metis prod.collapse)
  obtain pool1 sd where g: "getScanDest (en_pool en) (length ?cols) = (pool1, sd)"
    by (cases "getScanDest (en_pool en) (length ?cols)")
  then have len: "length (fst sd) = length (rs_columns ?rows)"
    using length_getScanDest [of "en_pool en" "length ?cols"] by simp
  have h: "heap_ok E mem" "obj_at E mem dest t" "owned (next_block mem0) mem" "next_block mem0 \<le> blk dest"
    using reflect_New_ok [OF assms(2,3)] owned_start [OF assms(2,3)] by auto
  from scan_row_into [where rows = ?rows and alloc = ?alloc and yield = ?yield and s = False and vals = vals and mem = mem
        and u = u and meta = meta and row = row and conv = conv,
      OF assms(1) h assms(6,8) _ _ len] assms(10-14)
  obtain mem1 vals1 d where
    o: "scan_struct conv meta ?alloc ?yield ?rows (mem, vals, fst sd, False) =
        Some ((mem1, vals1, d, True), Some (Sentinel ErrStopIter))" "heap_ok E mem1" "mem_le mem mem1"
      "holds_fields conv tm ?cols mem1 vals1 dest row" "\<forall>a. blk a < next_block mem0 \<longrightarrow> vals1 a = vals a" by auto
  have "scan_loop (scan_struct conv meta ?alloc ?yield) rows (mem, vals, fst sd, False) =
      Some (?rows, (mem1, vals1, d, True), None)"
    using o(1) by (simp add: scan_loop_row [OF assms(12,13)])
  with assms(5,7,8,9,12) b g have "getScan E conv en rows destType dest u strict (Some m) mem vals =
      Some (en\<lparr>en_metaCache := c1, en_pool := putScanDest (d, snd sd) pool1\<rparr>, ?rows\<lparr>rs_closed := True\<rparr>, mem1, vals1, rs_close_err rows)"
    by (cases strict) (simp_all add: getScan_def iterateScan_def iterate_body_def rows_Columns_def nil_TypeMap_def
        close_rows_def rows_Close_def split: option.split)
  with o h(2) obj_at_mono [OF o(3) h(2)] show ?thesis by auto
qed

theorem getScan_row_witness:
  "\<exists>en1 rows1 mem1 vals1. getScan sample_types sample_conv sample_engine address_rs (TPtr (TStruct ''Person'')) (Addr 0 0) False True
      (Some sample_mapper) person_memory Map.empty = Some (en1, rows1, mem1, vals1, None) \<and> length (rs_pending rows1) = 1 \<and>
    holds_fields sample_conv sample_person [''zip'', ''city'', ''name''] mem1 vals1 (Addr 0 0)
      [VBasic (TBasic BString) ''00100'', VBasic (TBasic BString) ''Rome'', VBasic (TBasic BString) ''Ann'']"
proof -
  have "case fresh_meta sample_types (TStruct ''Person'') (rs_columns address_rs) sample_person False of Ok _ \<Rightarrow> True | _ \<Rightarrow> False"
    by code_simp
  then obtain meta where fm: "fresh_meta sample_types (TStruct ''Person'') (rs_columns address_rs) sample_person False = Ok meta"
    by (auto split: result.splits)
  have c: "layout_ok sample_types" "\<not> isScannable sample_types (TStruct ''Person'')"
      "separate_columns sample_types sample_person (rs_columns address_rs)"
      "row_ok sample_conv sample_person (rs_columns address_rs) (hd (rs_pending address_rs))" "sm_errors sample_person = []"
    by code_simp+
  have t: "reflect_New (TStruct ''Person'') empty_memory = (person_memory, Addr 0 0)" "ptr_elem (TPtr (TStruct ''Person'')) = Some (TStruct ''Person'')"
      "Deref (TStruct ''Person'') = TStruct ''Person''" "meta_sound sample_types sample_mapper (en_metaCache sample_engine)"
      "\<not> rs_closed address_rs" "True \<longrightarrow> sm_errors sample_person = []"
      "rs_pending address_rs = hd (rs_pending address_rs) # tl (rs_pending address_rs)"
    by (simp_all add: Deref_def sample_engine_def meta_sound_empty address_rs_def person_memory_def reflect_New_def empty_memory_def c(5))
  from getScan_row [OF c(1) empty_memory_ok t(1,4,2,3) c(2) sample_type_map t(6) fm c(3) t(5,7) c(4), of Map.empty]
  show ?thesis by (auto simp: address_rs_def)
qed

end
