(* ===== verification/Generics_Props.thy ===== *)
theory Generics_Props
  imports Generics Scan_Values
begin

text \<open>
  The generic functions against the ones they repeat: \<open>SelectG\<close> gives what \<open>Select\<close> gives,
  \<open>SelectIter\<close> hands the elements out one by one, and the array \<open>SelectG\<close> grows keeps what was
  scanned into it.
\<close>

subsection \<open>The two loops\<close>

lemma scan_loop_for_rows:
  "scan_loop one rows st =
    (case for_rows one rows st of
       None \<Rightarrow> None
     | Some (rows1, st1, None) \<Rightarrow> Some (rows1, st1, rows_Err rows1)
     | Some (rows1, st1, Some e) \<Rightarrow> Some (rows1, st1, if e = Sentinel ErrStopIter then None else Some e))"
proof (induction one rows st rule: for_rows.induct)
  case (1 one rows st)
  obtain rows1 ok where n: "rows_Next rows = (rows1, ok)" by (cases "rows_Next rows")
  show ?case
  proof (cases "ok")
    case True
    with 1 n show ?thesis
      by (subst for_rows.simps, subst scan_loop.simps) (auto split: option.split prod.split)
  next
    case False
    with n show ?thesis
      by (subst for_rows.simps, subst scan_loop.simps) simp
  qed
qed

text \<open>An error a body never returns is not returned by the loop.\<close>

lemma for_rows_err:
  "\<forall>rows st st1 err. one rows st = Some (st1, err) \<longrightarrow> err \<noteq> Some e \<Longrightarrow>
     for_rows one rows st = Some (rows1, st1, err) \<Longrightarrow> err \<noteq> Some e"
proof (induction one rows st rule: for_rows.induct)
  case (1 one rows st)
  obtain rows2 ok where n: "rows_Next rows = (rows2, ok)" by (cases "rows_Next rows")
  from 1(3) n show ?case
    by (subst (asm) for_rows.simps) (use 1(1) [OF n [symmetric]] 1(2) in \<open>auto split: if_splits option.splits prod.splits\<close>)
qed

lemma gen_result_view:
  "err \<noteq> Some (Sentinel ErrStopIter) \<Longrightarrow>
   gen_result rows (GItems xs) err =
     (case err of
        Some e \<Rightarrow> (GNil, Some e)
      | None \<Rightarrow> (case rows_Err rows of
          Some e \<Rightarrow> (GNil, Some (Errorf ''sqlx: row error: %w'' [] (Some e))) | None \<Rightarrow> (GItems xs, None)))"
  by (simp add: gen_result_def row_error_def split: option.split)

subsection \<open>\<open>SelectG\<close> and \<open>Select\<close>\<close>

fun items_of :: "gen_slice \<Rightarrow> slice_item list" where
  "items_of (GItems xs) = xs"
| "items_of _ = []"

text \<open>What a caller who looks at the elements only without an error sees.\<close>

fun generic_view :: "'w sys \<times> gen_slice \<times> go_error option \<Rightarrow> _" where
  "generic_view (s, res, err) = (s, if err = None then items_of res else [], err_class err)"

fun select_view_of :: "'w sys \<times> slice_item list \<times> go_error option \<Rightarrow> _" where
  "select_view_of (s, items, err) = (s, if err = None then items else [], err_class err)"

text \<open>The part of \<open>iterateScan\<close> before the deferred \<open>Close\<close>, put back into the state.\<close>

definition body_view where
  "body_view s x = map_option (\<lambda>(en, rows, mem, vals, items, err).
     (s\<lparr>sy_engine := en, sy_mem := mem, sy_vals := vals\<rparr>, rows, if err = None then items else [], err_class err)) x"

lemma same_class_None: "err_class e1 = err_class e2 \<Longrightarrow> e1 = None \<longleftrightarrow> e2 = None"
  by (cases e1; cases e2) auto

lemma sys_same: "s\<lparr>sy_engine := sy_engine s, sy_mem := m, sy_vals := v\<rparr> = s\<lparr>sy_mem := m, sy_vals := v\<rparr>"
  "s\<lparr>sy_engine := e, sy_mem := sy_mem s, sy_vals := sy_vals s\<rparr> = s\<lparr>sy_engine := e\<rparr>"
  "s\<lparr>sy_engine := sy_engine s, sy_mem := sy_mem s, sy_vals := sy_vals s\<rparr> = s"
  by simp_all

lemma SelectG_body_iterate:
  assumes "T' = (if kind_of T = KPtr then Deref T else T)" and "kind_of T = KPtr \<or> isScannable (api_types api) T'"
  shows "map_option (\<lambda>(s, rows, res, err). (s, rows, if err = None then items_of res else [], err_class err))
      (SelectG_body api s rows T u strict m) =
    body_view s (iterate_body (api_types api) (api_conv api) (sy_engine s) rows T' u strict (Some m)
      (reflect_New T') (\<lambda>vp xs. (xs @ [if kind_of T = KPtr then ItemPtr vp else ItemCopy vp], None)) (sy_mem s) (sy_vals s) [])"
proof -
  let ?item = "\<lambda>vp xs. (xs @ [if kind_of T = KPtr then ItemPtr vp else ItemCopy vp], None)"
  let ?E = "api_types api"
  have stop_value: "err \<noteq> Some (Sentinel ErrStopIter)"
    if "for_rows (scan_value c t a ?item) r st = Some (r1, st1, err)" for c t a r st r1 st1 err
    by (rule for_rows_err [OF _ that]) (use scan_value_append [where f = "\<lambda>vp. if kind_of T = KPtr then ItemPtr vp else ItemCopy vp"] in blast)
  have stop_struct: "err \<noteq> Some (Sentinel ErrStopIter)"
    if "for_rows (scan_struct c me a ?item) r st = Some (r1, st1, err)" for c me a r st r1 st1 err
    by (rule for_rows_err [OF _ that]) (use scan_struct_append [where f = "\<lambda>vp. if kind_of T = KPtr then ItemPtr vp else ItemCopy vp"] in blast)
  show ?thesis
  proof (cases "rows_Columns rows")
    case (Ok columns)
    show ?thesis
    proof (cases "isScannable ?E T'")
      case True
      show ?thesis
      proof (cases "length columns = 1")
        case one: True
        let ?st = "(sy_mem s, sy_vals s, [], [])"
        show ?thesis
        proof (cases "for_rows (scan_value (api_conv api) T' (reflect_New T') ?item) rows ?st")
          case None
          with Ok True one assms(1) show ?thesis
            by (simp add: SelectG_body_def body_view_def iterate_body_def scan_loop_for_rows Let_def)
        next
          case (Some x)
          then obtain r1 mem1 vals1 d1 items err where
            x: "for_rows (scan_value (api_conv api) T' (reflect_New T') ?item) rows ?st = Some (r1, (mem1, vals1, d1, items), err)"
            by (cases x) auto
          with Ok True one assms(1) stop_value [OF x] show ?thesis
            by (auto simp: SelectG_body_def body_view_def iterate_body_def scan_loop_for_rows gen_result_view Let_def fun_eq_iff
                split: option.split)
        qed
      qed (use Ok True assms(1) in \<open>simp add: SelectG_body_def body_view_def iterate_body_def Let_def\<close>)
    next
      case False
      then have ptr: "kind_of T = KPtr" and T': "T' = Deref T" using assms by auto
      show ?thesis
      proof (cases "type_map ?E m T'")
        case None
        with Ok False ptr T' show ?thesis
          by (simp add: SelectG_body_def body_view_def iterate_body_def nil_TypeMap_def Let_def)
      next
        case (Some tm)
        obtain c1 b where b: "buildMeta ?E (en_metaCache (sy_engine s)) T' columns tm u = (c1, b)"
          by (cases "buildMeta ?E (en_metaCache (sy_engine s)) T' columns tm u")
        obtain pool1 sd where g: "getScanDest (en_pool (sy_engine s)) (length columns) = (pool1, sd)"
          by (cases "getScanDest (en_pool (sy_engine s)) (length columns)")
        note d = SelectG_body_def body_view_def iterate_body_def nil_TypeMap_def Let_def
        show ?thesis
        proof (cases b)
          case meta: (Ok meta)
          let ?loop = "for_rows (scan_struct (api_conv api) meta (reflect_New T') ?item) rows (sy_mem s, sy_vals s, fst sd, [])"
          show ?thesis
          proof (cases ?loop)
            case None
            with Ok False ptr T' Some b g meta show ?thesis by (simp add: d scan_loop_for_rows)
          next
            case x': (Some x)
            then obtain r1 mem1 vals1 d1 items err where x: "?loop = Some (r1, (mem1, vals1, d1, items), err)"
              by (cases x) auto
            with Ok False ptr T' Some b g meta stop_struct [OF x] show ?thesis
              by (auto simp: d scan_loop_for_rows gen_result_view fun_eq_iff split: option.split)
          qed
        qed (use Ok False ptr T' Some b in \<open>simp_all add: d\<close>)
      qed
    qed
  qed (simp_all add: SelectG_body_def body_view_def iterate_body_def Let_def)
qed

lemma close_rows_class:
  assumes "err_class e1 = err_class e2"
  shows "fst (close_rows rows e1) = fst (close_rows rows e2)"
    and "err_class (snd (close_rows rows e1)) = err_class (snd (close_rows rows e2))"
    and "snd (close_rows rows e1) = None \<Longrightarrow> e1 = None"
proof -
  obtain r c where r: "rows_Close rows = (r, c)" by (cases "rows_Close rows")
  from assms show "fst (close_rows rows e1) = fst (close_rows rows e2)" by (simp add: close_rows_def r)
  from assms show "err_class (snd (close_rows rows e1)) = err_class (snd (close_rows rows e2))"
    by (cases e1; cases e2) (simp_all add: close_rows_def r)
  show "snd (close_rows rows e1) = None \<Longrightarrow> e1 = None" by (cases e1) (simp_all add: close_rows_def r)
qed

lemma closed_views:
  assumes "map_option (\<lambda>(s, rows, res, err). (s, rows, if err = None then items_of res else [], err_class err)) x =
    body_view s (iterate_body E conv en rows t u strict m alloc yield mem vals [])"
  shows "map_option generic_view (gen_close x) =
    map_option (\<lambda>(en, rows, mem, vals, items, err).
        select_view_of (s\<lparr>sy_engine := en, sy_mem := mem, sy_vals := vals\<rparr>, items, err))
      (iterateScan E conv en rows t u strict m alloc yield mem vals [])"
proof (cases "iterate_body E conv en rows t u strict m alloc yield mem vals []")
  case None
  with assms show ?thesis by (simp add: body_view_def gen_close_def iterateScan_def)
next
  case (Some y)
  then obtain en1 rows1 mem1 vals1 items err1 where
    y: "iterate_body E conv en rows t u strict m alloc yield mem vals [] = Some (en1, rows1, mem1, vals1, items, err1)"
    by (cases y) auto
  with assms obtain res err where x: "x = Some (s\<lparr>sy_engine := en1, sy_mem := mem1, sy_vals := vals1\<rparr>, rows1, res, err)"
      "(if err = None then items_of res else []) = (if err1 = None then items else [])" "err_class err = err_class err1"
    by (auto simp: body_view_def)
  note n = same_class_None [OF x(3)] same_class_None [OF close_rows_class(2) [OF x(3), of rows1]]
    close_rows_class(3) [OF x(3), of rows1]
  show ?thesis
    using x y n close_rows_class(1,2) [OF x(3), of rows1]
    by (cases "err1 = None") (auto simp: gen_close_def iterateScan_def case_prod_unfold)
qed



subsection \<open>The array\<close>

text \<open>Columns whose fields need no pointer, lie in the element and are all different.\<close>

definition direct_columns :: "tenv \<Rightarrow> gtype \<Rightarrow> struct_map \<Rightarrow> string list \<Rightarrow> bool" where
  "direct_columns E t tm cols \<longleftrightarrow>
     list_all (\<lambda>c. case sm_names tm c of None \<Rightarrow> True | Some fi \<Rightarrow> \<not> fi_isptr fi \<and> fi_offset fi < size_of E t) cols \<and>
     distinct (List.map_filter (\<lambda>c. map_option fi_offset (sm_names tm c)) cols)"

definition field_dests :: "struct_map \<Rightarrow> string list \<Rightarrow> addr \<Rightarrow> scan_dest option list" where
  "field_dests tm cols a = map (\<lambda>c. Some (case sm_names tm c of None \<Rightarrow> DDiscard
      | Some fi \<Rightarrow> DField (add_offset a (fi_offset fi)) (fi_target fi))) cols"

text \<open>The element at an address holds the converted values of a row.\<close>

definition holds_row :: "conv \<Rightarrow> struct_map \<Rightarrow> string list \<Rightarrow> vals \<Rightarrow> addr \<Rightarrow> gval list \<Rightarrow> bool" where
  "holds_row conv tm cols vals a row \<longleftrightarrow>
     list_all2 (\<lambda>c v. case sm_names tm c of None \<Rightarrow> True
       | Some fi \<Rightarrow> (case conv (fi_target fi) v of Inl _ \<Rightarrow> False | Inr x \<Rightarrow> vals (add_offset a (fi_offset fi)) = Some x)) cols row"

definition array_inv :: "tenv \<Rightarrow> conv \<Rightarrow> gtype \<Rightarrow> struct_map \<Rightarrow> string list \<Rightarrow> gval list list \<Rightarrow> array_state \<Rightarrow> bool" where
  "array_inv E conv t tm cols done st \<longleftrightarrow>
     (case st of (mem, vals, dests, arr) \<Rightarrow>
        length dests = length cols \<and> ga_len arr = length done \<and> ga_len arr \<le> ga_cap arr \<and>
        (ga_cap arr \<le> 8 \<or> ga_cap arr < 2 * ga_len arr) \<and>
        (\<forall>j < length done. holds_row conv tm cols vals (elem_addr E t arr j) (done ! j)))"

lemma direct_columnsD:
  "direct_columns E t tm cols \<Longrightarrow> c \<in> set cols \<Longrightarrow> sm_names tm c = Some fi \<Longrightarrow> \<not> fi_isptr fi \<and> fi_offset fi < size_of E t"
  by (auto simp: direct_columns_def list_all_iff split: option.splits)

text \<open>An element keeps its row when its bytes keep their values, at another address perhaps.\<close>

lemma holds_row_cong:
  assumes "direct_columns E t tm cols" and "\<And>k. k < size_of E t \<Longrightarrow> vals' (add_offset a' k) = vals (add_offset a k)"
    and "holds_row conv tm cols vals a row"
  shows "holds_row conv tm cols vals' a' row"
proof -
  have keep: "(case sm_names tm c of None \<Rightarrow> True
       | Some fi \<Rightarrow> (case conv (fi_target fi) v of Inl _ \<Rightarrow> False | Inr x \<Rightarrow> vals' (add_offset a' (fi_offset fi)) = Some x))"
    if "c \<in> set cols" "(case sm_names tm c of None \<Rightarrow> True
       | Some fi \<Rightarrow> (case conv (fi_target fi) v of Inl _ \<Rightarrow> False | Inr x \<Rightarrow> vals (add_offset a (fi_offset fi)) = Some x))" for c v
    using that direct_columnsD [OF assms(1) that(1)] assms(2) by (auto split: option.splits sum.splits)
  from assms(3) show ?thesis
    unfolding holds_row_def by (rule list.rel_mono_strong) (rule keep)
qed

lemma elem_bound: "j < n \<Longrightarrow> k < (z :: nat) \<Longrightarrow> j * z + k < n * z"
proof -
  assume "j < n" "k < z"
  have "Suc j * z \<le> n * z" using \<open>j < n\<close> by (intro mult_le_mono1) simp
  with \<open>k < z\<close> show "j * z + k < n * z" by simp
qed

lemma grow_array_elem:
  assumes "grow_array E t mem vals arr = (mem1, vals1, arr1)" and "j < ga_len arr" and "k < size_of E t"
  shows "vals1 (add_offset (elem_addr E t arr1 j) k) = vals (add_offset (elem_addr E t arr j) k)"
proof (cases "ga_len arr = ga_cap arr")
  case True
  with assms(1) elem_bound [OF assms(2,3)] show ?thesis
    by (auto simp: grow_array_def move_array_def reflect_New_def elem_addr_def Let_def add_offset_def add.assoc)
next
  case False
  with assms(1) show ?thesis by (simp add: grow_array_def)
qed

lemma grow_array_room:
  assumes "grow_array E t mem vals arr = (mem1, vals1, arr1)" and "ga_len arr \<le> ga_cap arr"
    and "ga_cap arr \<le> 8 \<or> ga_cap arr < 2 * ga_len arr"
  shows "ga_len arr1 = ga_len arr \<and> ga_len arr1 < ga_cap arr1 \<and> (ga_cap arr1 \<le> 8 \<or> ga_cap arr1 < 2 * Suc (ga_len arr1))"
  using assms by (auto simp: grow_array_def move_array_def Let_def split: if_splits prod.splits)

lemma append_zero_elem:
  assumes "append_zero E t mem vals arr = (mem1, vals1, arr1)" and "j < ga_len arr" and "k < size_of E t"
  shows "vals1 (add_offset (elem_addr E t arr1 j) k) = vals (add_offset (elem_addr E t arr j) k)"
  using assms(1) elem_bound [OF assms(2,3)] by (auto simp: append_zero_def elem_addr_def Let_def)

lemma append_zero_len: "append_zero E t mem vals arr = (mem1, vals1, arr1) \<Longrightarrow> arr1 = arr\<lparr>ga_len := Suc (ga_len arr)\<rparr>"
  by (simp add: append_zero_def Let_def)

text \<open>Scanning one element gives it its row and leaves the places before it alone.\<close>

lemma field_dests_addrs:
  "List.map_filter dest_addr (field_dests tm cols a) =
     map (add_offset a) (List.map_filter (\<lambda>c. map_option fi_offset (sm_names tm c)) cols)"
  by (induction cols) (auto simp: field_dests_def map_filter_simps split: option.split)

lemma scan_element:
  assumes "direct_columns E t tm cols" and "row_ok conv tm cols row"
  shows "\<exists>v. scan_columns conv 0 (field_dests tm cols a) row vals = (v, None) \<and> holds_row conv tm cols v a row \<and>
    (\<forall>b. blk b \<noteq> blk a \<or> off b < off a \<longrightarrow> v b = vals b)"
proof -
  have conv: "list_all2 (converts conv) (field_dests tm cols a) row"
    using assms(2) by (auto simp: row_ok_def field_dests_def list_all2_conv_all_nth converts_def split: option.splits sum.splits)
      (metis sum.exhaust)
  have "inj (add_offset a)" by (auto simp: inj_on_def add_offset_def)
  then have "distinct (List.map_filter dest_addr (field_dests tm cols a))"
    using assms(1) by (simp add: field_dests_addrs direct_columns_def distinct_map inj_on_def)
  from scan_columns_ok [OF conv this, of 0 vals] obtain v where v: "scan_columns conv 0 (field_dests tm cols a) row vals = (v, None)"
      "\<forall>i < length (field_dests tm cols a). \<forall>b t x. field_dests tm cols a ! i = Some (DField b t) \<longrightarrow> conv t (row ! i) = Inr x \<longrightarrow> v b = Some x"
      "\<forall>b. b \<notin> set (List.map_filter dest_addr (field_dests tm cols a)) \<longrightarrow> v b = vals b" by blast
  have "holds_row conv tm cols v a row"
    using assms(2) v(2) by (fastforce simp: row_ok_def holds_row_def field_dests_def list_all2_conv_all_nth split: option.splits sum.splits)
  moreover have "v b = vals b" if "blk b \<noteq> blk a \<or> off b < off a" for b
  proof -
    from that have "b \<notin> set (List.map_filter dest_addr (field_dests tm cols a))" by (auto simp: field_dests_addrs)
    with v(3) show ?thesis by blast
  qed
  ultimately show ?thesis using v(1) by blast
qed

lemma scan_array_step:
  assumes "array_inv E conv t tm cols done st" and "direct_columns E t tm cols" and "row_ok conv tm cols row"
    and "fresh_meta E t cols tm u = Ok meta" and "\<not> rs_closed rows" and "rs_current rows = Some row"
  shows "\<exists>st1. scan_array E conv t meta rows st = Some (st1, None) \<and> array_inv E conv t tm cols (done @ [row]) st1"
proof -
  obtain mem vals dests arr where st: "st = (mem, vals, dests, arr)" by (cases st) auto
  with assms(1) have inv: "length dests = length cols" "ga_len arr = length done" "ga_len arr \<le> ga_cap arr"
      "ga_cap arr \<le> 8 \<or> ga_cap arr < 2 * ga_len arr"
      "\<forall>j < length done. holds_row conv tm cols vals (elem_addr E t arr j) (done ! j)"
    by (auto simp: array_inv_def)
  obtain mem1 vals1 arr1 where g: "grow_array E t mem vals arr = (mem1, vals1, arr1)" by (cases "grow_array E t mem vals arr")
  obtain mem2 vals2 arr2 where a: "append_zero E t mem1 vals1 arr1 = (mem2, vals2, arr2)" by (cases "append_zero E t mem1 vals1 arr1")
  note room = grow_array_room [OF g inv(3,4)]
  note len = append_zero_len [OF a]
  let ?a = "elem_addr E t arr2 (ga_len arr1)"
  have "populateScanDest mem2 ?a meta dests = Some (mem2, field_dests tm cols ?a)"
    using fresh_meta_direct [OF assms(4) _ inv(1)] direct_columnsD [OF assms(2)] by (auto simp: field_dests_def)
  moreover obtain v where v: "scan_columns conv 0 (field_dests tm cols ?a) row vals2 = (v, None)" "holds_row conv tm cols v ?a row"
      "\<forall>b. blk b \<noteq> blk ?a \<or> off b < off ?a \<longrightarrow> v b = vals2 b"
    using scan_element [OF assms(2,3)] by blast
  moreover have "length row = length cols" using assms(3) by (auto simp: row_ok_def dest: list_all2_lengthD)
  ultimately have one: "scan_array E conv t meta rows st = Some ((mem2, v, field_dests tm cols ?a, arr2), None)"
    using st g a assms(5,6) by (simp add: scan_array_def rows_Scan_def field_dests_def)
  have old: "holds_row conv tm cols v (elem_addr E t arr2 j) (done ! j)" if j: "j < length done" for j
  proof (rule holds_row_cong [OF assms(2) _ inv(5) [rule_format, OF j]])
    fix k assume k: "k < size_of E t"
    have j1: "j < ga_len arr" "j < ga_len arr1" using j inv(2) room by simp_all
    have "off (add_offset (elem_addr E t arr2 j) k) < off ?a"
      using elem_bound [OF j1(2) k] by (simp add: elem_addr_def)
    with v(3) have "v (add_offset (elem_addr E t arr2 j) k) = vals2 (add_offset (elem_addr E t arr2 j) k)" by blast
    then show "v (add_offset (elem_addr E t arr2 j) k) = vals (add_offset (elem_addr E t arr j) k)"
      using append_zero_elem [OF a j1(2) k] grow_array_elem [OF g j1(1) k] by simp
  qed
  have "array_inv E conv t tm cols (done @ [row]) (mem2, v, field_dests tm cols ?a, arr2)"
    using room len inv(2) old v(2) by (auto simp: array_inv_def field_dests_def nth_append less_Suc_eq)
  with one show ?thesis by blast
qed

context row_body begin

lemma for_rows_inv:
  assumes "inv done st" and "list_all ok (rs_pending rows)" and "\<not> rs_closed rows" and "rs_columns rows = cols"
  shows "\<exists>rows1 st1. for_rows one rows st = Some (rows1, st1, None) \<and>
    inv (done @ rs_pending rows) st1 \<and> rs_closed rows1 \<and> rows_Err rows1 = rs_err rows"
  using assms
proof (induction "rs_pending rows" arbitrary: rows st "done")
  case Nil
  from Nil.hyps [symmetric] Nil.prems show ?case
    by (subst for_rows.simps) (auto simp: rows_Next_open rows_Err_def)
next
  case (Cons row rest)
  note pend = Cons.hyps(2) [symmetric]
  let ?rows = "rows\<lparr>rs_pending := rest, rs_current := Some row\<rparr>"
  from step [OF Cons.prems(1), of row ?rows] Cons.prems(2-4) pend obtain st1 where
    s: "one ?rows st = Some (st1, None)" "inv (done @ [row]) st1" by auto
  from Cons.hyps(1) [of ?rows, OF _ s(2)] Cons.prems(2-4) pend s(1) show ?case
    by (subst for_rows.simps) (auto simp: rows_Next_open)
qed

end

interpretation array_body: row_body "scan_array E conv t meta" "row_ok conv tm cols" cols
  "\<lambda>done st. direct_columns E t tm cols \<and> fresh_meta E t cols tm u = Ok meta \<and> array_inv E conv t tm cols done st"
  for E conv t tm u cols meta
  by unfold_locales (use scan_array_step in blast)

lemma array_inv_nil: "length dests = length cols \<Longrightarrow> array_inv E conv t tm cols [] (mem, vals, dests, nil_array)"
  by (simp add: array_inv_def nil_array_def)

text \<open>
  C20. \<open>SelectG\<close> of a struct type returns every row: on an open result set that ends without an error and whose
  rows all convert, for columns whose fields need no pointer, it returns an array of as many elements
  as there were rows, and each holds, field by field, the converted values of its row, wherever the
  array was moved to while it grew.  The capacity is at least the length and, beyond eight, less than twice the length.
\<close>

theorem SelectG_array_rows:
  assumes "do_query api s ctx (handle_of q) query args = (s1, Inr rows)" and "extractMeta q = (u, strict, m)"
    and "\<not> rs_closed rows" and "rs_err rows = None"
    and "kind_of T = KStruct" and "\<not> isScannable (api_types api) T"
    and "type_map (api_types api) m T = Some tm" and "strict \<longrightarrow> sm_errors tm = []"
    and "meta_sound (api_types api) m (en_metaCache (sy_engine s1))"
    and "fresh_meta (api_types api) T (rs_columns rows) tm u = Ok meta"
    and "direct_columns (api_types api) T tm (rs_columns rows)"
    and "list_all (row_ok (api_conv api) tm (rs_columns rows)) (rs_pending rows)"
  shows "\<exists>s2 arr. SelectG api s ctx q T query args = Some (s2, GArray arr, None) \<and>
    ga_len arr = length (rs_pending rows) \<and> ga_len arr \<le> ga_cap arr \<and> (ga_cap arr \<le> 8 \<or> ga_cap arr < 2 * ga_len arr) \<and>
    list_all (\<lambda>j. holds_row (api_conv api) tm (rs_columns rows) (sy_vals s2) (elem_addr (api_types api) T arr j) (rs_pending rows ! j))
      [0..<length (rs_pending rows)]"
proof -
  let ?E = "api_types api" and ?cols = "rs_columns rows"
  obtain c1 where b: "buildMeta ?E (en_metaCache (sy_engine s1)) T ?cols tm u = (c1, Ok meta)"
    using buildMeta_correct [OF assms(9,7), of ?cols u] assms(10) by (metis prod.collapse)
  obtain pool1 sd where g: "getScanDest (en_pool (sy_engine s1)) (length ?cols) = (pool1, sd)"
    by (cases "getScanDest (en_pool (sy_engine s1)) (length ?cols)")
  then have len: "length (fst sd) = length ?cols" using length_getScanDest by (metis snd_conv)
  have "direct_columns ?E T tm ?cols \<and> fresh_meta ?E T ?cols tm u = Ok meta \<and>
      array_inv ?E (api_conv api) T tm ?cols [] (sy_mem s1, sy_vals s1, fst sd, nil_array)"
    using assms(10,11) array_inv_nil [OF len] by blast
  from array_body.for_rows_inv [OF this assms(12,3) refl] obtain rows1 mem1 vals1 d1 arr where
    l: "for_rows (scan_array ?E (api_conv api) T meta) rows (sy_mem s1, sy_vals s1, fst sd, nil_array) =
        Some (rows1, (mem1, vals1, d1, arr), None)"
      "array_inv ?E (api_conv api) T tm ?cols (rs_pending rows) (mem1, vals1, d1, arr)" "rs_closed rows1" "rows_Err rows1 = None"
    using assms(4) by auto
  have "SelectG_body api s1 rows T u strict m =
    Some (s1\<lparr>sy_engine := (sy_engine s1)\<lparr>en_metaCache := c1, en_pool := putScanDest (d1, snd sd) pool1\<rparr>, sy_mem := mem1, sy_vals := vals1\<rparr>,
      rows1, GArray arr, None)"
    using assms(3,5-8) b g l(1,4) by (simp add: SelectG_body_def Let_def rows_Columns_def gen_result_def row_error_def)
  with assms(1,2,5) l(2,3) show ?thesis
    by (auto simp: SelectG_def gen_close_def close_rows_def rows_Close_def array_inv_def list_all_iff)
qed

theorem SelectG_array_rows_witness:
  "\<exists>s2 arr. SelectG (sample_api person_rs) sample_sys Background (XDB sample_db) (TStruct ''Person'') [] [] = Some (s2, GArray arr, None) \<and>
    ga_len arr = 2 \<and> ga_cap arr \<le> 8 \<and>
    holds_row sample_conv sample_person [''name'', ''city''] (sy_vals s2) (elem_addr sample_types (TStruct ''Person'') arr 1)
      [VBasic (TBasic BString) ''Bob'', VBasic (TBasic BString) ''Oslo'']"
proof -
  let ?s1 = "sample_sys\<lparr>sy_world := 1\<rparr>"
  have q: "do_query (sample_api person_rs) sample_sys Background (handle_of (XDB sample_db)) [] [] = (?s1, Inr person_rs)"
    by (simp add: do_query_def sample_api_def sample_sys_def)
  have x: "extractMeta (XDB sample_db) = (True, False, sample_mapper)"
    by (simp add: sample_db_def or_default_def defaultMapper_def sample_mapper_def NameMapper_def)
  obtain meta where fm: "fresh_meta sample_types (TStruct ''Person'') (rs_columns person_rs) sample_person True = Ok meta"
    using fresh_meta_unsafe by blast
  have E: "api_types (sample_api person_rs) = sample_types" "api_conv (sample_api person_rs) = sample_conv"
    by (simp_all add: sample_api_def)
  have d: "\<not> isScannable sample_types (TStruct ''Person'')"
      "direct_columns sample_types (TStruct ''Person'') sample_person (rs_columns person_rs)"
      "list_all (row_ok sample_conv sample_person (rs_columns person_rs)) (rs_pending person_rs)"
    by code_simp+
  have r: "\<not> rs_closed person_rs" "rs_err person_rs = None" "length (rs_pending person_rs) = 2"
      "rs_pending person_rs ! 1 = [VBasic (TBasic BString) ''Bob'', VBasic (TBasic BString) ''Oslo'']"
      "rs_columns person_rs = [''name'', ''city'']"
    by (simp_all add: person_rs_def)
  have "meta_sound sample_types sample_mapper (en_metaCache (sy_engine ?s1))"
    by (simp add: sample_sys_def sample_engine_def meta_sound_empty)
  from SelectG_array_rows [OF q x r(1,2), unfolded E, OF _ d(1) sample_type_map _ this fm d(2,3)] obtain s2 arr where
    h: "SelectG (sample_api person_rs) sample_sys Background (XDB sample_db) (TStruct ''Person'') [] [] = Some (s2, GArray arr, None)"
    "ga_len arr = 2" "ga_cap arr \<le> 8 \<or> ga_cap arr < 2 * ga_len arr"
    "list_all (\<lambda>j. holds_row sample_conv sample_person (rs_columns person_rs) (sy_vals s2)
      (elem_addr sample_types (TStruct ''Person'') arr j) (rs_pending person_rs ! j)) [0..<2]"
    by (auto simp: r(3))
  have "holds_row sample_conv sample_person (rs_columns person_rs) (sy_vals s2)
      (elem_addr sample_types (TStruct ''Person'') arr 1) (rs_pending person_rs ! 1)"
    using h(4) by (simp add: list_all_iff)
  with h(1-3) show ?thesis unfolding r(4,5) by auto
qed

subsection \<open>\<open>SelectIter\<close>\<close>

text \<open>Two bodies that do the same on related states make the loops do the same.\<close>

lemma scan_loop_sim:
  assumes "\<And>rows st. one1 rows (g st) = map_option (\<lambda>(st1, err). (g st1, err)) (one2 rows st)"
  shows "scan_loop one1 rows (g st) = map_option (\<lambda>(rows1, st1, err). (rows1, g st1, err)) (scan_loop one2 rows st)"
proof (induction "rs_pending rows" arbitrary: rows st)
  case Nil
  then show ?case
    by (subst (1 2) scan_loop.simps) (simp add: rows_Next_def)
next
  case (Cons row rest)
  note pend = Cons.hyps(2) [symmetric]
  show ?case
  proof (cases "rs_closed rows")
    case True
    then show ?thesis by (subst (1 2) scan_loop.simps) (simp add: rows_Next_def)
  next
    case False
    have "scan_loop one1 (rows\<lparr>rs_pending := rest, rs_current := Some row\<rparr>) (g st1) =
        map_option (\<lambda>(rows1, st1, err). (rows1, g st1, err)) (scan_loop one2 (rows\<lparr>rs_pending := rest, rs_current := Some row\<rparr>) st1)" for st1
      by (rule Cons.hyps(1)) simp
    then show ?thesis
      by (simp add: scan_loop_row [OF False pend] assms split: option.split prod.split)
  qed
qed

definition on_caller :: "('s \<Rightarrow> 't) \<Rightarrow> 's scan_state \<Rightarrow> 't scan_state" where
  "on_caller h st = (case st of (mem, vals, dests, s) \<Rightarrow> (mem, vals, dests, h s))"

lemma iterateScan_sim:
  assumes "\<And>vp s. yield1 vp (h s) = (case yield2 vp s of (s1, e) \<Rightarrow> (h s1, e))"
  shows "iterateScan E conv en rows t u strict m alloc yield1 mem vals (h s) =
    map_option (\<lambda>(en, rows, mem, vals, s, err). (en, rows, mem, vals, h s, err))
      (iterateScan E conv en rows t u strict m alloc yield2 mem vals s)"
proof -
  have v: "scan_loop (scan_value conv t alloc yield1) rows (mem, vals, d, h s) =
      map_option (\<lambda>(rows1, st1, err). (rows1, on_caller h st1, err)) (scan_loop (scan_value conv t alloc yield2) rows (mem, vals, d, s))" for d
    using scan_loop_sim [where g = "on_caller h" and ?one1.0 = "scan_value conv t alloc yield1" and ?one2.0 = "scan_value conv t alloc yield2"
        and rows = rows and st = "(mem, vals, d, s)"]
    by (auto simp: scan_value_def on_caller_def assms Let_def split: prod.split option.split)
  have st: "scan_loop (scan_struct conv meta alloc yield1) rows (mem, vals, d, h s) =
      map_option (\<lambda>(rows1, st1, err). (rows1, on_caller h st1, err)) (scan_loop (scan_struct conv meta alloc yield2) rows (mem, vals, d, s))" for meta d
    using scan_loop_sim [where g = "on_caller h" and ?one1.0 = "scan_struct conv meta alloc yield1" and ?one2.0 = "scan_struct conv meta alloc yield2"
        and rows = rows and st = "(mem, vals, d, s)"]
    by (auto simp: scan_struct_def on_caller_def assms Let_def split: prod.split option.split)
  have "iterate_body E conv en rows t u strict m alloc yield1 mem vals (h s) =
    map_option (\<lambda>(en, rows, mem, vals, s, err). (en, rows, mem, vals, h s, err))
      (iterate_body E conv en rows t u strict m alloc yield2 mem vals s)"
    by (auto simp: iterate_body_def v st on_caller_def Let_def split: result.split option.split prod.split)
  then show ?thesis
    by (simp add: iterateScan_def split: option.split prod.split)
qed

text \<open>A caller who records what it gets and never stops.\<close>

definition record_body :: "(addr option \<times> (sentinel \<Rightarrow> bool) option) list body" where
  "record_body events v err = (events @ [(v, err_class err)], True)"

fun item_addr :: "slice_item \<Rightarrow> addr" where
  "item_addr (ItemPtr a) = a"
| "item_addr (ItemCopy a) = a"

text \<open>
  C25. \<open>SelectIter\<close> streams what \<open>Select\<close> collects: for a type that is no pointer and no interface, the body of the loop is
  called once for each element \<open>SelectContext\<close> would append to a \<open>[]T\<close>, in that order and without an error, and then once
  more exactly if \<open>SelectContext\<close> fails, with an error of the same class; the state left behind is the same.
\<close>

theorem SelectIter_streams:
  assumes "kind_of T \<noteq> KPtr" and "kind_of T \<noteq> KIface"
  shows "SelectIter api s ctx q T query args record_body [] =
    map_option (\<lambda>(s1, items, err). (s1, map (\<lambda>x. (Some (item_addr x), None)) items @
        (case err of None \<Rightarrow> [] | Some e \<Rightarrow> [(None, Some (errors_is e))])))
      (SelectContext api s ctx q (TPtr (TSlice T)) False [] query args)"
proof -
  obtain s1 r where r: "do_query api s ctx (handle_of q) query args = (s1, r)"
    by (cases "do_query api s ctx (handle_of q) query args")
  obtain u strict m where c: "extractMeta q = (u, strict, m)" by (cases "extractMeta q")
  show ?thesis
  proof (cases r)
    case (Inl e)
    with r show ?thesis by (simp add: SelectIter_def SelectContext_def record_body_def fun_eq_iff)
  next
    case (Inr rows)
    let ?h = "\<lambda>items. (map (\<lambda>x. (Some (item_addr x), None :: (sentinel \<Rightarrow> bool) option)) items, False)"
    have "iter_yield False record_body vp (?h items) =
        (case (items @ [ItemCopy vp], None) of (items1, e) \<Rightarrow> (?h items1, e))" for vp items
      by (simp add: iter_yield_def record_body_def)
    from iterateScan_sim [where h = ?h and ?yield1.0 = "iter_yield False record_body"
        and ?yield2.0 = "\<lambda>vp items. (items @ [ItemCopy vp], None)", OF this, of "api_types api" "api_conv api" "sy_engine s1" rows T u strict "Some m"
        "reflect_New T" "sy_mem s1" "sy_vals s1" "[]"]
    have sim: "iterateScan (api_types api) (api_conv api) (sy_engine s1) rows T u strict (Some m) (reflect_New T)
        (iter_yield False record_body) (sy_mem s1) (sy_vals s1) ([], False) =
      map_option (\<lambda>(en, rows, mem, vals, s, err). (en, rows, mem, vals, ?h s, err))
        (iterateScan (api_types api) (api_conv api) (sy_engine s1) rows T u strict (Some m) (reflect_New T)
          (\<lambda>vp items. (items @ [ItemCopy vp], None)) (sy_mem s1) (sy_vals s1) [])" by simp
    show ?thesis
      using assms r c Inr
      by (auto simp: SelectIter_def SelectContext_def run_select_def selectScan_def sim record_body_def fun_eq_iff Let_def
          split: option.split)
  qed
qed

theorem SelectIter_streams_witness:
  "SelectIter (sample_api sample_rs) sample_sys Background (XDB sample_db) (TBasic BString) [] [] record_body [] =
    map_option (\<lambda>(s1, items, err). (s1, map (\<lambda>x. (Some (item_addr x), None)) items @
        (case err of None \<Rightarrow> [] | Some e \<Rightarrow> [(None, Some (errors_is e))])))
      (SelectContext (sample_api sample_rs) sample_sys Background (XDB sample_db) (TPtr (TSlice (TBasic BString))) False [] [] [])"
  by (rule SelectIter_streams) simp_all

text \<open>
  \<open>SelectIter\<close> calls the loop body again after it said to stop: when the body stops at the first element of a
  result set that has not been read to the end and closing it fails, the body is called a second time
  with the error of \<open>Close\<close>, which Go's \<open>range\<close> over a function turns into a panic.
\<close>

lemma SelectIter_after_stop:
  assumes "do_query api s ctx (handle_of q) query args = (s1, Inr rows)" and "\<not> rs_closed rows"
    and "rs_pending rows = [v] # rest" and "length (rs_columns rows) = 1" and "rs_close_err rows = Some c"
    and "kind_of T \<noteq> KPtr" and "kind_of T \<noteq> KIface" and "isScannable (api_types api) T" and "api_conv api T v = Inr x"
    and "\<And>u a. snd (body u (Some a) None) = False"
  shows "\<exists>s2 a. SelectIter api s ctx q T query args body u =
    Some (s2, fst (body (fst (body u (Some a) None)) None (Some (Errorf ''sqlx: error in SelectIter scan: %w'' [] (Some c)))))"
proof -
  obtain uns strict m where e: "extractMeta q = (uns, strict, m)" by (cases "extractMeta q")
  have cols: "rows_Columns rows = Ok (rs_columns rows)" using assms(2) by (simp add: rows_Columns_def)
  obtain mem1 vp where n: "reflect_New T (sy_mem s1) = (mem1, vp)" by (cases "reflect_New T (sy_mem s1)")
  obtain u1 where stop: "body u (Some vp) None = (u1, False)"
    using assms(10) [of u vp] by (cases "body u (Some vp) None") simp
  have "iterateScan (api_types api) (api_conv api) (sy_engine s1) rows T uns strict (Some m) (reflect_New T)
      (iter_yield False body) (sy_mem s1) (sy_vals s1) (u, False) =
    Some (sy_engine s1, rows\<lparr>rs_pending := rest, rs_current := Some [v], rs_closed := True\<rparr>, mem1, (sy_vals s1)(vp \<mapsto> x),
      (u1, False), Some c)"
    using assms(2-5,8,9) cols n
    by (simp add: iterateScan_def iterate_body_def scan_loop_row [OF assms(2,3)] scan_value_def rows_Scan_def iter_yield_def
        stop close_rows_def rows_Close_def)
  with assms(1,6,7) e stop show ?thesis
    by (simp add: SelectIter_def) (metis fst_conv)
qed

lemma SelectIter_after_stop_witness:
  "\<exists>s2 a. SelectIter (sample_api (sample_rs\<lparr>rs_close_err := Some (Foreign ''reset'')\<rparr>)) sample_sys Background (XDB sample_db)
      (TBasic BString) [] [] (\<lambda>calls v err. (calls @ [(v, err)], False)) [] =
    Some (s2, [(Some a, None), (None, Some (Errorf ''sqlx: error in SelectIter scan: %w'' [] (Some (Foreign ''reset''))))])"
proof -
  let ?rows = "sample_rs\<lparr>rs_close_err := Some (Foreign ''reset'')\<rparr>"
  have q: "do_query (sample_api ?rows) sample_sys Background (handle_of (XDB sample_db)) [] [] = (sample_sys\<lparr>sy_world := 1\<rparr>, Inr ?rows)"
    by (simp add: do_query_def sample_api_def sample_sys_def)
  have r: "\<not> rs_closed ?rows" "rs_pending ?rows = [VBasic (TBasic BString) ''Ann''] # [[VBasic (TBasic BString) ''Bob'']]"
      "length (rs_columns ?rows) = 1" "rs_close_err ?rows = Some (Foreign ''reset'')"
    by (simp_all add: sample_rs_def)
  have c: "api_conv (sample_api ?rows) (TBasic BString) (VBasic (TBasic BString) ''Ann'') = Inr (VBasic (TBasic BString) ''Ann'')"
    by (simp add: sample_api_def sample_conv_def)
  from SelectIter_after_stop [where body = "\<lambda>calls v err. (calls @ [(v, err)], False)" and u = "[]", OF q r _ _ _ c]
  show ?thesis by (simp add: isScannable_def)
qed

end
