(* ===== verification/Generics_Get.thy ===== *)
theory Generics_Get
  imports Generics_Props
begin

text \<open>
  \<open>GetG\<close> of \<open>generics.go\<close> against \<open>Get\<close>.  \<open>Get\<close> scans into the variable its caller has made, \<open>GetG\<close> makes one when there is a
  row; both take the first row only.
\<close>

subsection \<open>\<open>GetG\<close> and \<open>Get\<close>\<close>

text \<open>\<open>Get\<close> stops at the first row by an error of its own; \<open>GetG\<close> takes the first row and no loop.\<close>

abbreviation keep_row :: "addr option yield" where
  "keep_row \<equiv> \<lambda>vp res. (Some vp, None)"

abbreviation stop_row :: "bool yield" where
  "stop_row \<equiv> \<lambda>vp found. (True, Some (Sentinel ErrStopIter))"

text \<open>What the one body does when the other has stopped or failed.\<close>

fun kept :: "addr \<Rightarrow> bool scan_state \<times> go_error option \<Rightarrow> addr option scan_state \<times> go_error option" where
  "kept dest ((mem, vals, dests, found), err) =
     ((mem, vals, dests, if found then Some dest else None), if found then None else err)"

definition first_stop :: "('st \<Rightarrow> bool) \<Rightarrow> ('st \<times> go_error option) option \<Rightarrow> bool" where
  "first_stop found x \<longleftrightarrow> (case x of None \<Rightarrow> True
     | Some (st, err) \<Rightarrow> (if found st then err = Some (Sentinel ErrStopIter) else err \<noteq> None \<and> err \<noteq> Some (Sentinel ErrStopIter)))"

lemma scan_value_first:
  assumes "alloc mem = (mem1, dest)"
  shows "scan_value conv t alloc keep_row rows (mem, vals, d, None) =
      map_option (kept dest) (scan_value conv t (\<lambda>m. (m, dest)) stop_row rows (mem1, vals, d, False))"
    and "first_stop (snd \<circ> snd \<circ> snd) (scan_value conv t (\<lambda>m. (m, dest)) stop_row rows (mem1, vals, d, False))"
  using assms by (auto simp: scan_value_def first_stop_def split: prod.split option.split)

lemma scan_struct_first:
  assumes "alloc mem = (mem1, dest)"
  shows "scan_struct conv meta alloc keep_row rows (mem, vals, d, None) =
      map_option (kept dest) (scan_struct conv meta (\<lambda>m. (m, dest)) stop_row rows (mem1, vals, d, False))"
    and "first_stop (snd \<circ> snd \<circ> snd) (scan_struct conv meta (\<lambda>m. (m, dest)) stop_row rows (mem1, vals, d, False))"
  using assms by (auto simp: scan_struct_def first_stop_def split: prod.split option.split)

text \<open>The error \<open>getScan\<close> returns after its loop, \<open>Close\<close> included.\<close>

definition get_end :: "sql_rows \<Rightarrow> bool \<Rightarrow> go_error option \<Rightarrow> go_error option" where
  "get_end rows found err =
     (case snd (close_rows rows err) of Some e \<Rightarrow> Some e | None \<Rightarrow> if \<not> found then Some (Sentinel ErrNoRows) else None)"

definition same_get :: "addr \<Rightarrow> (sql_rows \<times> addr option scan_state \<times> go_error option) option \<Rightarrow>
  (sql_rows \<times> bool scan_state \<times> go_error option) option \<Rightarrow> bool" where
  "same_get dest x y \<longleftrightarrow>
     (case (x, y) of
        (None, None) \<Rightarrow> True
      | (Some (rows1, (mem1, vals1, d1, res), err1), Some (rows2, (mem2, vals2, d2, found), err2)) \<Rightarrow>
          d1 = d2 \<and> err_class (snd (close_rows rows1 err1)) = err_class (get_end rows2 found err2) \<and>
          (snd (close_rows rows1 err1) = None \<longrightarrow> res = Some dest \<and> mem1 = mem2 \<and> vals1 = vals2)
      | _ \<Rightarrow> False)"

lemma first_row_scan_loop:
  assumes "\<And>rows. one rows (mem, vals, d, None) = map_option (kept dest) (stop rows (mem1, vals, d, False))"
    and "\<And>rows. first_stop (snd \<circ> snd \<circ> snd) (stop rows (mem1, vals, d, False))"
    and "\<not> rs_closed rows"
  shows "same_get dest (first_row one rows (mem, vals, d, None)) (scan_loop stop rows (mem1, vals, d, False))"
proof (cases "rs_pending rows")
  case Nil
  then show ?thesis
    using assms(3) by (subst scan_loop.simps)
      (auto simp: first_row_def same_get_def rows_Next_def row_error_def rows_Err_def close_rows_def rows_Close_def get_end_def
        split: option.split)
next
  case (Cons row rest)
  let ?rows = "rows\<lparr>rs_pending := rest, rs_current := Some row\<rparr>"
  have n: "rows_Next rows = (?rows, True)" using Cons assms(3) by (simp add: rows_Next_def)
  show ?thesis
    using assms(1) [of ?rows] assms(2) [of ?rows] n
    by (subst scan_loop.simps)
      (auto simp: first_row_def same_get_def first_stop_def get_end_def close_rows_def split: option.split prod.split if_splits)
qed

text \<open>What a caller sees: the element and the state when there is no error, else the class of the error.\<close>

fun get_view :: "'w sys \<times> addr option \<times> go_error option \<Rightarrow>
    ('w sys \<times> addr option) option \<times> 'w \<times> engine \<times> (sentinel \<Rightarrow> bool) option" where
  "get_view (s, a, err) = (if err = None then Some (s, a) else None, sy_world s, sy_engine s, err_class err)"

lemma same_get_view:
  assumes "same_get dest x y"
  shows "map_option get_view (gen_close (map_option (\<lambda>(rows, (mem, vals, d, res), err).
        (s\<lparr>sy_engine := en d, sy_mem := mem, sy_vals := vals\<rparr>, rows, res, err)) x)) =
    map_option get_view (map_option (\<lambda>(rows, (mem, vals, d, found), err).
        (s\<lparr>sy_engine := en d, sy_mem := mem, sy_vals := vals\<rparr>, Some dest, get_end rows found err)) y)"
proof (cases x)
  case None
  with assms show ?thesis by (cases y) (simp_all add: same_get_def gen_close_def)
next
  case (Some a)
  obtain rows1 mem1 vals1 d1 res err1 where a: "a = (rows1, (mem1, vals1, d1, res), err1)" by (cases a) auto
  with Some assms obtain rows2 mem2 vals2 found err2 where y: "y = Some (rows2, (mem2, vals2, d1, found), err2)"
    by (cases y) (auto simp: same_get_def)
  obtain r c where r: "close_rows rows1 err1 = (r, c)" by (cases "close_rows rows1 err1")
  show ?thesis
    using assms Some a y r by (cases c; cases "get_end rows2 found err2") (auto simp: same_get_def gen_close_def)
qed

lemma getScan_body:
  "getScan E conv en rows (TPtr t) dest u strict m mem vals =
     map_option (\<lambda>(en1, rows1, mem1, vals1, found, err). (en1, fst (close_rows rows1 err), mem1, vals1, get_end rows1 found err))
       (iterate_body E conv en rows t u strict m (\<lambda>mem. (mem, dest)) stop_row mem vals False)"
  by (cases "iterate_body E conv en rows t u strict m (\<lambda>mem. (mem, dest)) stop_row mem vals False")
    (auto simp: getScan_def iterateScan_def get_end_def split: option.split prod.split)

lemma run_get_body:
  "run_get api s rows (TPtr t) dest u strict m =
     map_option (\<lambda>(en1, rows1, mem1, vals1, found, err).
         (s\<lparr>sy_engine := en1, sy_mem := mem1, sy_vals := vals1\<rparr>, get_end rows1 found err))
       (iterate_body (api_types api) (api_conv api) (sy_engine s) rows t u strict m (\<lambda>mem. (mem, dest)) stop_row
          (sy_mem s) (sy_vals s) False)"
  by (cases "iterate_body (api_types api) (api_conv api) (sy_engine s) rows t u strict m (\<lambda>mem. (mem, dest)) stop_row
        (sy_mem s) (sy_vals s) False")
    (auto simp: run_get_def getScan_body)

text \<open>Both bodies when the rows are reached; \<open>en\<close> is the engine after the destinations went back to the pool.\<close>

lemma reached_rows:
  assumes "GetG_body api s rows T u strict m =
      map_option (\<lambda>(rows, (mem, vals, d, res), err). (s\<lparr>sy_engine := en d, sy_mem := mem, sy_vals := vals\<rparr>, rows, res, err)) x"
    and "iterate_body (api_types api) (api_conv api) (sy_engine s) rows T' u strict (Some m) (\<lambda>mem. (mem, dest)) stop_row
        mem1 (sy_vals s) False =
      map_option (\<lambda>(rows, (mem, vals, d, found), err). (en d, rows, mem, vals, found, err)) y"
    and "same_get dest x y"
  shows "map_option get_view (gen_close (GetG_body api s rows T u strict m)) =
    map_option (\<lambda>(s1, err). get_view (s1, Some dest, err))
      (run_get api (s\<lparr>sy_mem := mem1\<rparr>) rows (TPtr T') dest u strict (Some m))"
  unfolding assms(1) same_get_view [OF assms(3)]
  using assms(2) by (cases y) (auto simp: run_get_body)

lemma failed_before_rows:
  assumes "GetG_body api s rows T u strict m = Some (s\<lparr>sy_engine := en\<rparr>, rows, None, Some e)"
    and "iterate_body (api_types api) (api_conv api) (sy_engine s) rows T' u strict (Some m) (\<lambda>mem. (mem, dest)) stop_row
        mem1 (sy_vals s) False = Some (en, rows, mem1, sy_vals s, False, Some e)"
  shows "map_option get_view (gen_close (GetG_body api s rows T u strict m)) =
    map_option (\<lambda>(s1, err). get_view (s1, Some dest, err))
      (run_get api (s\<lparr>sy_mem := mem1\<rparr>) rows (TPtr T') dest u strict (Some m))"
proof -
  obtain r c where "rows_Close rows = (r, c)" by (cases "rows_Close rows")
  with assms show ?thesis by (simp add: run_get_body gen_close_def close_rows_def get_end_def)
qed

lemma GetG_body_getScan:
  assumes "T' = (if kind_of T = KPtr then Deref T else T)" and "reflect_New T' (sy_mem s) = (mem1, dest)"
  shows "map_option get_view (gen_close (GetG_body api s rows T u strict m)) =
    map_option (\<lambda>(s1, err). get_view (s1, Some dest, err))
      (run_get api (s\<lparr>sy_mem := mem1\<rparr>) rows (TPtr T') dest u strict (Some m))"
proof (cases "rows_Columns rows")
  case (Ok columns)
  then have c: "\<not> rs_closed rows" by (simp add: rows_Columns_def split: if_splits)
  note d = GetG_body_def run_get_body iterate_body_def nil_TypeMap_def Let_def gen_close_def get_end_def
  show ?thesis
  proof (cases "isScannable (api_types api) T'")
    case scannable: True
    show ?thesis
    proof (cases "length columns = 1")
      case True
      let ?x = "first_row (scan_value (api_conv api) T' (reflect_New T') keep_row) rows (sy_mem s, sy_vals s, [], None)"
      let ?y = "scan_loop (scan_value (api_conv api) T' (\<lambda>m. (m, dest)) stop_row) rows (mem1, sy_vals s, [], False)"
      have "same_get dest ?x ?y"
        by (rule first_row_scan_loop [OF _ _ c]) (rule scan_value_first [where alloc = "reflect_New T'", OF assms(2)])+
      then show ?thesis
        by (rule reached_rows [where en = "\<lambda>d. sy_engine s", rotated 2])
          (use Ok scannable True assms(1) in \<open>cases ?x; cases ?y; auto simp: d\<close>)+
    qed (rule failed_before_rows [where en = "sy_engine s"], use Ok scannable assms(1) in \<open>auto simp: d\<close>)
  next
    case False
    show ?thesis
    proof (cases "type_map (api_types api) m T'")
      case None
      with Ok False assms(1) show ?thesis by (simp add: d)
    next
      case (Some tm)
      obtain c1 b where b: "buildMeta (api_types api) (en_metaCache (sy_engine s)) T' columns tm u = (c1, b)"
        by (cases "buildMeta (api_types api) (en_metaCache (sy_engine s)) T' columns tm u")
      obtain pool1 sd where g: "getScanDest (en_pool (sy_engine s)) (length columns) = (pool1, sd)"
        by (cases "getScanDest (en_pool (sy_engine s)) (length columns)")
      show ?thesis
      proof (cases "strict \<and> sm_errors tm \<noteq> []")
        case True
        show ?thesis
          by (rule failed_before_rows [where en = "sy_engine s"]) (use True Ok False assms(1) Some in \<open>auto simp: d\<close>)
      next
        case lax: False
        show ?thesis
        proof (cases b)
          case meta: (Ok meta)
          let ?x = "first_row (scan_struct (api_conv api) meta (reflect_New T') keep_row) rows (sy_mem s, sy_vals s, fst sd, None)"
          let ?y = "scan_loop (scan_struct (api_conv api) meta (\<lambda>m. (m, dest)) stop_row) rows (mem1, sy_vals s, fst sd, False)"
          have "same_get dest ?x ?y"
            by (rule first_row_scan_loop [OF _ _ c]) (rule scan_struct_first [where alloc = "reflect_New T'", OF assms(2)])+
          then show ?thesis
            by (rule reached_rows [where en = "\<lambda>d. sy_engine s\<lparr>en_metaCache := c1, en_pool := putScanDest (d, snd sd) pool1\<rparr>", rotated 2])
              (use Ok False lax assms(1) Some b g meta in \<open>cases ?x; cases ?y; auto simp: d\<close>)+
        next
          case (Err v e)
          show ?thesis
            by (rule failed_before_rows [where en = "sy_engine s\<lparr>en_metaCache := c1\<rparr>"])
              (use Ok False lax assms(1) Some b Err in \<open>auto simp: d\<close>)
        qed (use Ok False lax assms(1) Some b in \<open>auto simp: d\<close>)
      qed
    qed
  qed
next
  case (Err v e)
  show ?thesis
    by (rule failed_before_rows [where en = "sy_engine s"]) (use Err assms(1) in \<open>auto simp: GetG_body_def iterate_body_def Let_def\<close>)
qed (use assms(1) in \<open>simp add: GetG_body_def run_get_body iterate_body_def gen_close_def Let_def\<close>)



end
