(* ===== verification/Mock_Driver.thy ===== *)
theory Mock_Driver
  imports Handles_Props
begin

text \<open>
  The driver the repository's tests run on, \<open>internal/mockdb/mockdb.go\<close>: its statements, whose query text says
  what rows to make and where to fail, and its rows, a state machine \<open>database/sql\<close> steps by \<open>Next\<close>.  The
  theorem at the end runs \<open>SelectContext\<close> on it.  An \<open>int\<close> of the source is bounded by the 64 bits its parser
  accepts; the cursor only counts up to it.
\<close>

subsection \<open>What the driver takes from the standard library\<close>

text \<open>
  \<open>float64\<close>: its literals, conversion from an integer, product, order, how it prints, the number \<open>Sscanf\<close>
  with \<open>%f\<close> stores, and the sequence of numbers \<open>rand.Float64\<close> gives.
\<close>

record 'f floats =
  fl_lit :: "string \<Rightarrow> 'f"
  fl_of_int :: "nat \<Rightarrow> 'f"
  fl_mul :: "'f \<Rightarrow> 'f \<Rightarrow> 'f"
  fl_less :: "'f \<Rightarrow> 'f \<Rightarrow> bool"
  fl_print :: "'f \<Rightarrow> string"
  fl_scan :: "string \<Rightarrow> 'f option"
  fl_rand :: "nat \<Rightarrow> 'f"

text \<open>White space of \<open>strings.TrimSpace\<close> and of \<open>fmt\<close>, in UTF-8.\<close>

definition white_spaces :: "string list" where
  "white_spaces = map (map char_of)
     [[9], [10], [11], [12], [13], [32], [194, 133], [194, 160], [225, 154, 128 :: nat],
      [226, 128, 128], [226, 128, 129], [226, 128, 130], [226, 128, 131], [226, 128, 132], [226, 128, 133],
      [226, 128, 134], [226, 128, 135], [226, 128, 136], [226, 128, 137], [226, 128, 138],
      [226, 128, 168], [226, 128, 169], [226, 128, 175], [226, 129, 159], [227, 128, 128]]"

definition lead_space :: "string list \<Rightarrow> string \<Rightarrow> string option" where
  "lead_space ws s = find (\<lambda>p. p \<noteq> [] \<and> take (length p) s = p) ws"

lemma lead_space_Some: "lead_space ws s = Some p \<Longrightarrow> p \<noteq> [] \<and> s = p @ drop (length p) s"
  by (auto simp: lead_space_def find_Some_iff) (metis append_take_drop_id)

lemma lead_space_shorter: "lead_space ws s = Some p \<Longrightarrow> length s - length p < length s"
  using lead_space_Some [of ws s p] by (cases s) auto

function trim_left :: "string list \<Rightarrow> string \<Rightarrow> string" where
  "trim_left ws s = (case lead_space ws s of None \<Rightarrow> s | Some p \<Rightarrow> trim_left ws (drop (length p) s))"
  by pat_completeness auto
termination by (relation "measure (\<lambda>(ws, s). length s)") (simp_all add: lead_space_shorter)

declare trim_left.simps [simp del]

definition TrimSpace :: "string \<Rightarrow> string" where
  "TrimSpace s = rev (trim_left (map rev white_spaces) (rev (trim_left white_spaces s)))"

text \<open>
  \<open>Sscanf(s, "%d", &n)\<close>: leading space but no newline, a sign, digits as far as they go; \<^const>\<open>None\<close> where it stores
  nothing, a number beyond 64 bits included.
\<close>

function scan_space :: "string \<Rightarrow> string option" where
  "scan_space s =
     (case lead_space white_spaces s of
        None \<Rightarrow> Some s
      | Some p \<Rightarrow> if p = [char_of (10 :: nat)] then None else scan_space (drop (length p) s))"
  by pat_completeness auto
termination by (relation "measure length") (simp_all add: lead_space_shorter)

declare scan_space.simps [simp del]

definition is_digit :: "char \<Rightarrow> bool" where
  "is_digit c \<longleftrightarrow> 48 \<le> (of_char c :: nat) \<and> (of_char c :: nat) < 58"

fun take_sign :: "string \<Rightarrow> bool \<times> string" where
  "take_sign (c # s) = (if c = CHR ''-'' then (True, s) else if c = CHR ''+'' then (False, s) else (False, c # s))"
| "take_sign [] = (False, [])"

definition scan_int :: "string \<Rightarrow> int option" where
  "scan_int s =
     (case scan_space s of
        None \<Rightarrow> None
      | Some t \<Rightarrow>
          (let (neg, u) = take_sign t;
               ds = takeWhile is_digit u;
               v = (if neg then - int (atoi ds) else int (atoi ds)) in
           if ds \<noteq> [] \<and> - (2 ^ 63) \<le> v \<and> v < 2 ^ 63 then Some v else None))"

subsection \<open>Columns and rows\<close>

abbreviation int64_val :: "string \<Rightarrow> gval" where "int64_val \<equiv> VBasic (TBasic BInt64)"

abbreviation float_val :: "string \<Rightarrow> gval" where "float_val \<equiv> VBasic (TBasic BFloat64)"

abbreviation string_val :: "string \<Rightarrow> gval" where "string_val \<equiv> VBasic (TBasic BString)"

definition SmallColumns :: "string list" where
  "SmallColumns = [''id'', ''name'', ''email'']"

definition SmallRow :: "gval list" where
  "SmallRow = [int64_val ''1'', string_val ''John Doe'', string_val ''john@example.com'']"

definition MediumColumns :: "string list" where
  "MediumColumns =
     [''id'', ''first_name'', ''last_name'', ''email'', ''phone'',
      ''address'', ''city'', ''state'', ''zip'', ''country'',
      ''age'', ''score'', ''active'', ''created_at'', ''updated_at'']"

definition MediumRow :: "gval list" where
  "MediumRow =
     [int64_val ''1'', string_val ''John'', string_val ''Doe'', string_val ''john@example.com'', string_val ''+1234567890'',
      string_val ''123 Main St'', string_val ''Anytown'', string_val ''CA'', string_val ''90210'', string_val ''US'',
      int64_val ''30'', float_val ''95.5'', VBasic (TBasic BBool) ''true'',
      string_val ''2024-01-01T00:00:00Z'', string_val ''2024-06-01T00:00:00Z'']"

definition LargeColumns :: "string list" where
  "LargeColumns = map (\<lambda>i. ''field_'' @ (if i < 10 then ''0'' else []) @ itoa i) [0..<50]"

definition EmbeddedColumns :: "string list" where
  "EmbeddedColumns = [''name'', ''street'', ''city'']"

definition EmbeddedRow :: "gval list" where
  "EmbeddedRow = [string_val ''Alice'', string_val ''123 Main St'', string_val ''Springfield'']"

definition LargeRow :: "'f floats \<Rightarrow> gval list" where
  "LargeRow fl =
     map (\<lambda>i. if i mod 3 = 0 then int64_val (itoa i)
               else if i mod 3 = 1 then string_val (''value_'' @ itoa i)
               else float_val (fl_print fl (fl_mul fl (fl_of_int fl i) (fl_lit fl ''1.1'')))) [0..<50]"

definition getRowsForType :: "'f floats \<Rightarrow> string \<Rightarrow> string list \<times> gval list" where
  "getRowsForType fl t =
     (if t = ''small'' then (SmallColumns, SmallRow)
      else if t = ''medium'' then (MediumColumns, MediumRow)
      else if t = ''large'' then (LargeColumns, LargeRow fl)
      else if t = ''embedded'' then (EmbeddedColumns, EmbeddedRow)
      else (SmallColumns, SmallRow))"

subsection \<open>Rows\<close>

record 'f mock_rows =
  mr_columns :: "string list"
  mr_row :: "gval list"
  mr_numRows :: int
  mr_cursor :: int
  mr_failAt :: int
  mr_failProb :: 'f
  mr_failType :: string

definition NewMockRows :: "string list \<Rightarrow> gval list \<Rightarrow> int \<Rightarrow> int \<Rightarrow> 'f \<Rightarrow> string \<Rightarrow> 'f mock_rows" where
  "NewMockRows columns row numRows failAt failProb failType =
     \<lparr>mr_columns = columns, mr_row = row, mr_numRows = numRows, mr_cursor = 0, mr_failAt = failAt,
      mr_failProb = failProb, mr_failType = failType\<rparr>"

definition MockRows_Columns :: "'f mock_rows \<Rightarrow> string list" where
  "MockRows_Columns r = mr_columns r"

definition MockRows_Close :: "'f mock_rows \<Rightarrow> go_error option" where
  "MockRows_Close r = None"

abbreviation io_EOF :: go_error where "io_EOF \<equiv> Foreign ''EOF''"

definition generateError :: "'f mock_rows \<Rightarrow> go_error" where
  "generateError r =
     (if mr_failType r = ''eof'' then Foreign ''unexpected EOF''
      else if mr_failType r = ''timeout'' then Errorf ''mockdb: network timeout'' [] None
      else if mr_failType r = ''reset'' then Errorf ''mockdb: connection reset by peer'' [] None
      else Errorf ''mockdb: failure at row %d'' [FInt (mr_cursor r)] None)"

text \<open>\<open>copy(dest, src)\<close>.\<close>

definition go_copy :: "'a list \<Rightarrow> 'a list \<Rightarrow> 'a list" where
  "go_copy dest src = take (length dest) src @ drop (length src) dest"

text \<open>\<open>Next\<close>; \<open>w\<close> counts the random numbers drawn so far.\<close>

definition MockRows_Next ::
  "'f floats \<Rightarrow> nat \<Rightarrow> 'f mock_rows \<Rightarrow> gval list \<Rightarrow> nat \<times> 'f mock_rows \<times> gval list \<times> go_error option" where
  "MockRows_Next fl w r dest =
     (if mr_failAt r \<noteq> - 1 \<and> mr_cursor r = mr_failAt r then (w, r, dest, Some (generateError r))
      else
        (let draws = fl_less fl (fl_lit fl ''0'') (mr_failProb r);
             w1 = (if draws then Suc w else w) in
         if draws \<and> fl_less fl (fl_rand fl w) (mr_failProb r) then (w1, r, dest, Some (generateError r))
         else if mr_numRows r \<le> mr_cursor r then (w1, r, dest, Some io_EOF)
         else (w1, r\<lparr>mr_cursor := mr_cursor r + 1\<rparr>, go_copy dest (mr_row r), None)))"

subsection \<open>Statements\<close>

record mock_stmt =
  ms_query :: string

datatype mock_conn = MockConn

datatype mock_tx = MockTx

datatype mock_result = MockResult

definition MockDriver_Open :: "string \<Rightarrow> mock_conn result" where
  "MockDriver_Open name = Ok MockConn"

definition MockConn_Prepare :: "mock_conn \<Rightarrow> string \<Rightarrow> mock_stmt result" where
  "MockConn_Prepare c query = Ok \<lparr>ms_query = query\<rparr>"

definition MockConn_Close :: "mock_conn \<Rightarrow> go_error option" where
  "MockConn_Close c = None"

definition MockConn_Begin :: "mock_conn \<Rightarrow> mock_tx result" where
  "MockConn_Begin c = Ok MockTx"

definition MockTx_Commit :: "mock_tx \<Rightarrow> go_error option" where
  "MockTx_Commit t = None"

definition MockTx_Rollback :: "mock_tx \<Rightarrow> go_error option" where
  "MockTx_Rollback t = None"

definition MockStmt_Close :: "mock_stmt \<Rightarrow> go_error option" where
  "MockStmt_Close st = None"

definition MockStmt_NumInput :: "mock_stmt \<Rightarrow> int" where
  "MockStmt_NumInput st = - 1"

definition MockStmt_Exec :: "mock_stmt \<Rightarrow> gval list \<Rightarrow> mock_result result" where
  "MockStmt_Exec st args = Ok MockResult"

definition MockResult_LastInsertId :: "mock_result \<Rightarrow> int result" where
  "MockResult_LastInsertId r = Ok 0"

definition MockResult_RowsAffected :: "mock_result \<Rightarrow> int result" where
  "MockResult_RowsAffected r = Ok 0"

text \<open>The variables \<open>Query\<close> collects from the parts of the query.\<close>

record 'f mock_params =
  mp_structType :: string
  mp_numRows :: int
  mp_failAt :: int
  mp_failProb :: 'f
  mp_failType :: string

definition set_option :: "'f floats \<Rightarrow> 'f mock_params \<Rightarrow> string \<Rightarrow> 'f mock_params" where
  "set_option fl p part =
     (case index_byte part (CHR ''='') of
        None \<Rightarrow> p
      | Some i \<Rightarrow>
          (let key = take i part; val = drop (Suc i) part in
           if key = ''at'' then (case scan_int val of None \<Rightarrow> p | Some n \<Rightarrow> p\<lparr>mp_failAt := n\<rparr>)
           else if key = ''p'' then (case fl_scan fl val of None \<Rightarrow> p | Some x \<Rightarrow> p\<lparr>mp_failProb := x\<rparr>)
           else if key = ''type'' then p\<lparr>mp_failType := val\<rparr>
           else p))"

definition query_part :: "'f floats \<Rightarrow> 'f mock_params \<Rightarrow> string \<Rightarrow> 'f mock_params" where
  "query_part fl p part =
     (if CHR ''='' \<in> set part then foldl (set_option fl) p (split_on (CHR '','') part)
      else if part = ''fail'' \<or> part = ''failure'' then p
      else
        (case scan_int part of
           Some val \<Rightarrow> p\<lparr>mp_numRows := val\<rparr>
         | None \<Rightarrow> if mp_structType p = [] then p\<lparr>mp_structType := part\<rparr> else p))"

definition initial_params :: "'f floats \<Rightarrow> 'f mock_params" where
  "initial_params fl =
     \<lparr>mp_structType = [], mp_numRows = 100, mp_failAt = - 1, mp_failProb = fl_lit fl ''0'', mp_failType = ''error''\<rparr>"

definition MockStmt_Query :: "'f floats \<Rightarrow> mock_stmt \<Rightarrow> gval list \<Rightarrow> 'f mock_rows" where
  "MockStmt_Query fl st args =
     (let query = TrimSpace (ms_query st) in
      if take 7 query \<noteq> ''SELECT '' then NewMockRows SmallColumns SmallRow 1 (- 1) (fl_lit fl ''0'') ''error''
      else
        (let p = foldl (query_part fl) (initial_params fl) (split_on (CHR '':'') (drop 7 query));
             structType = (if mp_structType p = [] then ''small'' else mp_structType p);
             (cols, row) = getRowsForType fl structType in
         NewMockRows cols row (mp_numRows p) (mp_failAt p) (mp_failProb p) (mp_failType p)))"

subsection \<open>Under \<open>database/sql\<close>\<close>

text \<open>
  \<open>database/sql\<close> asks for rows, into one buffer, until \<open>Next\<close> returns an error; \<open>io.EOF\<close> ends the
  result set without one.
\<close>

function mock_drain ::
  "'f floats \<Rightarrow> nat \<Rightarrow> 'f mock_rows \<Rightarrow> gval list \<Rightarrow> nat \<times> gval list list \<times> go_error" where
  "mock_drain fl w r dest =
     (case MockRows_Next fl w r dest of
        (w1, r1, dest1, Some e) \<Rightarrow> (w1, [], e)
      | (w1, r1, dest1, None) \<Rightarrow> (case mock_drain fl w1 r1 dest1 of (w2, rows, e) \<Rightarrow> (w2, dest1 # rows, e)))"
  by pat_completeness auto
termination
  by (relation "measure (\<lambda>(fl, w, r, dest). nat (mr_numRows r - mr_cursor r))")
    (auto simp: MockRows_Next_def Let_def split: if_splits)

declare mock_drain.simps [simp del]

definition mock_sql_rows :: "'f floats \<Rightarrow> nat \<Rightarrow> 'f mock_rows \<Rightarrow> sql_rows" where
  "mock_sql_rows fl w r =
     (case mock_drain fl w r (replicate (length (MockRows_Columns r)) VNil) of
        (w1, rows, e) \<Rightarrow>
          \<lparr>rs_columns = MockRows_Columns r, rs_pending = rows, rs_current = None,
           rs_err = (if e = io_EOF then None else Some e), rs_close_err = MockRows_Close r,
           rs_closed = False, rs_ended = False\<rparr>)"

subsection \<open>Rows without chance\<close>

lemma go_copy_same: "length dest = length src \<Longrightarrow> go_copy dest src = src"
  by (simp add: go_copy_def)

text \<open>
  The rows of the abstract result set: as many copies of the row as come before the failure or the
  end, and the error there.  The failure point is reached if it is not past the number of rows.
\<close>

definition fails_at :: "'f mock_rows \<Rightarrow> bool" where
  "fails_at r \<longleftrightarrow> mr_cursor r \<le> mr_failAt r \<and> mr_failAt r \<le> max (mr_cursor r) (mr_numRows r)"

definition rows_left :: "'f mock_rows \<Rightarrow> nat" where
  "rows_left r = (if fails_at r then nat (mr_failAt r - mr_cursor r) else nat (mr_numRows r - mr_cursor r))"

definition last_error :: "'f mock_rows \<Rightarrow> go_error" where
  "last_error r = (if fails_at r then generateError (r\<lparr>mr_cursor := mr_failAt r\<rparr>) else io_EOF)"

lemma Next_certain:
  assumes "\<not> fl_less fl (fl_lit fl ''0'') (mr_failProb r)" and "0 \<le> mr_cursor r" and "length dest = length (mr_row r)"
  shows "MockRows_Next fl w r dest =
    (if rows_left r = 0 then (w, r, dest, Some (last_error r))
     else (w, r\<lparr>mr_cursor := mr_cursor r + 1\<rparr>, mr_row r, None))"
  using assms
  by (auto simp: MockRows_Next_def Let_def rows_left_def last_error_def fails_at_def go_copy_same max_def generateError_def)

lemma step_left:
  assumes "rows_left r = Suc k"
  shows "rows_left (r\<lparr>mr_cursor := mr_cursor r + 1\<rparr>) = k"
    and "last_error (r\<lparr>mr_cursor := mr_cursor r + 1\<rparr>) = last_error r"
  using assms by (auto simp: rows_left_def last_error_def fails_at_def max_def split: if_splits)

lemma drain_certain:
  assumes "\<not> fl_less fl (fl_lit fl ''0'') (mr_failProb r)" and "0 \<le> mr_cursor r" and "length dest = length (mr_row r)"
  shows "mock_drain fl w r dest = (w, replicate (rows_left r) (mr_row r), last_error r)"
  using assms
proof (induction "rows_left r" arbitrary: r dest)
  case 0
  then show ?case by (subst mock_drain.simps) (simp add: Next_certain)
next
  case (Suc k)
  let ?r = "r\<lparr>mr_cursor := mr_cursor r + 1\<rparr>"
  from Suc.hyps(2) have left: "rows_left r = Suc k" by simp
  have "mock_drain fl w ?r (mr_row r) = (w, replicate (rows_left ?r) (mr_row ?r), last_error ?r)"
    by (rule Suc.hyps(1)) (use Suc.prems step_left(1) [OF left] in simp_all)
  with Suc.prems left show ?case
    by (subst mock_drain.simps) (simp add: Next_certain step_left [OF left])
qed

lemma mock_sql_rows_eq:
  assumes "\<not> fl_less fl (fl_lit fl ''0'') (mr_failProb r)" and "mr_cursor r = 0" and "length (mr_columns r) = length (mr_row r)"
  shows "mock_sql_rows fl w r =
    \<lparr>rs_columns = mr_columns r, rs_pending = replicate (rows_left r) (mr_row r), rs_current = None,
     rs_err = (if fails_at r then Some (last_error r) else None), rs_close_err = None, rs_closed = False, rs_ended = False\<rparr>"
proof -
  have "mock_drain fl w r (replicate (length (mr_columns r)) VNil) = (w, replicate (rows_left r) (mr_row r), last_error r)"
    by (rule drain_certain) (use assms in simp_all)
  moreover have "last_error r = io_EOF \<longleftrightarrow> \<not> fails_at r" by (simp add: last_error_def generateError_def)
  ultimately show ?thesis by (simp add: mock_sql_rows_def MockRows_Columns_def MockRows_Close_def)
qed

subsection \<open>The queries of the tests\<close>

lemma lead_space_None: "s = [] \<or> hd s \<notin> hd ` set ws \<Longrightarrow> lead_space ws s = None"
  by (auto simp: lead_space_def find_None_iff) (metis hd_append2 image_eqI append_take_drop_id)

lemma trim_left_id: "s = [] \<or> hd s \<notin> hd ` set ws \<Longrightarrow> trim_left ws s = s"
  by (subst trim_left.simps) (simp add: lead_space_None)

lemma scan_space_id: "s = [] \<or> hd s \<notin> hd ` set white_spaces \<Longrightarrow> scan_space s = Some s"
  by (subst scan_space.simps) (simp add: lead_space_None)

definition starts_white :: "char \<Rightarrow> bool" where
  "starts_white c \<longleftrightarrow> c \<in> hd ` set white_spaces \<or> c \<in> hd ` set (map rev white_spaces)"

lemma starts_white_codes:
  "starts_white c \<longleftrightarrow> (of_char c :: nat) \<in> {9, 10, 11, 12, 13, 32, 194, 225, 226, 227, 133, 160, 128, 129, 130, 131, 132, 134,
     135, 136, 137, 138, 168, 169, 175, 159}"
proof -
  have "c = char_of n \<longleftrightarrow> (of_char c :: nat) = n" if "n < 256" for n :: nat
    using that by (metis of_char_of char_of_char mod_less)
  then show ?thesis by (simp add: starts_white_def white_spaces_def) blast
qed

lemma digit_not_white: "is_digit c \<Longrightarrow> \<not> starts_white c"
  by (auto simp: starts_white_codes is_digit_def)

lemma itoa_digits: "c \<in> set (itoa n) \<Longrightarrow> is_digit c"
  using itoa_byte_range by (simp add: is_digit_def)

lemma itoa_hd_last: "is_digit (hd (itoa n))" "is_digit (last (itoa n))"
  by (simp_all add: itoa_digits [where n = n])

lemma take_sign_id: "s = [] \<or> hd s \<noteq> CHR ''-'' \<and> hd s \<noteq> CHR ''+'' \<Longrightarrow> take_sign s = (False, s)"
  by (cases s) auto

lemma scan_int_itoa:
  assumes "n < 2 ^ 63"
  shows "scan_int (itoa n) = Some (int n)"
proof -
  have digits: "takeWhile is_digit (itoa n) = itoa n" by (simp add: takeWhile_eq_all_conv itoa_digits)
  have "scan_space (itoa n) = Some (itoa n)"
    using digit_not_white [OF itoa_hd_last(1)] by (intro scan_space_id) (auto simp: starts_white_def)
  moreover have "take_sign (itoa n) = (False, itoa n)"
    using itoa_hd_last(1) [of n] by (intro take_sign_id) (auto simp: is_digit_def)
  moreover have "int n < 2 ^ 63" using assms by simp
  ultimately show ?thesis by (simp add: scan_int_def digits atoi_itoa del: atoi.simps)
qed

lemma scan_int_word:
  assumes "s \<noteq> []" and "\<not> starts_white (hd s)" and "\<not> is_digit (hd s)" and "hd s \<noteq> CHR ''-''" and "hd s \<noteq> CHR ''+''"
  shows "scan_int s = None"
proof -
  have "scan_space s = Some s" using assms(2) by (intro scan_space_id) (auto simp: starts_white_def)
  moreover have "takeWhile is_digit s = []" using assms(1,3) by (cases s) auto
  ultimately show ?thesis using assms by (simp add: scan_int_def take_sign_id)
qed

text \<open>A query as the tests write it: \<open>SELECT fail:at=3:small:10\<close> or \<open>SELECT small:10\<close>.\<close>

definition test_query :: "nat option \<Rightarrow> string \<Rightarrow> nat \<Rightarrow> string" where
  "test_query at kind n =
     ''SELECT '' @ (case at of None \<Rightarrow> [] | Some k \<Rightarrow> ''fail:at='' @ itoa k @ '':'') @ kind @ '':'' @ itoa n"

lemma TrimSpace_id: "\<not> starts_white (hd s) \<Longrightarrow> \<not> starts_white (last s) \<Longrightarrow> TrimSpace s = s"
  by (simp add: TrimSpace_def trim_left_id starts_white_def hd_rev)

lemma TrimSpace_test_query: "TrimSpace (test_query at kind n) = test_query at kind n"
proof (rule TrimSpace_id)
  show "\<not> starts_white (hd (test_query at kind n))" by (simp add: test_query_def starts_white_codes)
  have "last (test_query at kind n) = last (itoa n)" by (simp add: test_query_def)
  then show "\<not> starts_white (last (test_query at kind n))" using itoa_hd_last(2) [of n] digit_not_white by simp
qed

lemma itoa_no_char: "\<not> is_digit c \<Longrightarrow> c \<notin> set (itoa n)"
  using itoa_digits by blast

lemma kinds_scan:
  "kind \<in> {''small'', ''medium'', ''large'', ''embedded''} \<Longrightarrow>
     CHR '':'' \<notin> set kind \<and> CHR ''='' \<notin> set kind \<and> kind \<noteq> [] \<and> kind \<noteq> ''fail'' \<and> kind \<noteq> ''failure'' \<and> scan_int kind = None"
  by (auto simp: scan_int_word starts_white_codes is_digit_def)

lemma query_part_word:
  "CHR ''='' \<notin> set s \<Longrightarrow> s \<noteq> ''fail'' \<Longrightarrow> s \<noteq> ''failure'' \<Longrightarrow> scan_int s = None \<Longrightarrow> mp_structType p = [] \<Longrightarrow>
     query_part fl p s = p\<lparr>mp_structType := s\<rparr>"
  by (simp add: query_part_def)

lemma query_part_number:
  assumes "n < 2 ^ 63" shows "query_part fl p (itoa n) = p\<lparr>mp_numRows := int n\<rparr>"
proof -
  have "itoa n \<noteq> ''fail''" "itoa n \<noteq> ''failure''"
    using itoa_no_char [of "CHR ''f''" n] by (auto simp: is_digit_def)
  with assms show ?thesis by (simp add: query_part_def itoa_no_char is_digit_def scan_int_itoa)
qed

lemma query_part_at:
  assumes "k < 2 ^ 63" shows "query_part fl p (''at='' @ itoa k) = p\<lparr>mp_failAt := int k\<rparr>"
proof -
  have "split_on (CHR '','') (''at='' @ itoa k) = [''at='' @ itoa k]"
    by (rule split_on_no_sep) (simp add: itoa_no_char is_digit_def)
  with assms show ?thesis by (simp add: query_part_def set_option_def scan_int_itoa)
qed

lemma query_part_fail: "query_part fl p ''fail'' = p"
  by (simp add: query_part_def)

lemma split_test_query:
  assumes "kind \<in> {''small'', ''medium'', ''large'', ''embedded''}"
  shows "split_on (CHR '':'') (drop 7 (test_query at kind n)) =
    (case at of None \<Rightarrow> [] | Some k \<Rightarrow> [''fail'', ''at='' @ itoa k]) @ [kind, itoa n]"
proof -
  have k: "split_on (CHR '':'') (kind @ CHR '':'' # itoa n) = [kind, itoa n]"
    using kinds_scan [OF assms] by (simp add: split_on_append_sep split_on_no_sep)
  show ?thesis
  proof (cases at)
    case None
    with k show ?thesis by (simp add: test_query_def)
  next
    case (Some j)
    have "split_on (CHR '':'') ((''fail'' @ CHR '':'' # (''at='' @ itoa j) @ CHR '':'' # (kind @ CHR '':'' # itoa n))) =
        [''fail'', ''at='' @ itoa j, kind, itoa n]"
      by (subst split_on_append_sep, simp)+ (simp add: k)
    with Some show ?thesis by (simp add: test_query_def)
  qed
qed

text \<open>What a query of the tests says is what \<open>Query\<close> reads from it.\<close>

lemma MockStmt_Query_test_query:
  assumes "kind \<in> {''small'', ''medium'', ''large'', ''embedded''}" and "n < 2 ^ 63"
    and "\<And>k. at = Some k \<Longrightarrow> k < 2 ^ 63"
  shows "MockStmt_Query fl \<lparr>ms_query = test_query at kind n\<rparr> args =
    NewMockRows (fst (getRowsForType fl kind)) (snd (getRowsForType fl kind)) (int n)
      (case at of None \<Rightarrow> - 1 | Some k \<Rightarrow> int k) (fl_lit fl ''0'') ''error''"
proof -
  have pre: "take 7 (test_query at kind n) = ''SELECT ''" by (simp add: test_query_def)
  have "foldl (query_part fl) (initial_params fl) (split_on (CHR '':'') (drop 7 (test_query at kind n))) =
      (initial_params fl)\<lparr>mp_structType := kind, mp_numRows := int n, mp_failAt := (case at of None \<Rightarrow> - 1 | Some k \<Rightarrow> int k)\<rparr>"
    using kinds_scan [OF assms(1)] assms(2,3)
    by (cases at) (simp_all add: split_test_query [OF assms(1)] query_part_fail query_part_at [simplified append_Cons append_Nil]
        query_part_word query_part_number initial_params_def)
  moreover have "kind \<noteq> []" using assms(1) by auto
  ultimately show ?thesis
    by (simp add: MockStmt_Query_def TrimSpace_test_query pre initial_params_def Let_def split_beta)
qed

lemma getRowsForType_lengths: "length (fst (getRowsForType fl t)) = length (snd (getRowsForType fl t))"
  by (simp add: getRowsForType_def SmallColumns_def SmallRow_def MediumColumns_def MediumRow_def LargeColumns_def
      LargeRow_def EmbeddedColumns_def EmbeddedRow_def)

text \<open>
  C37. \<open>Select\<close> from end to end, on the driver of the tests: a query \<open>SELECT fail:at=k:kind:n\<close> makes the driver fail
  after \<open>k\<close> rows if \<open>k \<le> n\<close>, so whatever the destination and the handle, \<open>SelectContext\<close> reports no error only when
  the failure point lies past the last row or there is none, and then it has appended exactly \<open>n\<close> elements.
\<close>

theorem SelectContext_mock:
  assumes "kind \<in> {''small'', ''medium'', ''large'', ''embedded''}" and "n < 2 ^ 63" and "\<And>k. at = Some k \<Longrightarrow> k < 2 ^ 63"
    and "\<not> fl_less fl (fl_lit fl ''0'') (fl_lit fl ''0'')"
    and "sql_Query api ctx (handle_of q) (test_query at kind n) args (sy_world s) =
      (w1, Inr (mock_sql_rows fl w (MockStmt_Query fl \<lparr>ms_query = test_query at kind n\<rparr> args)))"
    and "SelectContext api s ctx q destType isNil elems (test_query at kind n) args = Some (s1, elems1, None)"
  shows "(\<forall>k. at = Some k \<longrightarrow> n < k) \<and> (\<exists>new. elems1 = elems @ new \<and> length new = n)"
proof -
  let ?r = "MockStmt_Query fl \<lparr>ms_query = test_query at kind n\<rparr> args"
  let ?rows = "mock_sql_rows fl w ?r"
  have r: "mr_failProb ?r = fl_lit fl ''0''" "mr_cursor ?r = 0" "length (mr_columns ?r) = length (mr_row ?r)"
      "mr_numRows ?r = int n" "mr_failAt ?r = (case at of None \<Rightarrow> - 1 | Some k \<Rightarrow> int k)"
    by (simp_all add: MockStmt_Query_test_query [OF assms(1,2,3)] NewMockRows_def getRowsForType_lengths)
  note rows = mock_sql_rows_eq [where r = ?r and fl = fl and w = w, unfolded r(1), OF assms(4) r(2,3)]
  obtain s0 u strict m where "run_select api s0 ?rows destType isNil elems u strict m = Some (s1, elems1, None)"
    using assms(5,6) by (auto simp: SelectContext_def do_query_def split: prod.splits)
  then obtain en1 rows1 mem1 vals1 where "selectScan (api_types api) (api_conv api) (sy_engine s0) ?rows destType isNil u strict m
      (sy_mem s0) (sy_vals s0) elems = Some (en1, rows1, mem1, vals1, elems1, None)"
    by (auto simp: run_select_def split: option.splits)
  from selectScan_result [OF _ this] have "\<not> fails_at ?r" and new: "\<exists>new. elems1 = elems @ new \<and> length new = rows_left ?r"
    by (auto simp: rows split: if_splits)
  have "rows_left ?r = n" using \<open>\<not> fails_at ?r\<close> by (simp add: rows_left_def r(2,4))
  moreover have "n < k" if "at = Some k" for k
    using \<open>\<not> fails_at ?r\<close> that unfolding fails_at_def r(2,4,5) by (auto simp: max_def split: if_splits)
  ultimately show ?thesis using new by simp
qed

definition sample_floats :: "nat floats" where
  "sample_floats = \<lparr>fl_lit = (\<lambda>_. 0), fl_of_int = (\<lambda>n. n), fl_mul = (*), fl_less = (<), fl_print = itoa,
     fl_scan = (\<lambda>_. None), fl_rand = (\<lambda>_. 0)\<rparr>"

definition mock_api :: "string \<Rightarrow> nat sql_api" where
  "mock_api query = sample_api (mock_sql_rows sample_floats 0 (MockStmt_Query sample_floats \<lparr>ms_query = query\<rparr> []))"

theorem SelectContext_mock_witness:
  "\<exists>s1 elems1. SelectContext (mock_api (test_query (Some 3) ''small'' 2)) sample_sys Background (XDB sample_db)
      (TPtr (TSlice (TStruct ''Person''))) False [] (test_query (Some 3) ''small'' 2) [] = Some (s1, elems1, None) \<and>
    length elems1 = 2"
proof -
  let ?call = "SelectContext (mock_api (test_query (Some 3) ''small'' 2)) sample_sys Background (XDB sample_db)
      (TPtr (TSlice (TStruct ''Person''))) False [] (test_query (Some 3) ''small'' 2) []"
  have q: "MockStmt_Query sample_floats \<lparr>ms_query = test_query (Some 3) ''small'' 2\<rparr> [] = NewMockRows SmallColumns SmallRow 2 3 0 ''error''"
    by (subst MockStmt_Query_test_query) (simp_all add: getRowsForType_def sample_floats_def)
  have eq: "mock_sql_rows sample_floats 0 (MockStmt_Query sample_floats \<lparr>ms_query = test_query (Some 3) ''small'' 2\<rparr> []) =
      \<lparr>rs_columns = SmallColumns, rs_pending = [SmallRow, SmallRow], rs_current = None, rs_err = None, rs_close_err = None,
       rs_closed = False, rs_ended = False\<rparr>"
    unfolding q by (subst mock_sql_rows_eq) (simp_all add: NewMockRows_def sample_floats_def fails_at_def rows_left_def
        SmallColumns_def SmallRow_def numeral_2_eq_2)
  have "map_option (\<lambda>r. snd (snd r)) ?call = Some None"
    unfolding mock_api_def eq by code_simp
  then obtain s1 elems1 where call: "?call = Some (s1, elems1, None)" by auto
  have "sql_Query (mock_api (test_query (Some 3) ''small'' 2)) Background (handle_of (XDB sample_db)) (test_query (Some 3) ''small'' 2) []
      (sy_world sample_sys) =
    (1, Inr (mock_sql_rows sample_floats 0 (MockStmt_Query sample_floats \<lparr>ms_query = test_query (Some 3) ''small'' 2\<rparr> [])))"
    by (simp add: mock_api_def sample_api_def sample_sys_def)
  from SelectContext_mock [OF _ _ _ _ this call] call show ?thesis by (simp add: sample_floats_def)
qed

end
