(* ===== verification/Reflect_Set.thy ===== *)
theory Reflect_Set
  imports Engine_Scan Reflect_Read
begin

text \<open>
  \<open>FieldByIndexes\<close> and \<open>FieldByName\<close> of \<open>internal/reflectx/reflectx.go\<close>, which walk to a field through \<open>reflect\<close>
  and make the pointers and maps on the way, over the memory of \<open>Reflect_Mem\<close>; and their
  agreement with \<open>AddrByTraversal\<close>, which walks the same way over raw addresses.
\<close>

subsection \<open>Settable values\<close>

text \<open>
  A \<open>reflect.Value\<close> that is a pointer held outside memory (what \<open>ValueOf(&x)\<close> gives), or an addressable
  value.  Where \<open>vals\<close> has nothing, memory holds the zero value: a map there is nil.
\<close>

datatype mvalue =
    MPtr "addr option" gtype ro_flag
  | MAt addr gtype ro_flag

fun mvalue_type :: "mvalue \<Rightarrow> gtype" where
  "mvalue_type (MPtr p t r) = t"
| "mvalue_type (MAt a t r) = t"

text \<open>\<open>reflect.Indirect\<close>; \<^const>\<open>None\<close> is the zero \<open>Value\<close> behind a nil pointer.\<close>

fun mem_Indirect :: "memory \<Rightarrow> mvalue \<Rightarrow> mvalue option" where
  "mem_Indirect mem (MPtr p t r) =
     (case (p, ptr_elem t) of (Some a, Some e) \<Rightarrow> Some (MAt a e r) | _ \<Rightarrow> None)"
| "mem_Indirect mem (MAt a t r) =
     (case ptr_elem t of
        None \<Rightarrow> Some (MAt a t r)
      | Some e \<Rightarrow> map_option (\<lambda>q. MAt q e r) (ptr_at mem a))"

text \<open>\<open>Value.Field\<close>, which panics on anything but a struct.\<close>

fun mem_Field :: "tenv \<Rightarrow> mvalue \<Rightarrow> nat \<Rightarrow> mvalue option" where
  "mem_Field E (MAt a (TStruct s) r) i =
     (case struct_of E s of
        None \<Rightarrow> None
      | Some d \<Rightarrow>
          if i < length (sfields d) then
            Some (MAt (add_offset a (foffset (sfields d ! i))) (ftype (sfields d ! i)) (field_ro r (sfields d ! i)))
          else None)"
| "mem_Field E _ i = None"

text \<open>The two allocations; \<open>Set\<close> panics on a value that came through an unexported field.\<close>

fun make_pointer :: "memory \<Rightarrow> mvalue \<Rightarrow> memory option" where
  "make_pointer mem (MAt a t r) =
     (case (ptr_elem t, ptr_at mem a) of
        (Some e, None) \<Rightarrow>
          if r \<noteq> NoRO then None
          else (let (mem1, vp) = reflect_New e mem in Some (mem1\<lparr>ptr_at := (ptr_at mem1)(a \<mapsto> vp)\<rparr>))
      | _ \<Rightarrow> Some mem)"
| "make_pointer mem _ = Some mem"

fun make_map :: "vals \<Rightarrow> mvalue \<Rightarrow> vals option" where
  "make_map vals (MAt a t r) =
     (if kind_of t = KMap \<and> vals a = None then
        if r \<noteq> NoRO then None else Some (vals(a \<mapsto> VMap t []))
      else Some vals)"
| "make_map vals _ = Some vals"

fun FieldByIndexes ::
  "tenv \<Rightarrow> memory \<Rightarrow> vals \<Rightarrow> mvalue \<Rightarrow> nat list \<Rightarrow> (memory \<times> vals \<times> mvalue) option" where
  "FieldByIndexes E mem vals v [] = Some (mem, vals, v)"
| "FieldByIndexes E mem vals v (i # is) =
     (case Option.bind (mem_Indirect mem v) (\<lambda>x. mem_Field E x i) of
        None \<Rightarrow> None
      | Some v1 \<Rightarrow>
          (case make_pointer mem v1 of
             None \<Rightarrow> None
           | Some mem1 \<Rightarrow>
               (case make_map vals v1 of
                  None \<Rightarrow> None
                | Some vals1 \<Rightarrow> FieldByIndexes E mem1 vals1 v1 is)))"

text \<open>\<open>FieldByName\<close>; for a name the mapper does not know it gives the zero \<open>Value\<close>, here no value.\<close>

definition FieldByName ::
  "tenv \<Rightarrow> mapper \<Rightarrow> memory \<Rightarrow> vals \<Rightarrow> mvalue \<Rightarrow> string \<Rightarrow> (memory \<times> vals \<times> mvalue option) option" where
  "FieldByName E m mem vals v name =
     (case type_map E m (mvalue_type v) of
        None \<Rightarrow> None
      | Some tm \<Rightarrow>
          (case sm_names tm name of
             None \<Rightarrow> Some (mem, vals, None)
           | Some fi \<Rightarrow> map_option (\<lambda>(mem1, vals1, v1). (mem1, vals1, Some v1)) (FieldByIndexes E mem vals v (fi_index fi))))"

subsection \<open>Agreement with raw addresses\<close>

text \<open>The fields along an index path are exported, so that no \<open>Set\<close> panics.\<close>

fun path_exported :: "tenv \<Rightarrow> gtype \<Rightarrow> nat list \<Rightarrow> bool" where
  "path_exported E t [] = True"
| "path_exported E t (i # is) =
     (case t of
        TStruct s \<Rightarrow>
          (case struct_of E s of
             None \<Rightarrow> False
           | Some d \<Rightarrow> i < length (sfields d) \<and> fexported (sfields d ! i) \<and>
               path_exported E (Deref (ftype (sfields d ! i))) is)
      | _ \<Rightarrow> False)"

text \<open>Where a value leads: itself, or what the pointer in it points to.\<close>

definition leads_to :: "memory \<Rightarrow> mvalue \<Rightarrow> addr \<Rightarrow> gtype \<Rightarrow> bool" where
  "leads_to mem v a t \<longleftrightarrow> (\<exists>r. mem_Indirect mem v = Some (MAt a t r))"

fun flag_of :: "mvalue \<Rightarrow> ro_flag" where
  "flag_of (MPtr p t r) = r"
| "flag_of (MAt a t r) = r"

lemma mem_Indirect_flag: "mem_Indirect mem v = Some (MAt a t r) \<Longrightarrow> r = flag_of v"
  by (cases v) (auto split: option.splits)

text \<open>A map that is nil where a value stands, made; nothing else changes.\<close>

fun map_made :: "vals \<Rightarrow> mvalue \<Rightarrow> vals" where
  "map_made vals (MAt a t r) = (if kind_of t = KMap \<and> vals a = None then vals(a \<mapsto> VMap t []) else vals)"
| "map_made vals (MPtr p t r) = vals"

lemma map_made_kind: "kind_of (mvalue_type v) \<noteq> KMap \<Longrightarrow> map_made vals v = vals"
  by (cases v) auto

lemma Deref_map: "kind_of t = KMap \<Longrightarrow> Deref t = t"
  using ptr_elem_kind [of t] by (cases "ptr_elem t") (auto simp: Deref_def)

text \<open>One field: both ways make the same pointer, and the first a map if the field is one.\<close>

lemma field_step:
  assumes "mem_Indirect mem v = Some (MAt a (TStruct s) r)" and "struct_of E s = Some d" and "i < length (sfields d)"
    and "r = NoRO" and "fexported (sfields d ! i)"
  shows "\<exists>mem1 v1 b. FieldByIndexes E mem vals v [i] = Some (mem1, map_made vals v1, v1) \<and> flag_of v1 = NoRO \<and>
    mvalue_type v1 = ftype (sfields d ! i) \<and> leads_to mem1 v1 b (Deref (ftype (sfields d ! i))) \<and>
    AddrByTraversal mem a (field_steps (sfields d ! i)) = (mem1, b)"
proof -
  let ?f = "sfields d ! i"
  let ?a = "add_offset a (foffset ?f)"
  have fld: "Option.bind (mem_Indirect mem v) (\<lambda>x. mem_Field E x i) = Some (MAt ?a (ftype ?f) NoRO)"
    using assms by (simp add: field_ro_def)
  show ?thesis
  proof (cases "ptr_elem (ftype ?f)")
    case None
    with fld show ?thesis by (simp add: leads_to_def field_steps_def Deref_def)
  next
    case (Some e)
    then have "kind_of (ftype ?f) \<noteq> KMap" using ptr_elem_kind [of "ftype ?f"] by auto
    then have m: "make_map vals (MAt ?a (ftype ?f) NoRO) = Some vals" "map_made vals (MAt ?a (ftype ?f) NoRO) = vals" by simp_all
    show ?thesis
    proof (cases "ptr_at mem ?a")
      case set: (Some q)
      with fld Some m show ?thesis by (simp add: leads_to_def field_steps_def Deref_def)
    next
      case nil: None
      obtain mem1 vp where "reflect_New e mem = (mem1, vp)" by (cases "reflect_New e mem")
      with fld Some m nil show ?thesis by (simp add: leads_to_def field_steps_def Deref_def)
    qed
  qed
qed

lemma FieldByIndexes_Cons:
  "FieldByIndexes E mem vals v (i # is) =
     (case FieldByIndexes E mem vals v [i] of
        None \<Rightarrow> None | Some (mem1, vals1, v1) \<Rightarrow> FieldByIndexes E mem1 vals1 v1 is)"
  by (simp split: option.split)

lemma AddrByTraversal_append:
  "AddrByTraversal mem a (ss @ ss') = (case AddrByTraversal mem a ss of (mem1, b) \<Rightarrow> AddrByTraversal mem1 b ss')"
  by (induction mem a ss rule: AddrByTraversal.induct) (auto simp: Let_def split: option.split prod.split)

text \<open>On the way to a field there are structs and pointers to them only, so the one map that may be made is the field itself.\<close>

lemma FieldByIndexes_walk:
  assumes "leads_to mem v a t" and "flag_of v = NoRO" and "walk E t ix = Some (ss, t')" and "path_exported E t ix"
    and "map_made vals v = vals"
  shows "\<exists>mem1 v1 b. FieldByIndexes E mem vals v ix = Some (mem1, map_made vals v1, v1) \<and> leads_to mem1 v1 b t' \<and>
    AddrByTraversal mem a ss = (mem1, b)"
  using assms
proof (induction ix arbitrary: mem v a t ss)
  case (Cons i js)
  obtain s d ss' where w: "t = TStruct s" "struct_of E s = Some d" "i < length (sfields d)"
      "walk E (Deref (ftype (sfields d ! i))) js = Some (ss', t')" "ss = field_steps (sfields d ! i) @ ss'"
    using Cons.prems(3) by (elim walk_ConsE)
  have x: "fexported (sfields d ! i)" "path_exported E (Deref (ftype (sfields d ! i))) js"
    using Cons.prems(4) w(1,2) by simp_all
  have ind: "mem_Indirect mem v = Some (MAt a (TStruct s) NoRO)"
    using Cons.prems(1,2) w(1) mem_Indirect_flag by (fastforce simp: leads_to_def)
  from field_step [OF ind w(2,3) refl x(1), of vals] obtain mem1 v1 b where
    one: "FieldByIndexes E mem vals v [i] = Some (mem1, map_made vals v1, v1)" "flag_of v1 = NoRO"
      "mvalue_type v1 = ftype (sfields d ! i)" "leads_to mem1 v1 b (Deref (ftype (sfields d ! i)))"
      "AddrByTraversal mem a (field_steps (sfields d ! i)) = (mem1, b)"
    by blast
  show ?case
  proof (cases js)
    case Nil
    with one w(4,5) show ?thesis by (auto simp: AddrByTraversal_append simp del: FieldByIndexes.simps)
  next
    case js: (Cons j ks)
    have "kind_of (ftype (sfields d ! i)) \<noteq> KMap"
    proof
      assume k: "kind_of (ftype (sfields d ! i)) = KMap"
      from w(4) [unfolded js] obtain s' where "Deref (ftype (sfields d ! i)) = TStruct s'" by (elim walk_ConsE)
      with Deref_map [OF k] k have "kind_of (TStruct s') = KMap" by simp
      then show False by simp
    qed
    then have m: "map_made vals v1 = vals" using one(3) by (intro map_made_kind) simp
    from Cons.IH [OF one(4,2) w(4) x(2) m] one(1,5) w(5) m show ?thesis
      by (auto simp: FieldByIndexes_Cons [of E mem vals v i js] AddrByTraversal_append simp del: FieldByIndexes.simps)
  qed
qed (auto simp: leads_to_def)

text \<open>
  C32. The two ways to a field agree: from a pointer to an object of a mapped type, \<open>FieldByName\<close>, walking through \<open>reflect\<close>
  along a path of exported fields, returns without a panic a value that leads to the address where
  \<open>AddrByTraversal\<close> ends, of the same type, and the two leave the same blocks and the same pointers in them.  \<open>FieldByName\<close> also
  makes the map when the field is a nil map, which \<open>AddrByTraversal\<close> does not do; it changes no other value, and a map that is there stays.
\<close>

theorem FieldByName_agrees:
  assumes "type_map E m (TPtr t) = Some tm" and "Deref t = t" and "sm_names tm name = Some fi" and "path_exported E t (fi_index fi)"
  shows "\<exists>mem1 v1 a. FieldByName E m mem vals (MPtr (Some base) (TPtr t) NoRO) name =
      Some (mem1, if kind_of (mvalue_type v1) = KMap \<and> vals a = None then vals(a \<mapsto> VMap (fi_target fi) []) else vals, Some v1) \<and>
    mem_Indirect mem1 v1 = Some (MAt a (fi_target fi) (flag_of v1)) \<and>
    AddrByTraversal mem base (fi_traversal fi) = (mem1, a)"
proof -
  have "mapType E m t = Some tm" using assms(1) by (simp add: type_map_def Deref_def)
  from mapType_names_ok [OF this assms(3)] have w: "walk E t (fi_index fi) = Some (fi_traversal fi, fi_target fi)"
    by (simp add: info_ok_def)
  have "leads_to mem (MPtr (Some base) (TPtr t) NoRO) base t" by (simp add: leads_to_def)
  from FieldByIndexes_walk [OF this _ w assms(4), of vals] obtain mem1 v1 b where
    f: "FieldByIndexes E mem vals (MPtr (Some base) (TPtr t) NoRO) (fi_index fi) = Some (mem1, map_made vals v1, v1)"
      "leads_to mem1 v1 b (fi_target fi)" "AddrByTraversal mem base (fi_traversal fi) = (mem1, b)" by auto
  moreover from f(2) have ind: "mem_Indirect mem1 v1 = Some (MAt b (fi_target fi) (flag_of v1))"
    using mem_Indirect_flag by (fastforce simp: leads_to_def)
  moreover have "map_made vals v1 = (if kind_of (mvalue_type v1) = KMap \<and> vals b = None then vals(b \<mapsto> VMap (fi_target fi) []) else vals)"
  proof (cases v1)
    case (MAt c u r)
    have "c = b \<and> u = fi_target fi" if "kind_of u = KMap"
      using ind MAt that ptr_elem_kind [of u] by (cases "ptr_elem u") auto
    with MAt show ?thesis by auto
  next
    case (MPtr p u r)
    have "kind_of u \<noteq> KMap" using ind MPtr ptr_elem_kind [of u] by (auto split: option.splits)
    with MPtr show ?thesis by simp
  qed
  ultimately show ?thesis using assms(1,3) by (auto simp: FieldByName_def)
qed

text \<open>A field behind a nil pointer, which is made; and a nil map, which \<open>FieldByName\<close> makes.\<close>

definition tags_types :: tenv where
  "tags_types =
     \<lparr>structs = [(''Tags'', \<lparr>sname = ''Tags'', sfields = [sample_field ''Labels'' string_map 0 ''labels''], ssize = 8\<rparr>)],
      implements_scanner = (\<lambda>_. False), unicode_letter_digit = (\<lambda>_. False)\<rparr>"

theorem FieldByName_agrees_witness:
  "(\<exists>mem1 v1 a. FieldByName sample_types sample_mapper person_memory Map.empty (MPtr (Some (Addr 0 0)) (TPtr (TStruct ''Person'')) NoRO)
      ''zip'' = Some (mem1, Map.empty, Some v1) \<and> mem_Indirect mem1 v1 = Some (MAt a (TBasic BString) (flag_of v1)) \<and>
    next_block mem1 = 2) \<and>
   (\<exists>mem1 v1 a. FieldByName tags_types sample_mapper empty_memory Map.empty (MPtr (Some (Addr 0 0)) (TPtr (TStruct ''Tags'')) NoRO)
      ''labels'' = Some (mem1, Map.empty(a \<mapsto> VMap string_map []), Some v1))"
proof (rule conjI)
  have tm: "type_map sample_types sample_mapper (TPtr (TStruct ''Person'')) = Some sample_person"
    using sample_person by (simp add: type_map_def Deref_def)
  have "(case sm_names sample_person ''zip'' of None \<Rightarrow> False | Some fi \<Rightarrow> fi_target fi = TBasic BString \<and>
      path_exported sample_types (TStruct ''Person'') (fi_index fi) \<and>
      next_block (fst (AddrByTraversal person_memory (Addr 0 0) (fi_traversal fi))) = 2)"
    by code_simp
  then obtain fi where fi: "sm_names sample_person ''zip'' = Some fi" "fi_target fi = TBasic BString"
      "path_exported sample_types (TStruct ''Person'') (fi_index fi)"
      "next_block (fst (AddrByTraversal person_memory (Addr 0 0) (fi_traversal fi))) = 2"
    by (auto split: option.splits)
  have D: "Deref (TStruct ''Person'') = TStruct ''Person''" by (simp add: Deref_def)
  obtain mem1 v1 a where f: "FieldByName sample_types sample_mapper person_memory Map.empty (MPtr (Some (Addr 0 0)) (TPtr (TStruct ''Person'')) NoRO)
      ''zip'' = Some (mem1, if kind_of (mvalue_type v1) = KMap \<and> (Map.empty :: vals) a = None then Map.empty(a \<mapsto> VMap (fi_target fi) []) else Map.empty, Some v1)"
      "mem_Indirect mem1 v1 = Some (MAt a (fi_target fi) (flag_of v1))"
      "AddrByTraversal person_memory (Addr 0 0) (fi_traversal fi) = (mem1, a)"
    using FieldByName_agrees [OF tm D fi(1,3), of person_memory Map.empty "Addr 0 0"] by blast
  have "kind_of (mvalue_type v1) \<noteq> KMap" using f(2) fi(2) ptr_elem_kind [of "mvalue_type v1"]
    by (cases v1) (auto split: option.splits)
  with f fi(2,4) show "\<exists>mem1 v1 a. FieldByName sample_types sample_mapper person_memory Map.empty (MPtr (Some (Addr 0 0)) (TPtr (TStruct ''Person'')) NoRO)
      ''zip'' = Some (mem1, Map.empty, Some v1) \<and> mem_Indirect mem1 v1 = Some (MAt a (TBasic BString) (flag_of v1)) \<and>
    next_block mem1 = 2" by auto
next
  have "(case type_map tags_types sample_mapper (TPtr (TStruct ''Tags'')) of None \<Rightarrow> False | Some tm \<Rightarrow>
      (case sm_names tm ''labels'' of None \<Rightarrow> False | Some fi \<Rightarrow> fi_target fi = string_map \<and>
        path_exported tags_types (TStruct ''Tags'') (fi_index fi)))" by code_simp
  then obtain tm fi where tm: "type_map tags_types sample_mapper (TPtr (TStruct ''Tags'')) = Some tm" and fi: "sm_names tm ''labels'' = Some fi"
      "fi_target fi = string_map" "path_exported tags_types (TStruct ''Tags'') (fi_index fi)"
    by (auto split: option.splits)
  have "Deref (TStruct ''Tags'') = TStruct ''Tags''" by (simp add: Deref_def)
  moreover have "case FieldByName tags_types sample_mapper empty_memory Map.empty (MPtr (Some (Addr 0 0)) (TPtr (TStruct ''Tags'')) NoRO) ''labels'' of
      Some (_, _, Some v1) \<Rightarrow> kind_of (mvalue_type v1) = KMap | _ \<Rightarrow> False" by code_simp
  ultimately show "\<exists>mem1 v1 a. FieldByName tags_types sample_mapper empty_memory Map.empty (MPtr (Some (Addr 0 0)) (TPtr (TStruct ''Tags'')) NoRO)
      ''labels'' = Some (mem1, Map.empty(a \<mapsto> VMap string_map []), Some v1)"
    using FieldByName_agrees [OF tm _ fi(1,3), of empty_memory Map.empty "Addr 0 0"] fi(2) by fastforce
qed

end
