(* ===== verification/Sqlx_API.thy ===== *)
theory Sqlx_API
  imports Handles Reflect_Set
begin

text \<open>
  The functions the packages \<open>sqlx\<close> (\<open>sqlx.go\<close>, \<open>types.go\<close>) and \<open>reflectx\<close> (\<open>reflectx/reflectx.go\<close>) export under their
  own names for those of \<open>internal/bind\<close> and \<open>internal/reflectx\<close>, and the way a caller chains them: a named
  query with slices among its values goes through \<open>Named\<close>, \<open>In\<close> and \<open>Rebind\<close>.
\<close>

subsection \<open>\<open>sqlx\<close>\<close>

definition sqlx_Rebind :: "int \<Rightarrow> string \<Rightarrow> string" where
  "sqlx_Rebind bindType query = Rebind bindType query"

definition sqlx_In :: "valuer \<Rightarrow> string \<Rightarrow> gval list \<Rightarrow> (string \<times> gval list) result" where
  "sqlx_In valuer query args = In valuer query args"

definition sqlx_Named :: "tenv \<Rightarrow> cworld \<Rightarrow> string \<Rightarrow> gval \<Rightarrow> bound" where
  "sqlx_Named E w query arg = Named E w query arg"

definition sqlx_BindType :: "binds \<Rightarrow> string \<Rightarrow> int" where
  "sqlx_BindType b driverName = BindType b driverName"

definition sqlx_BindDriver :: "binds \<Rightarrow> string \<Rightarrow> int \<Rightarrow> binds" where
  "sqlx_BindDriver b driverName bindType = BindDriver b driverName bindType"

subsection \<open>\<open>reflectx\<close>\<close>

definition reflectx_NewMapper :: "string \<Rightarrow> mapper" where
  "reflectx_NewMapper tag = NewMapper tag"

definition reflectx_NewMapperFunc :: "string \<Rightarrow> (string \<Rightarrow> string) \<Rightarrow> mapper" where
  "reflectx_NewMapperFunc tag f = NewMapperFunc tag f"

definition reflectx_NewMapperTagFunc :: "string \<Rightarrow> (string \<Rightarrow> string) \<Rightarrow> (string \<Rightarrow> string) \<Rightarrow> mapper" where
  "reflectx_NewMapperTagFunc tag f g = NewMapperTagFunc tag f g"

definition reflectx_FieldByIndexes ::
  "tenv \<Rightarrow> memory \<Rightarrow> vals \<Rightarrow> mvalue \<Rightarrow> nat list \<Rightarrow> (memory \<times> vals \<times> mvalue) option" where
  "reflectx_FieldByIndexes E mem vals v indexes = FieldByIndexes E mem vals v indexes"

definition reflectx_FieldByIndexesReadOnly where
  "reflectx_FieldByIndexesReadOnly E v indexes = FieldByIndexesReadOnly E v indexes"

definition reflectx_Deref :: "gtype \<Rightarrow> gtype" where
  "reflectx_Deref t = Deref t"

subsection \<open>\<open>Named\<close>, \<open>In\<close>, \<open>Rebind\<close>\<close>

text \<open>What \<open>In\<close> does with values it accepts when the query has a mark for each.\<close>

lemma In_matching:
  assumes "list_all (acceptable valuer) args" and "count_list query CHR ''?'' = length args"
  shows "\<exists>q. In valuer query args =
      Ok (q, if list_ex (expands valuer) args then concat (map (expansion valuer) args) else args) \<and>
    count_list q CHR ''?'' = length (if list_ex (expands valuer) args then concat (map (expansion valuer) args) else args)"
proof (cases "list_ex (expands valuer) args")
  case True
  with In_spec [OF assms(1), of query] assms(2) In_Ok_count [OF assms(1) True] show ?thesis by auto
next
  case False
  with In_spec [OF assms(1), of query] assms(2) show ?thesis by auto
qed

lemma BindAnyArgs_length: "BindAnyArgs E names arg m = Ok as \<Longrightarrow> length as = length names"
  by (auto simp: BindAnyArgs_values dest: list_all2_lengthD split: result.splits option.splits)

text \<open>
  C35. The documented chain never loses track of the values: for a struct or map argument and a query with no
  \<open>?\<close> of its own, once \<open>Named\<close> has succeeded and none of its values is one \<open>In\<close> rejects, \<open>In\<close> succeeds,
  with every slice replaced by its elements in order, and after \<open>Rebind\<close> to a numbered dialect the query has
  exactly one placeholder per value, numbered from 1 in the order of the values, and no \<open>?\<close> is left.
\<close>

theorem Named_In_Rebind:
  assumes "cache_reachable (w, own)" and "single_arg arg" and "CHR ''?'' \<notin> set query"
    and "sqlx_Named E w query arg = (w1, Ok (q, args))" and "list_all (acceptable valuer) args"
    and "bt \<noteq> QUESTION" and "bt \<noteq> UNKNOWN"
  shows "\<exists>q2 as. sqlx_In valuer q args = Ok (q2, as) \<and>
    as = (if list_ex (expands valuer) args then concat (map (expansion valuer) args) else args) \<and>
    sqlx_Rebind bt q2 = number_pieces (placeholder bt) 1 (split_on CHR ''?'' q2) \<and>
    length (split_on CHR ''?'' q2) = Suc (length as) \<and> CHR ''?'' \<notin> set (sqlx_Rebind bt q2)"
proof -
  have "snd (bindNamedMapper E w QUESTION query arg bindDefaultMapper) = Ok (q, args)"
    using assms(4) by (simp add: sqlx_Named_def Named_def)
  then obtain names where n: "compile_query QUESTION query = Ok (q, names)" "BindAnyArgs E names arg bindDefaultMapper = Ok args"
    using bindNamedMapper_Ok_iff [OF assms(1,2)] by blast
  have "count_list q CHR ''?'' = length args"
    using compile_query_marks [OF n(1)] assms(3) BindAnyArgs_length [OF n(2)] by (simp add: count_list_notin)
  from In_matching [OF assms(5) this] obtain q2 where "In valuer q args =
      Ok (q2, if list_ex (expands valuer) args then concat (map (expansion valuer) args) else args)"
    "count_list q2 CHR ''?'' = length (if list_ex (expands valuer) args then concat (map (expansion valuer) args) else args)" by blast
  then show ?thesis
    using rebind_no_qmark [OF assms(6,7)] assms(6,7)
    by (auto simp: sqlx_In_def sqlx_Rebind_def length_split_on Rebind_def rebind_loop_pieces)
qed

theorem Named_In_Rebind_witness:
  "\<exists>q2. sqlx_In (\<lambda>_. None) ''id IN (?) AND city=? '' [sample_ints [''4'', ''9''], VBasic (TBasic BString) ''Oslo''] =
      Ok (q2, [VBasic (TBasic BInt) ''4'', VBasic (TBasic BInt) ''9'', VBasic (TBasic BString) ''Oslo'']) \<and>
    length (split_on CHR ''?'' q2) = 4 \<and> CHR ''?'' \<notin> set (sqlx_Rebind DOLLAR q2)"
proof -
  let ?args = "[sample_ints [''4'', ''9''], VBasic (TBasic BString) ''Oslo'']"
  let ?arg = "VMap string_map [(''ids'', sample_ints [''4'', ''9'']), (''city'', VBasic (TBasic BString) ''Oslo'')]"
  let ?q = "''id IN (:ids) AND city=:city ''"
  have s: "single_arg ?arg" by (simp add: single_arg_def)
  have "snd (sqlx_Named sample_types init_cworld ?q ?arg) = Ok (''id IN (?) AND city=? '', ?args)" by code_simp
  then obtain w1 where n: "sqlx_Named sample_types init_cworld ?q ?arg = (w1, Ok (''id IN (?) AND city=? '', ?args))"
    by (metis prod.collapse)
  have ok: "list_all (acceptable (\<lambda>_. None)) ?args"
    by (simp add: acceptable_def valuer_error_def resolve_def expands_def asSliceForIn_def sample_ints_def Deref_def)
  have ex: "list_ex (expands (\<lambda>_. None)) ?args"
    "concat (map (expansion (\<lambda>_. None)) ?args) =
       [VBasic (TBasic BInt) ''4'', VBasic (TBasic BInt) ''9'', VBasic (TBasic BString) ''Oslo'']"
    by code_simp+
  have q: "CHR ''?'' \<notin> set ?q" by simp
  have b: "DOLLAR \<noteq> QUESTION" "DOLLAR \<noteq> UNKNOWN" by (simp_all add: bindtype_defs)
  from Named_In_Rebind [OF cache_reachable.start s q n ok b] ex show ?thesis by auto
qed

end
