(* ===== verification/Scan_Pointers.thy ===== *)
theory Scan_Pointers
  imports Scan_Values
begin

text \<open>
  \<open>Get\<close> into a \<open>**T\<close>: the element type is a pointer, and \<open>TypeMap\<close> looks through it while \<open>populateScanDest\<close> does not.
\<close>

subsection \<open>Parts that do not overlap need room\<close>

text \<open>The bytes of a list of separate parts, each given by its offset and its size.\<close>

definition apart :: "nat \<times> nat \<Rightarrow> nat \<times> nat \<Rightarrow> bool" where
  "apart p q \<longleftrightarrow> disjoint_parts (fst p) (snd p) (fst q) (snd q)"

lemma card_parts:
  assumes "sorted_wrt apart ps"
  shows "card (\<Union>(a, n) \<in> set ps. {a..<a + n}) = sum_list (map snd ps)"
  using assms
proof (induction ps)
  case (Cons p ps)
  obtain a n where p: "p = (a, n)" by (cases p)
  have "{a..<a + n} \<inter> (\<Union>(b, k) \<in> set ps. {b..<b + k}) = {}"
    using Cons.prems p by (fastforce simp: apart_def disjoint_parts_def)
  moreover have "finite (\<Union>(b, k) \<in> set ps. {b..<b + k})" by auto
  ultimately show ?case using Cons p card_Un_disjoint [of "{a..<a + n}"] by simp
qed simp

lemma part_beyond:
  assumes "sorted_wrt apart ps" and "N < sum_list (map snd ps)"
  shows "\<exists>(a, n) \<in> set ps. N < a + n"
proof (rule ccontr)
  assume "\<not> ?thesis"
  then have "(\<Union>(a, n) \<in> set ps. {a..<a + n}) \<subseteq> {..<N}" by fastforce
  then have "card (\<Union>(a, n) \<in> set ps. {a..<a + n}) \<le> card {..<N}" by (rule card_mono [rotated]) simp
  with assms card_parts show False by simp
qed

text \<open>The part of a struct a column is scanned into, nothing for a column that is discarded.\<close>

definition column_part :: "tenv \<Rightarrow> struct_map \<Rightarrow> string \<Rightarrow> nat \<times> nat" where
  "column_part E tm c = (case sm_names tm c of None \<Rightarrow> (0, 0) | Some fi \<Rightarrow> (fi_offset fi, size_of E (fi_target fi)))"

definition no_pointers :: "struct_map \<Rightarrow> string list \<Rightarrow> bool" where
  "no_pointers tm cols \<longleftrightarrow> list_all (\<lambda>c. case sm_names tm c of None \<Rightarrow> True | Some fi \<Rightarrow> \<not> fi_isptr fi) cols"

lemma column_parts_disjoint:
  assumes "layout_ok E" and "mapType E m t = Some tm" and "separate_columns E tm cols" and "no_pointers tm cols"
  shows "sorted_wrt apart (map (column_part E tm) cols)"
proof -
  have "apart (column_part E tm (cols ! i)) (column_part E tm (cols ! j))"
    if ij: "i < j" "j < length cols" for i j
  proof (cases "sm_names tm (cols ! i) = None \<or> sm_names tm (cols ! j) = None")
    case True
    then show ?thesis by (auto simp: apart_def column_part_def disjoint_parts_def split: option.splits)
  next
    case False
    then obtain fi fj where f: "sm_names tm (cols ! i) = Some fi" "sm_names tm (cols ! j) = Some fj" by auto
    have "info_ok E t fi" "info_ok E t fj" using mapType_names_ok [OF assms(2)] f by blast+
    moreover have "\<not> fi_isptr fi" "\<not> fi_isptr fj"
      using assms(4) f ij by (auto simp: no_pointers_def list_all_length dest: order.strict_trans)
    ultimately show ?thesis
      using walk_disjoint [OF assms(1), of t "fi_index fi"] separate_columnsD(3) [OF assms(3) ij f] f
      by (auto simp: apart_def column_part_def info_ok_def ptr_ok_def)
  qed
  then show ?thesis by (simp add: sorted_wrt_iff_nth_less)
qed

lemma row_okD:
  "row_ok conv tm cols row \<Longrightarrow> i < length cols \<Longrightarrow> sm_names tm (cols ! i) = Some fi \<Longrightarrow>
     \<exists>x. conv (fi_target fi) (row ! i) = Inr x"
  by (cases "conv (fi_target fi) (row ! i)") (auto simp: row_ok_def list_all2_conv_all_nth)

lemma column_beyond:
  assumes "layout_ok E" and "type_map E m (TPtr t) = Some tm" and "separate_columns E tm cols" and "no_pointers tm cols"
    and "N < sum_list (map snd (map (column_part E tm) cols))" and "row_ok conv tm cols row"
  shows "\<exists>i fi x. i < length cols \<and> sm_names tm (cols ! i) = Some fi \<and> conv (fi_target fi) (row ! i) = Inr x \<and>
    N < fi_offset fi + size_of E (fi_target fi)"
proof -
  have tm: "mapType E m t = Some tm" using assms(2) by (simp add: type_map_def Deref_def)
  from part_beyond [OF column_parts_disjoint [OF assms(1) tm assms(3,4)] assms(5)] obtain i where
    i: "i < length cols" "case column_part E tm (cols ! i) of (a, n) \<Rightarrow> N < a + n"
    by (auto simp: in_set_conv_nth)
  then obtain fi where "sm_names tm (cols ! i) = Some fi" "N < fi_offset fi + size_of E (fi_target fi)"
    by (auto simp: column_part_def split: option.splits)
  with i row_okD [OF assms(6)] show ?thesis by blast
qed

text \<open>One row scanned at offsets from an address, whatever the block there is.\<close>

lemma scan_direct_values:
  assumes "layout_ok E" and "type_map E m (TPtr t) = Some tm" and "fresh_meta E (TPtr t) (rs_columns rows) tm u = Ok meta"
    and "separate_columns E tm (rs_columns rows)" and "no_pointers tm (rs_columns rows)"
    and "length dests = length (rs_columns rows)"
    and "\<not> rs_closed rows" and "rs_current rows = Some row" and "row_ok conv tm (rs_columns rows) row"
  shows "\<exists>d vals1. scan_struct conv meta (\<lambda>mem. (mem, dest)) yield rows (mem, vals, dests, s) =
      Some ((mem, vals1, d, fst (yield dest s)), snd (yield dest s)) \<and>
    (\<forall>i < length (rs_columns rows). \<forall>fi x. sm_names tm (rs_columns rows ! i) = Some fi \<longrightarrow> conv (fi_target fi) (row ! i) = Inr x \<longrightarrow>
      vals1 (add_offset dest (fi_offset fi)) = Some x)"
proof -
  let ?cols = "rs_columns rows"
  let ?d = "map (\<lambda>c. Some (case sm_names tm c of None \<Rightarrow> DDiscard
      | Some fi \<Rightarrow> DField (add_offset dest (fi_offset fi)) (fi_target fi))) ?cols"
  have tm: "mapType E m t = Some tm" using assms(2) by (simp add: type_map_def Deref_def)
  have p: "populateScanDest mem dest meta dests = Some (mem, ?d)"
    using assms(5) by (intro fresh_meta_direct [OF assms(3) _ assms(6)]) (auto simp: no_pointers_def list_all_iff)
  have rl: "length row = length ?cols" using assms(9) by (auto simp: row_ok_def dest: list_all2_lengthD)
  have conv: "list_all2 (converts conv) ?d row"
    using rl row_okD [OF assms(9)] by (auto simp: list_all2_conv_all_nth converts_def split: option.split)
  have "distinct (List.map_filter dest_addr ?d)"
  proof (rule distinct_dests)
    fix i j a b assume ij: "i < j" "j < length ?d" "dest_addr (?d ! i) = Some a" "dest_addr (?d ! j) = Some b"
    then obtain fi fj where f: "sm_names tm (?cols ! i) = Some fi" "a = add_offset dest (fi_offset fi)"
        "sm_names tm (?cols ! j) = Some fj" "b = add_offset dest (fi_offset fj)"
      by (auto simp: dest_addr_def split: option.splits)
    have "disjoint_parts (fi_offset fi) (size_of E (fi_target fi)) (fi_offset fj) (size_of E (fi_target fj))"
      using sorted_wrt_nth_less [OF column_parts_disjoint [OF assms(1) tm assms(4,5)] ij(1)] ij(1,2) f(1,3)
      by (simp add: apart_def column_part_def)
    with separate_columnsD(1,2) [OF assms(4) ij(1) _ f(1,3)] ij(2) f(2,4) show "a \<noteq> b"
      by (auto simp: disjoint_parts_def add_offset_def)
  qed
  from scan_columns_ok [OF conv this, of 0 vals] obtain v where v: "scan_columns conv 0 ?d row vals = (v, None)"
      "\<forall>i < length ?d. \<forall>a t x. ?d ! i = Some (DField a t) \<longrightarrow> conv t (row ! i) = Inr x \<longrightarrow> v a = Some x" by blast
  have "scan_struct conv meta (\<lambda>mem. (mem, dest)) yield rows (mem, vals, dests, s) =
      Some ((mem, v, ?d, fst (yield dest s)), snd (yield dest s))"
    using p v(1) assms(7,8) rl by (simp add: scan_struct_def rows_Scan_def split_beta)
  with v(2) show ?thesis by fastforce
qed

subsection \<open>Outside the pointer\<close>



end
