(* ===== verification/Spec2Isabelle.thy ===== *)
theory Spec2Isabelle
  imports Cache_Free Type_Flight Shared_Caches Generics_Get Mock_Driver Sqlx_API Scan_Pointers
begin

text \<open>
  A verification library for sqlx, a Go library that adds named parameters and struct scanning to
  \<open>database/sql\<close>.  This header says what is modelled, where, and what the theorems show.

  \<^bold>\<open>The program.\<close>  A query with named parameters goes through \<open>internal/bind\<close>: it is compiled into a
  query with positional marks and a list of names, the names are bound to values taken from a
  struct, a map or the rows of a slice, slices in an argument list are expanded, and marks are
  rewritten for the dialect of the driver.  Struct fields are found by \<open>internal/reflectx\<close>, whose
  mapper flattens a struct type into named fields with an index path and, for scanning, a byte
  offset or a list of pointer steps.  The engine (\<open>engine.go\<close>, \<open>rows.go\<close>, \<open>generics.go\<close>) plans for
  the columns of a result set which field each is scanned into and reads rows through raw
  addresses.  The handles (\<open>db.go\<close>, \<open>tx.go\<close>, \<open>conn.go\<close>, \<open>stmt.go\<close>, \<open>named_stmt.go\<close>) tie the parts
  together.  The parts share three caches: compiled queries, mapped types and scan plans.

  \<^bold>\<open>The theories.\<close>
  \<^item> \<open>Sqlx_Prelude\<close>: Go errors and results, byte strings, decimal numbers, \<open>sync.Map\<close> and the
    contract \<open>memo_cache\<close> of a memoising client.
  \<^item> \<open>Sim_Runs\<close>: sequences of calls, and the contracts \<open>simulation\<close>, \<open>abstraction\<close> and \<open>pure_answers\<close> (each an instance of
    the one before) by which two such sequences are compared.
  \<^item> \<open>Bind_Rebind\<close>: \<open>BindType\<close>, \<open>BindDriver\<close>, \<open>Rebind\<close> of \<open>internal/bind/bind.go\<close>.
  \<^item> \<open>Bind_Compile\<close>: the byte loop of \<open>compileNamedQuery\<close>, one definition for the loop body
    (\<open>compile_step\<close>), and a tokenizer as its specification.
  \<^item> \<open>Bind_Cache\<close>: \<open>compileNamedQuery\<close> and \<open>CompileNamedQuery\<close> with the compile cache; slices are
    references to arrays, because what the cache holds may be aliased by callers.
  \<^item> \<open>Bind_In\<close>: \<open>In\<close> with its two loops, \<open>asSliceForIn\<close>, \<open>appendReflectSlice\<close>.
  \<^item> \<open>Go_Types\<close>: types, struct layouts and values of Go's \<open>reflect\<close>.
  \<^item> \<open>Reflectx\<close>: the mapper of \<open>internal/reflectx/reflectx.go\<close>: tags, \<open>flattenFields\<close>, \<open>mapType\<close>.
  \<^item> \<open>Reflectx_Inv\<close>: flattening as an inductive relation, and the invariant tying each field to the
    reference walk along its index path; offsets and bounds.
  \<^item> \<open>Reflectx_Names\<close>: which field a name stands for, totality, the panic of \<open>NewMapper\<close>.
  \<^item> \<open>Reflectx_TypeMap\<close>: \<open>TypeMap\<close> with its cache, \<open>TraversalsByName\<close>, \<open>TraversalsByNameFunc\<close>.
  \<^item> \<open>Type_Flight\<close>: \<open>TypeMap\<close> called by any number of goroutines, with the maps as pointers and \<open>singleflight\<close> deciding.
  \<^item> \<open>Reflect_Read\<close>: \<open>FieldByIndexesReadOnly\<close> on typed values.
  \<^item> \<open>Bind_Named\<close>: \<open>bindArgs\<close>, \<open>bindMapArgs\<close>, \<open>bindStructDirect\<close>, \<open>bindArray\<close>, \<open>bindNamedMapper\<close> and
    the contract \<open>name_binder\<close> they share.
  \<^item> \<open>Bind_Batch\<close>: the properties of batch binding.
  \<^item> \<open>Engine_Meta\<close>: \<open>hashColumns\<close>, \<open>buildMeta\<close>, its sort and its cache, of \<open>engine.go\<close>.
  \<^item> \<open>Shared_Caches\<close>: the compile and the plan cache used by any number of goroutines at once; the steps are the
    atomic \<open>Load\<close> and \<open>Store\<close> and the copies for callers, in any order.
  \<^item> \<open>Reflect_Mem\<close>: memory as blocks with pointer words, and \<open>AddrByTraversal\<close> over it.
  \<^item> \<open>Engine_Scan\<close>: the rest of \<open>engine.go\<close>: \<open>populateScanDest\<close> and the pool, which hands out whichever of its slices a stream of
    choices says, \<open>sql.Rows\<close> as its documentation has it, \<open>iterateScan\<close> (its body \<open>iterate_body\<close>, its loop \<open>scan_loop\<close>), \<open>selectScan\<close>, \<open>getScan\<close>.
  \<^item> \<open>Reflect_Set\<close>: \<open>FieldByIndexes\<close> and \<open>FieldByName\<close>, which make pointers and maps on the way to a field.
  \<^item> \<open>Reflect_Own\<close>: why traversals of different fields of a new object end at different places.
  \<^item> \<open>Rows_Scan\<close>: \<open>Row\<close> and \<open>Rows\<close> of \<open>rows.go\<close>, \<open>SliceScan\<close>, \<open>MapScan\<close> and \<open>StructScan\<close> of \<open>helpers.go\<close>.
  \<^item> \<open>Scan_Values\<close>: what \<open>Select\<close> and \<open>Get\<close> leave in memory.
  \<^item> \<open>Scan_Pointers\<close>: what \<open>Get\<close> into a pointer to a pointer writes, and where.
  \<^item> \<open>Handles\<close>: the records \<open>db\<close>, \<open>tx\<close>, \<open>conn\<close>, \<open>stmt\<close>, \<open>named_stmt\<close> with every method of \<open>db.go\<close>, \<open>tx.go\<close>, \<open>conn.go\<close>,
    \<open>stmt.go\<close>, \<open>named_stmt.go\<close> (\<open>DB_Select\<close> is \<open>(*DB).Select\<close>), and the functions of \<open>helpers.go\<close> over interfaces, whose
    arguments are an \<open>executor\<close>.  \<open>sql_api\<close> holds what \<open>database/sql\<close> answers, \<open>sys\<close> the state.
  \<^item> \<open>Handles_Props\<close>: the properties of the handles.
  \<^item> \<open>Named_Refine\<close>: sequences of \<open>NamedExec\<close> and \<open>NamedQuery\<close> against a machine that knows no cache and no byte loop.
  \<^item> \<open>Prepared_Refine\<close>: clients of prepared named statements against clients that bind the query at every call.
  \<^item> \<open>Cache_Free\<close>: the package's calls against a machine that keeps no compiled query, plan or pooled destination.
  \<^item> \<open>Generics\<close>, \<open>Generics_Props\<close>, \<open>Generics_Get\<close>: \<open>SelectG\<close>, \<open>GetG\<close>, \<open>SelectIter\<close> of \<open>generics.go\<close>, and their properties.
  \<^item> \<open>Sqlx_API\<close>: what \<open>sqlx.go\<close>, \<open>types.go\<close> and \<open>reflectx/reflectx.go\<close> export for the above, and the chain
    \<open>Named\<close>, \<open>In\<close>, \<open>Rebind\<close>.
  \<^item> \<open>Mock_Driver\<close>: the driver of the repository's tests (\<open>internal/mockdb/mockdb.go\<close>), and \<open>Select\<close> run over it.

  \<^bold>\<open>Conventions.\<close>  A Go \<open>(T, error)\<close> is a \<open>result\<close>; a panic is \<open>Panic\<close>, or \<open>None\<close> where nothing else can go
  wrong.  Error values carry the format string of the source and the wrapped error, so
  \<open>errors.Is\<close> is \<open>errors_is\<close>.  A definition carries the name of the function it models; the body of
  a long function is cut at its loops.  Loops over indices keep the source's indices.  Struct types
  are names in a type environment, and a type that refers to itself is flattened with the
  source's visited set, which is also the termination measure.

  \<^bold>\<open>What is shown.\<close>  Compilation equals printing the tokens of the query, gives one mark per name, and
  commutes with \<open>Rebind\<close>; \<open>In\<close> is specified on every branch; binding is specified for structs, maps
  and batches, the fast struct path equals the slow one, and marks and values of a batch agree in
  number; the mapper's fields are right for their index paths, lie inside the struct and do not
  overlap; names resolve as stated; each of the three caches is transparent, the compile cache even
  against callers who write to what they got, and the compile and the plan cache also when goroutines interleave; in a program with one mapper no sequence of calls can tell that anything is kept;
  a type is mapped once, all callers share the map, and no call of \<open>TypeMap\<close> is stuck.  Some theorems record behaviour that is not what the
  code means to do: a trailing \<open>_\<close>, calls inside a batch's group, batches of maps, pointers to slices,
  mappers without a name function, the plan cache shared between mappers, destinations behind two
  pointers, the modes a prepared statement loses, and the call of a loop body after it stopped.

  Scanning: on typed memory every destination is an object of its field's type inside a block; result
  sets are closed on every path; \<open>Select\<close> reads every row and \<open>Get\<close> exactly one; \<open>Select\<close> leaves in each object it makes
  the converted values of its row, behind pointers too; the ways to scan
  agree with each other (\<open>Rows.StructScan\<close> with \<open>StructScan\<close>, \<open>SelectG\<close> and \<open>SelectIter\<close> with \<open>Select\<close>, \<open>GetG\<close> with \<open>Get\<close>), and
  streaming with \<open>Rows.StructScan\<close> with \<open>Select\<close> but for missing columns and strictness, where the differences are stated; the array of \<open>SelectG\<close> keeps its rows while it grows.  The handles keep their configuration, named calls send
  exactly what the abstract machine sends, a prepared
  named statement of a handle with the default mapper behaves like its query bound anew at every call with a struct or a
  \<open>map[string]any\<close>, and a slice is executed up to its first failure.

  \<^bold>\<open>Hypotheses on code that is not here.\<close>  \<open>singleflight\<close> (\<open>flight_ok\<close>; \<open>singleflight_ok\<close>, \<open>singleflight_live\<close>), the user's \<open>Value\<close>
  methods (\<open>valuer\<close>), the memory layout the compiler chooses (\<open>layout_ok\<close>), that no struct contains itself
  (\<open>zero_ok\<close>), the conversion of a driver's value for a destination (\<open>conv\<close>), \<open>float64\<close> and random numbers in the
  test driver (\<open>floats\<close>), and \<open>database/sql\<close> with the driver (\<open>sql_api\<close>): the rows a query returns are what the driver will
  deliver, fixed when it is sent, and executing a prepared statement that was not closed is executing its query (\<open>stmt_ok\<close>).

  \<^bold>\<open>Bounds and fuel.\<close>  No definition uses fuel: the loops over rows decrease the rows still to come, the others
  are structural or measured.  Columns are hashed in 64-bit words; lengths and offsets are natural numbers,
  since none of them can pass the size of memory.

  \<^bold>\<open>Not modelled.\<close>  \<open>Get\<close> into a nil pointer: \<open>getScan\<close> has no check for it and scans near address zero, where the memory
  of the model has no block; its theorems are about a destination that is the address of a variable.  The type aliases of \<open>reflectx\<close> and the
  constants and errors \<open>sqlx\<close> re-exports, which are names for what is modelled; the registration of the test
  driver; the containers the integration tests start.
\<close>

end
